(* ===== verification/Prelude.thy ===== *)
theory Prelude
  imports Main "HOL-Library.Word" "HOL-Library.Code_Target_Numeral"
begin

text \<open>
  Shared vocabulary of the development.

  \<^item> Go's machine types: \<^verbatim>\<open>byte\<close>, \<^verbatim>\<open>uint16\<close>, \<^verbatim>\<open>uint64\<close> are words of that width, a
    \<^verbatim>\<open>[]byte\<close> is a list of bytes, a Go string is a list of characters (a character is one byte).
  \<^item> Go's \<^verbatim>\<open>error\<close> values (\<open>gerr\<close>): the sentinels the code compares with, the stream error of the
    QUIC library, errors built by \<^verbatim>\<open>errors.New\<close> and \<^verbatim>\<open>fmt.Errorf\<close> (kept as format string and
    arguments), and errors wrapped with \<^verbatim>\<open>%w\<close>.  \<open>errorsIs\<close> is \<^verbatim>\<open>errors.Is\<close>.
  \<^item> The result of a Go call (\<open>outcome\<close>): a value with a nil error, a non-nil error, or a panic.
  \<^item> The collections of simplification rules the component theories share.
\<close>

unbundle bit_operations_syntax

subsection \<open>Machine types\<close>

type_synonym byte = "8 word"
type_synonym u16 = "16 word"
type_synonym u64 = "64 word"
type_synonym bytes = "byte list"

named_theorems wire_simps \<open>equations that evaluate the readers on a canonical stream\<close>
named_theorems insens_intros \<open>rules that show a reader does not depend on the chunking\<close>
named_theorems consume_intros \<open>rules that show a reader only removes a prefix of the stream\<close>

subsection \<open>Go errors\<close>

text \<open>An argument of a \<^verbatim>\<open>fmt\<close> call.\<close>

datatype fmt_arg = FStr string | FU64 u64 | FInt int | FBytes bytes

datatype json_fault = SyntaxFault | TypeFault

datatype gerr =
    ErrEOF                                   \<comment> \<open>\<^verbatim>\<open>io.EOF\<close>\<close>
  | ErrUnexpectedEOF                         \<comment> \<open>\<^verbatim>\<open>io.ErrUnexpectedEOF\<close>\<close>
  | ErrCanceled                              \<comment> \<open>\<^verbatim>\<open>context.Canceled\<close>\<close>
  | ErrDeadlineExceeded                      \<comment> \<open>\<^verbatim>\<open>context.DeadlineExceeded\<close>\<close>
  | ErrStream u64 bool                       \<comment> \<open>\<^verbatim>\<open>*quic.StreamError\<close>: error code, remote\<close>
  | ErrJSON json_fault                       \<comment> \<open>an error of \<^verbatim>\<open>encoding/json\<close>, without its text\<close>
  | ErrURL                                   \<comment> \<open>an error of \<^verbatim>\<open>net/url\<close>, without its text\<close>
  | ErrExternal nat                          \<comment> \<open>any other error of the QUIC library or the OS\<close>
  | Errorf string "fmt_arg list"             \<comment> \<open>\<^verbatim>\<open>errors.New\<close>, \<^verbatim>\<open>fmt.Errorf\<close> without \<^verbatim>\<open>%w\<close>\<close>
  | Wrapf string "fmt_arg list" gerr         \<comment> \<open>\<^verbatim>\<open>fmt.Errorf\<close> whose last verb is \<^verbatim>\<open>%w\<close>\<close>

text \<open>\<^verbatim>\<open>errors.Is\<close>: does the chain of wrapped errors hold the target?\<close>

fun errorsIs :: "gerr \<Rightarrow> gerr \<Rightarrow> bool" where
  "errorsIs (Wrapf f args e) target = (Wrapf f args e = target \<or> errorsIs e target)"
| "errorsIs e target = (e = target)"

text \<open>\<^verbatim>\<open>errors.As(err, &streamErr)\<close>: the first stream error of the chain.\<close>

fun asStreamError :: "gerr \<Rightarrow> (u64 \<times> bool) option" where
  "asStreamError (ErrStream code remote) = Some (code, remote)"
| "asStreamError (Wrapf f args e) = asStreamError e"
| "asStreamError _ = None"

lemma errorsIs_refl [simp]: "errorsIs e e"
  by (cases e) auto

subsection \<open>Results of Go calls\<close>

datatype 'a outcome = Ok 'a | Err gerr | Panic

text \<open>Sequencing a fallible call with the rest of a function: \<^verbatim>\<open>if err != nil { return ..., err }\<close>.\<close>

fun obind :: "'a outcome \<Rightarrow> ('a \<Rightarrow> 'b outcome) \<Rightarrow> 'b outcome" where
  "obind (Ok x) f = f x"
| "obind (Err e) f = Err e"
| "obind Panic f = Panic"

text \<open>The same with the error wrapped: \<^verbatim>\<open>return ..., fmt.Errorf("...: %w", err)\<close>.\<close>

fun owrap :: "string \<Rightarrow> fmt_arg list \<Rightarrow> 'a outcome \<Rightarrow> 'a outcome" where
  "owrap f args (Ok x) = Ok x"
| "owrap f args (Err e) = Err (Wrapf f args e)"
| "owrap f args Panic = Panic"

lemma obind_eq_Ok [simp]: "obind m f = Ok y \<longleftrightarrow> (\<exists>x. m = Ok x \<and> f x = Ok y)"
  by (cases m) auto

lemma owrap_eq_Ok [simp]: "owrap f args m = Ok y \<longleftrightarrow> m = Ok y"
  by (cases m) auto

lemma owrap_eq_Panic [simp]: "owrap f args m = Panic \<longleftrightarrow> m = Panic"
  by (cases m) auto

lemma owrap_eq_Err: "owrap f args m = Err e \<longleftrightarrow> (\<exists>e'. m = Err e' \<and> e = Wrapf f args e')"
  by (cases m) auto

subsection \<open>Strings and bytes\<close>

text \<open>The conversions \<^verbatim>\<open>[]byte(s)\<close> and \<^verbatim>\<open>string(b)\<close> keep the bytes.\<close>

definition byte_of_char :: "char \<Rightarrow> byte" where
  "byte_of_char c = word_of_nat (of_char c)"

definition char_of_byte :: "byte \<Rightarrow> char" where
  "char_of_byte b = char_of (unat b)"

definition bytes_of :: "string \<Rightarrow> bytes" where
  "bytes_of s = map byte_of_char s"

definition string_of :: "bytes \<Rightarrow> string" where
  "string_of b = map char_of_byte b"

lemma of_char_less_256: "(of_char c :: nat) < 256"
  using nat_of_char_less_256 [of c] by simp

lemma char_of_byte_of_char [simp]: "char_of_byte (byte_of_char c) = c"
  using of_char_less_256 [of c]
  by (simp add: char_of_byte_def byte_of_char_def unat_of_nat)

lemma byte_of_char_of_byte [simp]: "byte_of_char (char_of_byte b) = b"
proof -
  have "unat b < 256" using unsigned_less [of b, where ?'a = nat] by simp
  then show ?thesis by (simp add: char_of_byte_def byte_of_char_def)
qed

lemma string_of_bytes_of [simp]: "string_of (bytes_of s) = s"
  by (induction s) (simp_all add: string_of_def bytes_of_def)

lemma bytes_of_string_of [simp]: "bytes_of (string_of b) = b"
  by (induction b) (simp_all add: string_of_def bytes_of_def)

lemma length_bytes_of [simp]: "length (bytes_of s) = length s"
  by (simp add: bytes_of_def)

lemma bytes_of_eq_Nil [simp]: "bytes_of s = [] \<longleftrightarrow> s = []"
  by (simp add: bytes_of_def)

lemma bytes_of_inj: "bytes_of s = bytes_of t \<Longrightarrow> s = t"
  by (metis string_of_bytes_of)

definition isDigit :: "char \<Rightarrow> bool" where
  "isDigit c \<longleftrightarrow> (of_char c :: nat) \<ge> 48 \<and> (of_char c :: nat) \<le> 57"

subsection \<open>Word lemmas\<close>

text \<open>A bound on a word is a bound on its bits.\<close>

lemma bit_less_pow:
  fixes w :: "'a::len word"
  assumes "w < 2 ^ n" and "bit w i"
  shows "i < n"
proof -
  from assms(1) have "w AND mask n = w" by (rule less_mask_eq)
  with assms(2) have "bit (w AND mask n) i" by simp
  then show ?thesis by (simp add: bit_simps)
qed

end
