(* ===== verification/GoIO.thy ===== *)
theory GoIO
  imports Prelude "HOL-Library.Sublist"
begin

text \<open>
  The part of Go's \<^verbatim>\<open>io\<close> package the program reads its streams with.

  A \<open>reader\<close> is an \<^verbatim>\<open>io.Reader\<close>: the chunks of bytes its \<^verbatim>\<open>Read\<close> calls will return, and the error
  it returns once they are used up.  A \<^verbatim>\<open>bytes.Reader\<close> over a payload is one chunk that ends in
  \<^verbatim>\<open>io.EOF\<close> (\<open>mkr payload ErrEOF\<close>).  A QUIC receive stream is an ordered byte stream that arrives in
  chunks the peer and the network choose, and ends in \<^verbatim>\<open>io.EOF\<close> (FIN), a stream error (RESET) or a
  connection error; blocking is not modelled, a \<^verbatim>\<open>Read\<close> waits for the next chunk.

  Functions that read are state transformers \<open>reader \<Rightarrow> 'a outcome \<times> reader\<close>; \<open>rbind\<close>, \<open>rwrap\<close> and
  their kin sequence them.  Two facts hold for every reader of the program and are collected by
  rules over these combinators: it does not depend on how the stream is cut into chunks
  (\<open>insens\<close>), and it removes a prefix of the stream (\<open>advances\<close>).  The locales at the end state
  what a wire format promises (\<open>wire_format\<close>, \<open>wire_message\<close>) and what a message loop needs
  (\<open>message_source\<close>).
\<close>

subsection \<open>Readers\<close>

record reader =
  chunks :: "bytes list"
  fin :: gerr

definition flat :: "reader \<Rightarrow> bytes" where
  "flat r = concat (chunks r)"

definition mkr :: "bytes \<Rightarrow> gerr \<Rightarrow> reader" where
  "mkr d e = \<lparr>chunks = (if d = [] then [] else [d]), fin = e\<rparr>"

lemma flat_mkr [simp]: "flat (mkr d e) = d"
  by (simp add: flat_def mkr_def)

lemma fin_mkr [simp]: "fin (mkr d e) = e"
  by (simp add: mkr_def)

lemma mkr_eq_iff [simp]: "mkr d e = mkr d' e' \<longleftrightarrow> d = d' \<and> e = e'"
  by (metis flat_mkr fin_mkr)

text \<open>One call \<^verbatim>\<open>r.Read(buf)\<close> with \<open>n = len(buf)\<close>.\<close>

definition goRead :: "nat \<Rightarrow> reader \<Rightarrow> bytes \<times> gerr option \<times> reader" where
  "goRead n r = (case chunks r of
      [] \<Rightarrow> ([], Some (fin r), r)
    | c # cs \<Rightarrow>
        if n < length c then (take n c, None, r\<lparr>chunks := drop n c # cs\<rparr>)
        else (c, None, r\<lparr>chunks := cs\<rparr>))"

text \<open>
  The loop of \<^verbatim>\<open>io.ReadAtLeast\<close> as \<^verbatim>\<open>io.ReadFull\<close> calls it:
  \<^verbatim>\<open>for n < min && err == nil { nn, err = r.Read(buf[n:]); n += nn }\<close>.
\<close>

function readLoop :: "nat \<Rightarrow> bytes \<Rightarrow> reader \<Rightarrow> bytes \<times> gerr option \<times> reader" where
  "readLoop want got r =
     (if length got < want then
        (case goRead (want - length got) r of
           (d, Some e, r') \<Rightarrow> (got @ d, Some e, r')
         | (d, None, r') \<Rightarrow> readLoop want (got @ d) r')
      else (got, None, r))"
  by pat_completeness auto
termination
  by (relation "measure (\<lambda>(want, got, r). length (chunks r) + length (flat r))")
    (auto simp: goRead_def flat_def split: list.splits if_splits)

declare readLoop.simps [simp del]

definition readFull :: "nat \<Rightarrow> reader \<Rightarrow> bytes outcome \<times> reader" where
  "readFull n r = (case readLoop n [] r of
      (got, err, r') \<Rightarrow>
        if n \<le> length got then (Ok got, r')
        else (case err of
            None \<Rightarrow> (Ok got, r')
          | Some e \<Rightarrow>
              (Err (if got \<noteq> [] \<and> e = ErrEOF then ErrUnexpectedEOF else e), r')))"

text \<open>\<^verbatim>\<open>io.ReadAll\<close>.\<close>

definition readAll :: "reader \<Rightarrow> bytes outcome \<times> reader" where
  "readAll r = (if fin r = ErrEOF then Ok (flat r) else Err (fin r), r\<lparr>chunks := []\<rparr>)"

lemma readLoop_spec:
  assumes "readLoop want got r = (got', err, r')"
  shows "got' = got @ take (want - length got) (flat r)
    \<and> flat r' = drop (want - length got) (flat r) \<and> fin r' = fin r
    \<and> (length got' < want \<longrightarrow> err = Some (fin r))"
  using assms
proof (induction want got r rule: readLoop.induct)
  case (1 want got r)
  show ?case
  proof (cases "length got < want")
    case False
    with "1.prems" show ?thesis by (simp add: readLoop.simps [of want got r])
  next
    case True
    show ?thesis
    proof (cases "chunks r")
      case Nil
      with True "1.prems" show ?thesis
        by (auto simp: readLoop.simps [of want got r] goRead_def flat_def)
    next
      case (Cons c cs)
      let ?n = "want - length got"
      let ?d = "if ?n < length c then take ?n c else c"
      let ?s = "r\<lparr>chunks := (if ?n < length c then drop ?n c # cs else cs)\<rparr>"
      have rd: "goRead ?n r = (?d, None, ?s)" using Cons by (simp add: goRead_def)
      with True "1.prems" have "readLoop want (got @ ?d) ?s = (got', err, r')"
        by (simp add: readLoop.simps [of want got r])
      with "1.IH" [OF True rd [symmetric] refl refl] Cons True show ?thesis
        by (auto simp: flat_def min_def split: if_splits)
    qed
  qed
qed

text \<open>\<^verbatim>\<open>io.ReadFull\<close> in terms of the whole stream.\<close>

definition shortErr :: "bytes \<Rightarrow> gerr \<Rightarrow> gerr" where
  "shortErr d e = (if d \<noteq> [] \<and> e = ErrEOF then ErrUnexpectedEOF else e)"

lemma readFull_spec:
  "fst (readFull n r) =
     (if n \<le> length (flat r) then Ok (take n (flat r)) else Err (shortErr (flat r) (fin r)))"
  "flat (snd (readFull n r)) = drop n (flat r)"
  "fin (snd (readFull n r)) = fin r"
proof -
  obtain got err r' where l: "readLoop n [] r = (got, err, r')"
    by (cases "readLoop n [] r")
  from readLoop_spec [OF l] have g: "got = take n (flat r)" "flat r' = drop n (flat r)"
    "fin r' = fin r" "length got < n \<Longrightarrow> err = Some (fin r)" by auto
  then show "fst (readFull n r) =
      (if n \<le> length (flat r) then Ok (take n (flat r)) else Err (shortErr (flat r) (fin r)))"
    using l by (auto simp: readFull_def shortErr_def)
  show "flat (snd (readFull n r)) = drop n (flat r)" "fin (snd (readFull n r)) = fin r"
    using l g by (auto simp: readFull_def split: option.splits)
qed

lemma readLoop_done: "n \<le> length got \<Longrightarrow> readLoop n got r = (got, None, r)"
  by (simp add: readLoop.simps [of n got r])

lemma readLoop_end:
  "length got < n \<Longrightarrow> chunks r = [] \<Longrightarrow> readLoop n got r = (got, Some (fin r), r)"
  by (simp add: readLoop.simps [of n got r] goRead_def)

lemma readLoop_part:
  "length got < n \<Longrightarrow> chunks r = c # cs \<Longrightarrow> n - length got < length c \<Longrightarrow>
   readLoop n got r =
     (got @ take (n - length got) c, None, r\<lparr>chunks := drop (n - length got) c # cs\<rparr>)"
  by (simp add: readLoop.simps [of n got r] goRead_def) (simp add: readLoop_done)

lemma readLoop_next:
  "length got < n \<Longrightarrow> chunks r = c # cs \<Longrightarrow> length c \<le> n - length got \<Longrightarrow>
   readLoop n got r = readLoop n (got @ c) (r\<lparr>chunks := cs\<rparr>)"
  by (simp add: readLoop.simps [of n got r] goRead_def)

lemmas readLoop_eqs = readLoop_done readLoop_end readLoop_part readLoop_next

lemma readLoop_mkr:
  "readLoop n [] (mkr d e) =
     (if length d < n then (d, Some e, mkr [] e) else (take n d, None, mkr (drop n d) e))"
  by (cases "n = 0"; cases "d = []"; cases "length d < n"; cases "length d = n")
    (simp_all add: mkr_def readLoop_eqs)

lemma readFull_mkr [wire_simps]:
  "readFull n (mkr d e) =
     (if n \<le> length d then (Ok (take n d), mkr (drop n d) e) else (Err (shortErr d e), mkr [] e))"
  by (auto simp: readFull_def readLoop_mkr shortErr_def)

lemma readFull_append [wire_simps]:
  "length x = n \<Longrightarrow> readFull n (mkr (x @ y) e) = (Ok x, mkr y e)"
  by (simp add: readFull_mkr)

lemma readAll_mkr [wire_simps]: "readAll (mkr d ErrEOF) = (Ok d, mkr [] ErrEOF)"
  by (simp add: readAll_def mkr_def flat_def)

subsection \<open>Sequencing readers\<close>

definition rret :: "'a \<Rightarrow> reader \<Rightarrow> 'a outcome \<times> reader" where
  "rret x r = (Ok x, r)"

definition rerr :: "gerr \<Rightarrow> reader \<Rightarrow> 'a outcome \<times> reader" where
  "rerr e r = (Err e, r)"

definition rbind :: "(reader \<Rightarrow> 'a outcome \<times> reader) \<Rightarrow> ('a \<Rightarrow> reader \<Rightarrow> 'b outcome \<times> reader)
    \<Rightarrow> reader \<Rightarrow> 'b outcome \<times> reader" where
  "rbind m f r = (case m r of
      (Ok x, r') \<Rightarrow> f x r'
    | (Err e, r') \<Rightarrow> (Err e, r')
    | (Panic, r') \<Rightarrow> (Panic, r'))"

text \<open>The error of \<open>m\<close> wrapped by \<^verbatim>\<open>fmt.Errorf("...: %w", err)\<close>.\<close>

definition rwrap :: "string \<Rightarrow> fmt_arg list \<Rightarrow> (reader \<Rightarrow> 'a outcome \<times> reader)
    \<Rightarrow> reader \<Rightarrow> 'a outcome \<times> reader" where
  "rwrap f args m r = (case m r of (x, r') \<Rightarrow> (owrap f args x, r'))"

text \<open>
  \<^verbatim>\<open>make([]byte, n)\<close>: the runtime panics (\<^verbatim>\<open>makeslice: len out of range\<close>) when the slice does not
  fit the heap's address space, which is \<open>2 ^ 48\<close> bytes on the 64-bit platforms the program runs
  on.  Below that bound the memory is assumed to be there.
\<close>

definition maxAlloc :: nat where
  "maxAlloc = 2 ^ 48"

text \<open>\<^verbatim>\<open>buf := make([]byte, n); io.ReadFull(r, buf)\<close>.\<close>

definition readNew :: "nat \<Rightarrow> reader \<Rightarrow> bytes outcome \<times> reader" where
  "readNew n r = (if maxAlloc < n then (Panic, r) else readFull n r)"

lemma rbind_simps [wire_simps]:
  "m r = (Ok x, r') \<Longrightarrow> rbind m f r = f x r'"
  "m r = (Err e, r') \<Longrightarrow> rbind m f r = (Err e, r')"
  "m r = (Panic, r') \<Longrightarrow> rbind m f r = (Panic, r')"
  by (simp_all add: rbind_def)

lemma rwrap_simps [wire_simps]:
  "m r = (x, r') \<Longrightarrow> rwrap f args m r = (owrap f args x, r')"
  by (simp add: rwrap_def)

lemma rret_eq [wire_simps]: "rret x r = (Ok x, r)"
  by (simp add: rret_def)

lemma rerr_eq [wire_simps]: "rerr e r = (Err e, r)"
  by (simp add: rerr_def)

lemma readNew_append [wire_simps]:
  "length x = n \<Longrightarrow> n \<le> maxAlloc \<Longrightarrow> readNew n (mkr (x @ y) e) = (Ok x, mkr y e)"
  by (simp add: readNew_def readFull_append)

subsection \<open>A reader does not see the chunks\<close>

definition same_stream :: "reader \<Rightarrow> reader \<Rightarrow> bool" where
  "same_stream r s \<longleftrightarrow> flat r = flat s \<and> fin r = fin s"

definition insens :: "(reader \<Rightarrow> 'a outcome \<times> reader) \<Rightarrow> bool" where
  "insens p \<longleftrightarrow> (\<forall>r s. same_stream r s \<longrightarrow>
     fst (p r) = fst (p s) \<and> same_stream (snd (p r)) (snd (p s)))"

lemma insensI:
  "(\<And>r s. same_stream r s \<Longrightarrow> fst (p r) = fst (p s) \<and> same_stream (snd (p r)) (snd (p s)))
   \<Longrightarrow> insens p"
  by (simp add: insens_def)

lemma insensD:
  assumes "insens p" and "same_stream r s"
  shows "fst (p r) = fst (p s)" and "same_stream (snd (p r)) (snd (p s))"
  using assms by (auto simp: insens_def)

lemma same_stream_canon: "same_stream r (mkr (flat r) (fin r))"
  by (simp add: same_stream_def)

lemma insens_readFull [insens_intros]: "insens (readFull n)"
  by (rule insensI) (auto simp: same_stream_def readFull_spec)

lemma insens_readNew [insens_intros]: "insens (readNew n)"
  using insens_readFull [of n] by (auto simp: insens_def readNew_def)

lemma insens_readAll [insens_intros]: "insens readAll"
  by (rule insensI) (auto simp: same_stream_def readAll_def flat_def)

lemma insens_rret [insens_intros]: "insens (rret x)"
  by (rule insensI) (simp add: rret_def)

lemma insens_rerr [insens_intros]: "insens (rerr e)"
  by (rule insensI) (simp add: rerr_def)

lemma insens_rwrap [insens_intros]: "insens m \<Longrightarrow> insens (rwrap f args m)"
  by (auto simp: insens_def rwrap_def split: prod.splits) (metis fst_conv snd_conv)+

lemma insens_rbind [insens_intros]:
  assumes m: "insens m" and f: "\<And>x. insens (f x)"
  shows "insens (rbind m f)"
proof (rule insensI)
  fix r s assume rs: "same_stream r s"
  obtain x r' where r': "m r = (x, r')" by (cases "m r")
  obtain y s' where s': "m s = (y, s')" by (cases "m s")
  from insensD [OF m rs] r' s' have "x = y" "same_stream r' s'" by auto
  with f show "fst (rbind m f r) = fst (rbind m f s)
      \<and> same_stream (snd (rbind m f r)) (snd (rbind m f s))"
    by (cases x) (auto simp: rbind_def r' s' insens_def)
qed

lemma insens_if [insens_intros]:
  "(b \<Longrightarrow> insens p) \<Longrightarrow> (\<not> b \<Longrightarrow> insens q) \<Longrightarrow> insens (if b then p else q)"
  by simp

text \<open>What a reader does on the canonical stream it does on every chunking of it.\<close>

lemma insens_lift:
  assumes p: "insens p" and "p (mkr d e) = (x, mkr d' e')"
    and "flat r = d" and "fin r = e"
  shows "\<exists>r'. p r = (x, r') \<and> flat r' = d' \<and> fin r' = e'"
proof -
  have "same_stream r (mkr d e)" using assms(3,4) by (simp add: same_stream_def)
  from insensD [OF p this] assms(2) show ?thesis
    by (cases "p r") (auto simp: same_stream_def)
qed

subsection \<open>A reader removes a prefix of the stream\<close>

text \<open>\<open>advances k p\<close>: and at least \<open>k\<close> bytes of it when it returns a value.\<close>

definition advances :: "nat \<Rightarrow> (reader \<Rightarrow> 'a outcome \<times> reader) \<Rightarrow> bool" where
  "advances k p \<longleftrightarrow> (\<forall>r x r'. p r = (x, r') \<longrightarrow>
     suffix (flat r') (flat r) \<and> fin r' = fin r
     \<and> ((\<exists>y. x = Ok y) \<longrightarrow> length (flat r') + k \<le> length (flat r)))"

lemma advancesI:
  "(\<And>r x r'. p r = (x, r') \<Longrightarrow> suffix (flat r') (flat r) \<and> fin r' = fin r
     \<and> ((\<exists>y. x = Ok y) \<longrightarrow> length (flat r') + k \<le> length (flat r))) \<Longrightarrow> advances k p"
  by (simp add: advances_def)

lemma advancesD:
  assumes "advances k p" and "p r = (x, r')"
  shows "suffix (flat r') (flat r)" and "fin r' = fin r"
    and "x = Ok y \<Longrightarrow> length (flat r') + k \<le> length (flat r)"
  using assms by (auto simp: advances_def)

lemma advances_readFull [consume_intros]: "advances n (readFull n)"
proof (rule advancesI)
  fix r x r' assume "readFull n r = (x, r')"
  then show "suffix (flat r') (flat r) \<and> fin r' = fin r
      \<and> ((\<exists>y. x = Ok y) \<longrightarrow> length (flat r') + n \<le> length (flat r))"
    using readFull_spec [of n r] by (auto simp: suffix_drop split: if_splits)
qed

lemma advances_readNew [consume_intros]: "advances n (readNew n)"
  using advances_readFull [of n] by (auto simp: advances_def readNew_def)

lemma advances_readAll [consume_intros]: "advances 0 readAll"
  by (rule advancesI) (auto simp: readAll_def flat_def)

lemma advances_rret [consume_intros]: "advances 0 (rret x)"
  by (rule advancesI) (auto simp: rret_def)

lemma advances_rerr [consume_intros]: "advances k (rerr e)"
  by (rule advancesI) (auto simp: rerr_def)

lemma advances_rwrap [consume_intros]: "advances k m \<Longrightarrow> advances k (rwrap f args m)"
  by (fastforce simp: advances_def rwrap_def split: prod.splits)

lemma advances_weaken: "advances k p \<Longrightarrow> j \<le> k \<Longrightarrow> advances j p"
  by (fastforce simp: advances_def)

lemma advances_rbind:
  assumes m: "advances j m" and f: "\<And>x. advances k (f x)"
  shows "advances (j + k) (rbind m f)"
proof (rule advancesI)
  fix r y t assume b: "rbind m f r = (y, t)"
  obtain x r' where r': "m r = (x, r')" by (cases "m r")
  note mr = advancesD [OF m r']
  show "suffix (flat t) (flat r) \<and> fin t = fin r
      \<and> ((\<exists>z. y = Ok z) \<longrightarrow> length (flat t) + (j + k) \<le> length (flat r))"
  proof (cases x)
    case (Ok v)
    with b r' have ft: "f v r' = (y, t)" by (simp add: rbind_def)
    note ad = advancesD [OF f ft]
    from mr(3) [OF Ok] ad(3) have "\<exists>z. y = Ok z \<Longrightarrow> length (flat t) + (j + k) \<le> length (flat r)"
      by auto
    with mr(1,2) ad(1,2) show ?thesis by (auto intro: suffix_order.trans)
  next
    case (Err e)
    with b r' mr show ?thesis by (auto simp: rbind_def)
  next
    case Panic
    with b r' mr show ?thesis by (auto simp: rbind_def)
  qed
qed

lemma advances_rbind0 [consume_intros]:
  "advances 0 m \<Longrightarrow> (\<And>x. advances 0 (f x)) \<Longrightarrow> advances 0 (rbind m f)"
  using advances_rbind [of 0 m 0 f] by simp

lemma advances_rbind_left:
  "advances k m \<Longrightarrow> (\<And>x. advances 0 (f x)) \<Longrightarrow> advances k (rbind m f)"
  using advances_rbind [of k m 0 f] by simp

lemma advances_if [consume_intros]:
  "(b \<Longrightarrow> advances k p) \<Longrightarrow> (\<not> b \<Longrightarrow> advances k q) \<Longrightarrow> advances k (if b then p else q)"
  by simp

subsection \<open>No panic, and what a returned value satisfies\<close>

named_theorems safe_intros \<open>rules that show a reader never panics\<close>

definition nopanic :: "(reader \<Rightarrow> 'a outcome \<times> reader) \<Rightarrow> bool" where
  "nopanic p \<longleftrightarrow> (\<forall>r. fst (p r) \<noteq> Panic)"

definition returns :: "('a \<Rightarrow> bool) \<Rightarrow> (reader \<Rightarrow> 'a outcome \<times> reader) \<Rightarrow> bool" where
  "returns P p \<longleftrightarrow> (\<forall>r x. fst (p r) = Ok x \<longrightarrow> P x)"

lemma nopanicD: "nopanic p \<Longrightarrow> p r \<noteq> (Panic, r')"
  by (auto simp: nopanic_def dest: spec [of _ r])

lemma returnsD: "returns P p \<Longrightarrow> p r = (Ok x, r') \<Longrightarrow> P x"
  by (auto simp: returns_def dest: spec [of _ r])

lemma nopanic_readFull [safe_intros]: "nopanic (readFull n)"
  by (simp add: nopanic_def readFull_spec)

lemma nopanic_readNew: "n \<le> maxAlloc \<Longrightarrow> nopanic (readNew n)"
  using nopanic_readFull [of n] by (simp add: nopanic_def readNew_def)

lemma nopanic_readAll [safe_intros]: "nopanic readAll"
  by (simp add: nopanic_def readAll_def)

lemma nopanic_rret [safe_intros]: "nopanic (rret x)"
  by (simp add: nopanic_def rret_def)

lemma nopanic_rerr [safe_intros]: "nopanic (rerr e)"
  by (simp add: nopanic_def rerr_def)

lemma nopanic_rwrap [safe_intros]: "nopanic m \<Longrightarrow> nopanic (rwrap f args m)"
  by (auto simp: nopanic_def rwrap_def split: prod.splits) (metis fst_conv)

lemma nopanic_rbind_returns:
  assumes "nopanic m" and "returns P m" and "\<And>x. P x \<Longrightarrow> nopanic (f x)"
  shows "nopanic (rbind m f)"
  unfolding nopanic_def
proof
  fix r show "fst (rbind m f r) \<noteq> Panic"
    using assms nopanicD [OF assms(1)] returnsD [OF assms(2)]
    by (cases "m r"; cases "fst (m r)") (auto simp: rbind_def nopanic_def)
qed

lemma nopanic_rbind [safe_intros]:
  "nopanic m \<Longrightarrow> (\<And>x. nopanic (f x)) \<Longrightarrow> nopanic (rbind m f)"
  by (rule nopanic_rbind_returns [where P = "\<lambda>_. True"]) (simp_all add: returns_def)

lemma nopanic_if [safe_intros]:
  "(b \<Longrightarrow> nopanic p) \<Longrightarrow> (\<not> b \<Longrightarrow> nopanic q) \<Longrightarrow> nopanic (if b then p else q)"
  by simp

lemma returns_readFull: "returns (\<lambda>b. length b = n) (readFull n)"
  by (auto simp: returns_def readFull_spec split: if_splits)

lemma returns_readNew: "returns (\<lambda>b. length b = n) (readNew n)"
  using returns_readFull [of n] by (auto simp: returns_def readNew_def)

lemma returns_rret: "P x \<Longrightarrow> returns P (rret x)"
  by (simp add: returns_def rret_def)

lemma returns_rerr: "returns P (rerr e)"
  by (simp add: returns_def rerr_def)

lemma returns_True: "returns (\<lambda>_. True) p"
  by (simp add: returns_def)

lemma returns_rwrap: "returns P m \<Longrightarrow> returns P (rwrap f args m)"
  by (auto simp: returns_def rwrap_def split: prod.splits) (metis fst_conv)

lemma returns_if:
  "(b \<Longrightarrow> returns P p) \<Longrightarrow> (\<not> b \<Longrightarrow> returns P q) \<Longrightarrow> returns P (if b then p else q)"
  by simp

lemma returns_rbind:
  assumes "returns Q m" and "\<And>x. Q x \<Longrightarrow> returns P (f x)"
  shows "returns P (rbind m f)"
  unfolding returns_def
proof (intro allI impI)
  fix r y assume "fst (rbind m f r) = Ok y"
  then show "P y"
    using assms(2) returnsD [OF assms(1)]
    by (cases "m r"; cases "fst (m r)") (auto simp: rbind_def returns_def)
qed

subsection \<open>The interfaces of the wire formats\<close>

text \<open>
  A wire format: an encoder, a reader that recovers the value in front of any remaining stream, and
  the values the encoder accepts.
\<close>

locale wire_format =
  fixes enc :: "'a \<Rightarrow> bytes"
    and dec :: "reader \<Rightarrow> 'a outcome \<times> reader"
    and valid :: "'a \<Rightarrow> bool"
  assumes dec_enc: "valid x \<Longrightarrow> dec (mkr (enc x @ rest) e) = (Ok x, mkr rest e)"
    and dec_insens: "insens dec"
begin

lemma prefix_free:
  assumes "valid x" and "valid y" and eq: "enc x @ s = enc y @ t"
  shows "x = y \<and> s = t"
proof -
  have "dec (mkr (enc y @ t) ErrEOF) = (Ok x, mkr s ErrEOF)"
    unfolding eq [symmetric] using assms(1) by (rule dec_enc)
  moreover have "dec (mkr (enc y @ t) ErrEOF) = (Ok y, mkr t ErrEOF)" using assms(2) by (rule dec_enc)
  ultimately show ?thesis by simp
qed

lemma enc_injective:
  assumes "valid x" and "valid y" and "enc x = enc y"
  shows "x = y"
proof -
  have "enc x @ [] = enc y @ []" using assms(3) by simp
  with assms(1,2) show ?thesis by (metis prefix_free)
qed

lemma dec_chunked:
  assumes "valid x" and "flat r = enc x @ rest"
  shows "\<exists>r'. dec r = (Ok x, r') \<and> flat r' = rest \<and> fin r' = fin r"
  by (rule insens_lift [OF dec_insens dec_enc [OF assms(1)] assms(2) refl])

end

text \<open>A message of a stream is never empty, so a stream of messages has one reading.\<close>

locale wire_message = wire_format +
  assumes enc_nonempty: "valid x \<Longrightarrow> enc x \<noteq> []"
begin

lemma stream_unique:
  assumes "\<forall>x\<in>set xs. valid x" and "\<forall>y\<in>set ys. valid y"
    and "concat (map enc xs) = concat (map enc ys)"
  shows "xs = ys"
  using assms
proof (induction xs arbitrary: ys)
  case Nil
  then show ?case by (cases ys) (auto simp: enc_nonempty)
next
  case (Cons x xs)
  show ?case
  proof (cases ys)
    case Nil
    with Cons.prems show ?thesis by (auto simp: enc_nonempty)
  next
    case (Cons y ys')
    with Cons.prems(3) have "enc x @ concat (map enc xs) = enc y @ concat (map enc ys')" by simp
    with Cons Cons.prems(1,2) have "x = y \<and> concat (map enc xs) = concat (map enc ys')"
      by (intro prefix_free) auto
    with Cons Cons.IH [of ys'] Cons.prems(1,2) show ?thesis by simp
  qed
qed

end

text \<open>
  What a loop over the messages of a stream needs: every message it gets was taken off the stream,
  so the loop ends.
\<close>

locale message_source =
  fixes next_msg :: "reader \<Rightarrow> 'm outcome \<times> reader"
  assumes next_insens: "insens next_msg"
    and next_advances: "advances 1 next_msg"
begin

lemma next_shrinks:
  "next_msg r = (Ok m, r') \<Longrightarrow> length (flat r') < length (flat r)"
  using advancesD(3) [OF next_advances] by fastforce

lemma next_suffix:
  "next_msg r = (x, r') \<Longrightarrow> suffix (flat r') (flat r) \<and> fin r' = fin r"
  using advancesD(1,2) [OF next_advances] by blast

end

end
