(* ===== verification/Varint.thy ===== *)
theory Varint
  imports GoIO
begin

text \<open>
  \<^verbatim>\<open>internal/moqt/draft18/varint.go\<close>: the leading-1-bits variable-length integer of MoQ Transport.
  The number of leading 1 bits of the first byte is the number of bytes that follow it (0 to 8);
  the bits below the first 0 bit of the first byte and the bytes that follow are the value, most
  significant byte first.

  The functions keep the source's names and its word operations.  Shifts, masks and narrowing
  conversions act on words of Go's widths; \<open>goCopy\<close>, \<open>putUint64\<close>, \<open>uint64BE\<close> and \<open>leadingZeros8\<close>
  are the standard library calls \<^verbatim>\<open>copy\<close>, \<^verbatim>\<open>binary.BigEndian.PutUint64\<close>,
  \<^verbatim>\<open>binary.BigEndian.Uint64\<close> and \<^verbatim>\<open>bits.LeadingZeros8\<close>.
\<close>

subsection \<open>Standard library\<close>

definition putUint64 :: "u64 \<Rightarrow> bytes" where
  "putUint64 v = [ucast (drop_bit 56 v), ucast (drop_bit 48 v), ucast (drop_bit 40 v),
     ucast (drop_bit 32 v), ucast (drop_bit 24 v), ucast (drop_bit 16 v), ucast (drop_bit 8 v),
     ucast v]"

definition uint64BE :: "bytes \<Rightarrow> u64" where
  "uint64BE b = foldl (\<lambda>acc x. push_bit 8 acc OR ucast x) 0 (take 8 b)"

text \<open>\<^verbatim>\<open>copy(dst[off:], src)\<close>: as many bytes as fit.\<close>

definition goCopy :: "bytes \<Rightarrow> nat \<Rightarrow> bytes \<Rightarrow> bytes" where
  "goCopy dst off src =
     (let n = min (length dst - off) (length src)
      in take off dst @ take n src @ drop (off + n) dst)"

definition leadingZeros8 :: "byte \<Rightarrow> nat" where
  "leadingZeros8 x = length (takeWhile Not (map (bit x) [7, 6, 5, 4, 3, 2, 1, 0]))"

subsection \<open>varint.go\<close>

definition varintSize :: "u64 \<Rightarrow> nat" where
  "varintSize x =
     (if x \<le> 0x7F then 1
      else if x \<le> 0x3FFF then 2
      else if x \<le> 0x1FFFFF then 3
      else if x \<le> 0x0FFFFFFF then 4
      else if x \<le> 0x07FFFFFFFF then 5
      else if x \<le> 0x03FFFFFFFFFF then 6
      else if x \<le> 0x01FFFFFFFFFFFF then 7
      else if x \<le> 0x00FFFFFFFFFFFFFF then 8
      else 9)"

definition AppendVarint :: "bytes \<Rightarrow> u64 \<Rightarrow> bytes" where
  "AppendVarint b v =
     (let n = varintSize v in
      if n = 1 then b @ [ucast v]
      else if n = 9 then (b @ [0xFF]) @ putUint64 v
      else
        let firstData = (ucast (drop_bit ((n - 1) * 8) v) :: byte);
            mask = push_bit (9 - n) (1 :: u16) - 1;
            tag = (ucast (NOT mask) :: byte)
        in (b @ [tag OR firstData]) @ drop (8 - (n - 1)) (putUint64 v))"

definition decodeVarintBytes :: "byte \<Rightarrow> bytes \<Rightarrow> nat \<Rightarrow> u64" where
  "decodeVarintBytes first rest extra =
     (if extra = 0 then ucast (first AND 0x7F)
      else if extra = 8 then uint64BE rest
      else if extra = 7 then uint64BE (goCopy (replicate 8 0) 1 rest)
      else
        let n = extra;
            mask = drop_bit (n + 1) (0xFF :: byte);
            buf = (replicate 8 0)[8 - 1 - n := first AND mask]
        in uint64BE (goCopy buf (8 - n) rest))"

definition ParseVarint :: "bytes \<Rightarrow> (u64 \<times> nat) outcome" where
  "ParseVarint b =
     (case b of
        [] \<Rightarrow> Err ErrUnexpectedEOF
      | first # tail \<Rightarrow>
          let ones = leadingZeros8 (NOT first);
              extra = (if 8 < ones then 8 else ones);
              total = 1 + extra
          in if length b < total then Err ErrUnexpectedEOF
             else Ok (decodeVarintBytes first (take extra tail) extra, total))"

definition ReadVarint :: "reader \<Rightarrow> u64 outcome \<times> reader" where
  "ReadVarint =
     rbind (readFull 1) (\<lambda>buf.
       let first = hd buf;
           ones = leadingZeros8 (NOT first);
           extra = (if 8 < ones then 8 else ones)
       in if extra = 0 then rret (ucast (first AND 0x7F))
          else rbind (readNew extra) (\<lambda>rest. rret (decodeVarintBytes first rest extra)))"

subsection \<open>Big-endian words\<close>

lemma length_putUint64 [simp]: "length (putUint64 v) = 8"
  by (simp add: putUint64_def)

text \<open>One step of the big-endian reading: the bits read so far, extended by the next byte.\<close>

lemma or_step_byte:
  fixes v :: u64
  shows "push_bit 8 (drop_bit (k + 8) v) OR ucast (ucast (drop_bit k v) :: byte) = drop_bit k v"
proof (rule bit_word_eqI)
  fix i assume "i < LENGTH(64)"
  then show "bit (push_bit 8 (drop_bit (k + 8) v) OR ucast (ucast (drop_bit k v) :: byte)) i
      = bit (drop_bit k v) i"
    by (cases "i < 8") (auto simp: bit_simps)
qed

lemmas or_steps = or_step_byte [of 0, simplified] or_step_byte [of 8, simplified]
  or_step_byte [of 16, simplified] or_step_byte [of 24, simplified] or_step_byte [of 32, simplified]
  or_step_byte [of 40, simplified] or_step_byte [of 48, simplified]

lemma byte_of_top: "ucast (ucast (drop_bit 56 v) :: byte) = drop_bit 56 (v :: u64)"
proof (rule bit_word_eqI)
  fix i assume "i < LENGTH(64)"
  then show "bit (ucast (ucast (drop_bit 56 v) :: byte) :: u64) i = bit (drop_bit 56 v) i"
    by (cases "i < 8") (auto simp: bit_simps dest: bit_imp_le_length)
qed

lemma uint64BE_putUint64 [simp]: "uint64BE (putUint64 v) = v"
  by (simp add: uint64BE_def putUint64_def byte_of_top or_steps)

lemma leadingZeros8_le: "leadingZeros8 x \<le> 8"
  unfolding leadingZeros8_def by (rule order_trans [OF length_takeWhile_le]) simp

subsection \<open>The first byte\<close>

text \<open>The tag of an encoding whose first byte is followed by \<open>8 - k\<close> bytes: the bits from \<open>k\<close> up.\<close>

lemma bit_tag:
  assumes "k \<le> 8"
  shows "bit (ucast (NOT (push_bit k (1 :: u16) - 1)) :: byte) i \<longleftrightarrow> k \<le> i \<and> i < 8"
proof -
  have "push_bit k (1 :: u16) - 1 = mask k" by (simp add: mask_eq_exp_minus_1)
  with assms show ?thesis by (auto simp: bit_simps)
qed

lemma bit_ff: "bit (0xFF :: byte) i \<longleftrightarrow> i < 8"
proof -
  have "(0xFF :: byte) = mask 8" by (simp add: mask_eq_exp_minus_1)
  then show ?thesis by (simp only: bit_mask_iff) simp
qed

lemma bit_7f: "bit (0x7F :: byte) i \<longleftrightarrow> i < 7"
proof -
  have "(0x7F :: byte) = mask 7" by (simp add: mask_eq_exp_minus_1)
  then show ?thesis by (simp only: bit_mask_iff) auto
qed

lemma leadingZeros8_eq:
  assumes "k < 8" and "\<And>i. 7 - k < i \<Longrightarrow> i < 8 \<Longrightarrow> \<not> bit x i" and "bit x (7 - k)"
  shows "leadingZeros8 x = k"
proof -
  have "k = 0 \<or> k = 1 \<or> k = 2 \<or> k = 3 \<or> k = 4 \<or> k = 5 \<or> k = 6 \<or> k = 7"
    using assms(1) by linarith
  then show ?thesis using assms(2,3) by (elim disjE) (simp_all add: leadingZeros8_def)
qed

lemma leadingZeros8_bits:
  assumes "leadingZeros8 x = k"
  shows "\<And>i. 7 - k < i \<Longrightarrow> i < 8 \<Longrightarrow> \<not> bit x i" and "k < 8 \<Longrightarrow> bit x (7 - k)"
proof -
  have "(\<forall>i\<in>{7,6,5,4,3,2,1,0}. 7 - k < i \<longrightarrow> \<not> bit x i) \<and> (k < 8 \<longrightarrow> bit x (7 - k))"
    using assms by (auto simp: leadingZeros8_def split: if_splits)
  moreover have "i \<in> {7,6,5,4,3,2,1,0}" if "i < 8" for i :: nat using that by auto
  ultimately show "\<And>i. 7 - k < i \<Longrightarrow> i < 8 \<Longrightarrow> \<not> bit x i" and "k < 8 \<Longrightarrow> bit x (7 - k)"
    by blast+
qed

text \<open>The first byte of an encoding with \<open>n - 1\<close> further bytes.\<close>

definition firstByte :: "nat \<Rightarrow> u64 \<Rightarrow> byte" where
  "firstByte n v =
     ucast (NOT (push_bit (9 - n) (1 :: u16) - 1)) OR ucast (drop_bit ((n - 1) * 8) v)"

lemma bit_firstByte:
  assumes "2 \<le> n" "n \<le> 8" "v < 2 ^ (7 * n)"
  shows "bit (firstByte n v) i \<longleftrightarrow> i < 8 \<and> (9 - n \<le> i \<or> (i < 8 - n \<and> bit v ((n - 1) * 8 + i)))"
proof -
  have "i < 8 - n" if "bit v ((n - 1) * 8 + i)"
    using bit_less_pow [OF assms(3) that] assms(1,2) by auto
  then show ?thesis
    using assms(1,2) bit_tag [of "9 - n" i] unfolding firstByte_def bit_or_iff bit_ucast_iff
    by (auto simp: bit_drop_bit_eq)
qed

lemma leadingZeros8_firstByte:
  assumes "2 \<le> n" "n \<le> 8" "v < 2 ^ (7 * n)"
  shows "leadingZeros8 (NOT (firstByte n v)) = n - 1"
proof (rule leadingZeros8_eq)
  show "n - 1 < 8" using assms by simp
next
  fix i assume "7 - (n - 1) < i" "i < 8"
  with assms show "\<not> bit (NOT (firstByte n v)) i" by (auto simp: bit_not_iff bit_firstByte)
next
  show "bit (NOT (firstByte n v)) (7 - (n - 1))"
    using assms by (auto simp: bit_not_iff bit_firstByte)
qed

lemma leadingZeros8_small:
  assumes "v \<le> (0x7F :: u64)"
  shows "leadingZeros8 (NOT (ucast v :: byte)) = 0"
proof (rule leadingZeros8_eq)
  have "v < 2 ^ 7" using assms by (simp add: word_le_nat_alt word_less_nat_alt)
  then have "\<not> bit v 7" using bit_less_pow by blast
  then show "bit (NOT (ucast v :: byte)) (7 - 0)" by (simp add: bit_simps)
qed simp_all

subsection \<open>Decoding what the encoder wrote\<close>

lemma high_byte_zero:
  fixes v :: u64
  assumes "v < 2 ^ m" and "m \<le> k"
  shows "(ucast (drop_bit k v) :: byte) = 0"
proof (rule bit_word_eqI)
  fix i assume "i < LENGTH(8)"
  from bit_less_pow [OF assms(1)] assms(2) have "\<not> bit v (k + i)" by fastforce
  then show "bit (ucast (drop_bit k v) :: byte) i = bit (0 :: byte) i" by (simp add: bit_simps)
qed

lemma masked_firstByte:
  assumes "2 \<le> n" "n \<le> 8" "v < 2 ^ (7 * n)"
  shows "firstByte n v AND drop_bit n (0xFF :: byte) = ucast (drop_bit ((n - 1) * 8) v)"
proof (rule bit_word_eqI)
  fix i assume i: "i < LENGTH(8)"
  have "i < 8 - n" if "bit v ((n - 1) * 8 + i)"
    using bit_less_pow [OF assms(3) that] assms(1,2) by auto
  moreover have "bit (drop_bit n (0xFF :: byte)) i \<longleftrightarrow> n + i < 8"
    unfolding bit_drop_bit_eq comp_apply by (rule bit_ff)
  ultimately show "bit (firstByte n v AND drop_bit n (0xFF :: byte)) i
      = bit (ucast (drop_bit ((n - 1) * 8) v) :: byte) i"
    using i assms(1,2)
    by (auto simp: bit_and_iff bit_firstByte [OF assms] bit_drop_bit_eq bit_ucast_iff)
qed

lemma goCopy_tail:
  "length src = n \<Longrightarrow> n \<le> length dst \<Longrightarrow>
   goCopy dst (length dst - n) src = take (length dst - n) dst @ src"
  by (simp add: goCopy_def)

lemma decode_firstByte:
  assumes "2 \<le> n" "n \<le> 8" "v < 2 ^ (7 * n)"
  shows "decodeVarintBytes (firstByte n v) (drop (8 - (n - 1)) (putUint64 v)) (n - 1) = v"
proof -
  note zero = high_byte_zero [OF assms(3)] and fb = masked_firstByte [OF assms]
  have n: "n = 2 \<or> n = 3 \<or> n = 4 \<or> n = 5 \<or> n = 6 \<or> n = 7 \<or> n = 8"
    using assms by linarith
  then have "decodeVarintBytes (firstByte n v) (drop (8 - (n - 1)) (putUint64 v)) (n - 1)
      = uint64BE (putUint64 v)"
    by (elim disjE) (use fb zero in
      \<open>simp_all add: decodeVarintBytes_def goCopy_def putUint64_def numeral_eq_Suc\<close>)
  then show ?thesis by simp
qed

subsection \<open>The shape of an encoding\<close>

lemma varintSize_range: "1 \<le> varintSize v \<and> varintSize v \<le> 9"
  by (simp add: varintSize_def)

lemma varintSize_bound: "varintSize v = n \<Longrightarrow> n \<le> 8 \<Longrightarrow> v < 2 ^ (7 * n)"
  by (auto simp: varintSize_def word_le_nat_alt word_less_nat_alt split: if_splits)

lemma varintSize_least:
  assumes "v < 2 ^ (7 * n)" and "1 \<le> n" and "n \<le> 8"
  shows "varintSize v \<le> n"
proof -
  have "n = 1 \<or> n = 2 \<or> n = 3 \<or> n = 4 \<or> n = 5 \<or> n = 6 \<or> n = 7 \<or> n = 8"
    using assms(2,3) by linarith
  then show ?thesis
    using assms(1) by (elim disjE) (auto simp: varintSize_def word_le_nat_alt word_less_nat_alt)
qed

text \<open>The encoder, by the size of the value.\<close>

lemma AppendVarint_cases:
  obtains (one) "varintSize v = 1" "v \<le> 0x7F" "\<And>b. AppendVarint b v = b @ [ucast v]"
  | (mid) n where "varintSize v = n" "2 \<le> n" "n \<le> 8" "v < 2 ^ (7 * n)"
      "\<And>b. AppendVarint b v = b @ firstByte n v # drop (8 - (n - 1)) (putUint64 v)"
  | (nine) "varintSize v = 9" "\<And>b. AppendVarint b v = b @ 0xFF # putUint64 v"
proof (cases "varintSize v = 1 \<or> varintSize v = 9")
  case True
  then show ?thesis
  proof
    assume s: "varintSize v = 1"
    then have "v \<le> 0x7F" by (auto simp: varintSize_def split: if_splits)
    with s show ?thesis by (intro one) (simp_all add: AppendVarint_def)
  next
    assume s: "varintSize v = 9"
    then show ?thesis by (intro nine) (simp_all add: AppendVarint_def)
  qed
next
  case False
  with varintSize_range [of v] have n: "2 \<le> varintSize v" "varintSize v \<le> 8" by auto
  show ?thesis
  proof (rule mid [OF refl n varintSize_bound [OF refl n(2)]])
    fix b show "AppendVarint b v
        = b @ firstByte (varintSize v) v # drop (8 - (varintSize v - 1)) (putUint64 v)"
      using False by (simp add: AppendVarint_def firstByte_def Let_def)
  qed
qed

lemma AppendVarint_append: "AppendVarint b v = b @ AppendVarint [] v"
  by (cases v rule: AppendVarint_cases) simp_all

lemma length_AppendVarint: "length (AppendVarint [] v) = varintSize v"
  by (cases v rule: AppendVarint_cases) simp_all

lemma AppendVarint_not_Nil [simp]: "AppendVarint [] v \<noteq> []"
  using length_AppendVarint [of v] varintSize_range [of v] by auto

subsection \<open>Round trips\<close>

lemma ff_decode: "decodeVarintBytes 0xFF (putUint64 v) 8 = v"
  by (simp add: decodeVarintBytes_def)

lemma small_decode:
  assumes "v \<le> (0x7F :: u64)"
  shows "decodeVarintBytes (ucast v) rest 0 = v"
proof -
  have "v < 2 ^ 7" using assms by (simp add: word_le_nat_alt word_less_nat_alt)
  then have "v AND mask 7 = v" by (rule less_mask_eq)
  moreover have "(ucast ((ucast v :: byte) AND 0x7F) :: u64) = v AND mask 7"
    by (rule bit_word_eqI)
      (unfold bit_and_iff bit_7f bit_ucast_iff bit_mask_iff, auto dest: bit_imp_le_length)
  ultimately show ?thesis by (simp add: decodeVarintBytes_def)
qed

lemma leadingZeros8_ff: "leadingZeros8 (NOT 0xFF) = 8"
  by (simp add: leadingZeros8_def)

text \<open>The first byte of an encoding gives the number of bytes that follow, and they decode to it.\<close>

lemma AppendVarint_head:
  obtains f tl where "AppendVarint [] v = f # tl" "leadingZeros8 (NOT f) = length tl"
    "length tl \<le> 8" "decodeVarintBytes f tl (length tl) = v"
proof (cases v rule: AppendVarint_cases)
  case one
  then show ?thesis using small_decode leadingZeros8_small by (intro that [of "ucast v" "[]"]) auto
next
  case (mid n)
  then show ?thesis using leadingZeros8_firstByte [of n v] decode_firstByte [of n v]
    by (intro that [of "firstByte n v" "drop (8 - (n - 1)) (putUint64 v)"]) auto
next
  case nine
  then show ?thesis using ff_decode leadingZeros8_ff
    by (intro that [of "0xFF" "putUint64 v"]) auto
qed

lemma ParseVarint_AppendVarint:
  "ParseVarint (AppendVarint [] v @ rest) = Ok (v, varintSize v)"
  using length_AppendVarint [of v]
  by (cases v rule: AppendVarint_head) (simp add: ParseVarint_def Let_def)

lemma ReadVarint_AppendVarint [wire_simps]:
  "ReadVarint (mkr (AppendVarint [] v @ rest) e) = (Ok v, mkr rest e)"
proof (cases v rule: AppendVarint_head)
  case (1 f tl)
  have "readFull 1 (mkr (f # tl @ rest) e) = (Ok [f], mkr (tl @ rest) e)"
    using readFull_append [of "[f]" 1 "tl @ rest" e] by simp
  with 1 show ?thesis
    by (cases "tl = []")
      (simp_all add: ReadVarint_def wire_simps Let_def maxAlloc_def decodeVarintBytes_def [of _ "[]" 0])
qed

subsection \<open>What the decoder accepts\<close>

lemma foldl_bits:
  assumes "\<And>i. bit (acc :: u64) i \<Longrightarrow> i < k"
    and "bit (foldl (\<lambda>acc x. push_bit 8 acc OR ucast (x :: byte)) acc bs) i"
  shows "i < k + 8 * length bs"
  using assms
proof (induction bs arbitrary: acc k)
  case Nil
  then show ?case by simp
next
  case (Cons x bs)
  have "j < k + 8" if "bit (push_bit 8 acc OR ucast x :: u64) j" for j
    using that Cons.prems(1) [of "j - 8"] by (auto simp: bit_simps dest: bit_imp_le_length)
  then show ?case
    using Cons.IH [of "push_bit 8 acc OR ucast x" "k + 8"] Cons.prems(2) by simp
qed

lemma uint64BE_zeros:
  assumes "\<And>i. bit x i \<Longrightarrow> i < k" and "length bs + length zs < 8" and "set zs \<subseteq> {0}"
    and "bit (uint64BE (zs @ x # bs)) i"
  shows "i < k + 8 * length bs"
proof -
  have z: "foldl (\<lambda>acc x. push_bit 8 acc OR ucast (x :: byte)) (0 :: u64) zs = 0"
    using assms(3) by (induction zs) auto
  have "take 8 (zs @ x # bs) = zs @ x # bs" using assms(2) by simp
  then have "uint64BE (zs @ x # bs)
      = foldl (\<lambda>acc x. push_bit 8 acc OR ucast (x :: byte)) (ucast x) bs"
    by (simp only: uint64BE_def foldl_append z foldl.simps) simp
  with assms(4) have "bit (foldl (\<lambda>acc x. push_bit 8 acc OR ucast (x :: byte)) (ucast x :: u64) bs) i"
    by simp
  moreover have "j < k" if "bit (ucast x :: u64) j" for j
    using that assms(1) by (auto simp: bit_ucast_iff)
  ultimately show ?thesis using foldl_bits [of "ucast x" k bs i] by blast
qed

lemma replicate_update_last: "(replicate (Suc m) a)[m := x] = replicate m a @ [x]"
  by (induction m) simp_all

lemma decode_bits:
  assumes "n \<le> 7" and "length rest = n" and "bit (decodeVarintBytes f rest n) i"
  shows "i < 7 * (n + 1)"
proof -
  have m: "j < 7 - n" if "bit (f AND drop_bit (n + 1) (0xFF :: byte)) j" for j
  proof -
    from that have "bit (drop_bit (n + 1) (0xFF :: byte)) j" by (simp add: bit_and_iff)
    then have "n + 1 + j < 8" unfolding bit_drop_bit_eq comp_apply by (simp only: bit_ff)
    then show ?thesis by simp
  qed
  consider "n = 0" | "n = 7" | "1 \<le> n" "n \<le> 6" using assms(1) by linarith
  then show ?thesis
  proof cases
    case 1
    with assms(3) have "bit (f AND 0x7F) i" by (simp add: decodeVarintBytes_def bit_ucast_iff)
    with 1 show ?thesis by (simp only: bit_and_iff bit_7f) simp
  next
    case 2
    with assms(2,3) have "bit (uint64BE ([] @ 0 # rest)) i"
      by (simp add: decodeVarintBytes_def goCopy_def)
    from uint64BE_zeros [OF _ _ _ this, of 0] 2 assms(2) show ?thesis by simp
  next
    case 3
    let ?x = "f AND drop_bit (n + 1) (0xFF :: byte)"
    have len: "length ((replicate 8 (0 :: byte))[7 - n := ?x]) = 8" by simp
    have "Suc (7 - n) = 8 - n" using 3 by simp
    with replicate_update_last [of "7 - n" 0 ?x]
    have "take (8 - n) ((replicate 8 (0 :: byte))[7 - n := ?x]) = replicate (7 - n) 0 @ [?x]"
      by (simp only: take_update_swap take_replicate) simp
    with 3 assms(2) have "decodeVarintBytes f rest n = uint64BE (replicate (7 - n) 0 @ ?x # rest)"
      by (simp add: decodeVarintBytes_def goCopy_def)
    with assms(3) have "bit (uint64BE (replicate (7 - n) 0 @ ?x # rest)) i" by simp
    from uint64BE_zeros [OF m _ _ this] 3 assms(2) have "i < 7 - n + 8 * n" by simp
    with 3 show ?thesis by simp
  qed
qed

lemma less_pow_bits:
  assumes "\<And>i. bit (w :: u64) i \<Longrightarrow> i < n" and "n < 64"
  shows "w < 2 ^ n"
proof -
  have "w AND mask n = w"
    by (rule bit_word_eqI) (use assms(1) in \<open>auto simp: bit_and_iff bit_mask_iff\<close>)
  then show ?thesis using and_mask_less' [of n w] assms(2) by simp
qed

lemma decode_size:
  assumes "n \<le> 8" and "length rest = n"
  shows "varintSize (decodeVarintBytes f rest n) \<le> n + 1"
proof (cases "n = 8")
  case True
  then show ?thesis using varintSize_range [of "decodeVarintBytes f rest n"] by simp
next
  case False
  with assms have "decodeVarintBytes f rest n < 2 ^ (7 * (n + 1))"
    by (intro less_pow_bits decode_bits) auto
  with False assms(1) show ?thesis by (intro varintSize_least) auto
qed

text \<open>The reader on a canonical stream does what the parser does on the slice.\<close>

lemma ReadVarint_Nil [wire_simps]: "ReadVarint (mkr [] e) = (Err e, mkr [] e)"
  by (simp add: ReadVarint_def wire_simps shortErr_def)

lemma ReadVarint_Cons [wire_simps]:
  "ReadVarint (mkr (f # bs) e) =
     (let extra = leadingZeros8 (NOT f) in
      if extra \<le> length bs
      then (Ok (decodeVarintBytes f (take extra bs) extra), mkr (drop extra bs) e)
      else (Err (shortErr bs e), mkr [] e))"
proof -
  have "readFull 1 (mkr (f # bs) e) = (Ok [f], mkr bs e)"
    using readFull_append [of "[f]" 1 bs e] by simp
  moreover have "readNew n (mkr bs e) = readFull n (mkr bs e)" if "n \<le> 8" for n
    using that by (simp add: readNew_def maxAlloc_def)
  moreover have "leadingZeros8 (NOT f) \<le> 8" by (rule leadingZeros8_le)
  moreover have "decodeVarintBytes f (take 0 bs) 0 = ucast (f AND 0x7F)"
    by (simp add: decodeVarintBytes_def)
  ultimately show ?thesis
    by (cases "leadingZeros8 (NOT f) = 0"; cases "leadingZeros8 (NOT f) \<le> length bs")
      (simp_all add: ReadVarint_def rbind_def Let_def rret_def readFull_mkr)
qed

lemma ParseVarint_Cons:
  "ParseVarint (f # bs) =
     (let extra = leadingZeros8 (NOT f) in
      if extra \<le> length bs then Ok (decodeVarintBytes f (take extra bs) extra, 1 + extra)
      else Err ErrUnexpectedEOF)"
  using leadingZeros8_le [of "NOT f"] by (simp add: ParseVarint_def Let_def)

lemma ParseVarint_size:
  assumes "ParseVarint b = Ok (v, n)"
  shows "varintSize v \<le> n" and "n \<le> length b" and "n \<le> 9" and "1 \<le> n"
proof -
  obtain f bs where b: "b = f # bs" using assms by (cases b) (auto simp: ParseVarint_def)
  let ?x = "leadingZeros8 (NOT f)"
  have x: "?x \<le> 8" by (rule leadingZeros8_le)
  from assms b have p: "?x \<le> length bs" "n = 1 + ?x" "v = decodeVarintBytes f (take ?x bs) ?x"
    by (auto simp: ParseVarint_Cons Let_def split: if_splits)
  have "varintSize (decodeVarintBytes f (take ?x bs) ?x) \<le> ?x + 1"
    using x p(1) by (intro decode_size) auto
  with p show "varintSize v \<le> n" by simp
  show "n \<le> length b" "n \<le> 9" "1 \<le> n" using p(1,2) b x by auto
qed

lemma insens_ReadVarint [insens_intros]: "insens ReadVarint"
  unfolding ReadVarint_def Let_def by (intro insens_intros)

lemma advances_ReadVarint [consume_intros]: "advances 1 ReadVarint"
proof -
  have "advances (1 + 0) ReadVarint"
    unfolding ReadVarint_def Let_def
    by (intro advances_rbind advances_readFull advances_if advances_rret advances_rbind0)
      (auto intro: advances_weaken [OF advances_readNew] advances_rret)
  then show ?thesis by simp
qed

lemma advances0_ReadVarint [consume_intros]: "advances 0 ReadVarint"
  by (rule advances_weaken [OF advances_ReadVarint]) simp

lemma nopanic_ReadVarint [safe_intros]: "nopanic ReadVarint"
proof -
  have "nopanic (readNew (if 8 < n then 8 else n))" for n
    by (rule nopanic_readNew) (simp add: maxAlloc_def)
  then show ?thesis unfolding ReadVarint_def Let_def by (intro safe_intros)
qed

interpretation varint: wire_message "AppendVarint []" ReadVarint "\<lambda>_. True"
  by unfold_locales (simp_all add: ReadVarint_AppendVarint insens_ReadVarint)

subsection \<open>Properties\<close>

text \<open>C6: Round trip of the varint codec.  Whatever the value, its encoding takes between one and
  nine bytes and both decoders recover the value in front of any further bytes: \<^verbatim>\<open>ParseVarint\<close>
  with the number of bytes it used, \<^verbatim>\<open>ReadVarint\<close> from a stream however it is cut into chunks,
  leaving exactly the bytes that follow.\<close>

theorem varint_roundtrip:
  "ParseVarint (AppendVarint [] v @ rest) = Ok (v, length (AppendVarint [] v))
   \<and> length (AppendVarint [] v) \<in> {1..9}
   \<and> (flat r = AppendVarint [] v @ rest \<longrightarrow>
       (\<exists>r'. ReadVarint r = (Ok v, r') \<and> flat r' = rest \<and> fin r' = fin r))"
  using ParseVarint_AppendVarint [of v rest] varintSize_range [of v] varint.dec_chunked [of r v rest]
  by (simp add: length_AppendVarint)

text \<open>Instance: the SETUP stream type \<^verbatim>\<open>0x2F00\<close>, read from a stream cut between its two bytes.\<close>

theorem varint_roundtrip_witness:
  "ParseVarint [0xAF, 0x00, 0x07] = Ok (0x2F00, 2)
   \<and> (\<exists>r'. ReadVarint \<lparr>chunks = [[0xAF], [0x00, 0x07]], fin = ErrEOF\<rparr> = (Ok 0x2F00, r')
        \<and> flat r' = [0x07] \<and> fin r' = ErrEOF)"
proof -
  have e: "AppendVarint [] 0x2F00 = [0xAF, 0x00]" by code_simp
  show ?thesis
    using varint_roundtrip [of "0x2F00" "[0x07]" "\<lparr>chunks = [[0xAF], [0x00, 0x07]], fin = ErrEOF\<rparr>"]
    by (simp add: e flat_def)
qed

text \<open>C27: Encodings are minimal and self-delimiting.  \<^verbatim>\<open>ParseVarint\<close> accepts encodings of any length
  (the draft allows non-minimal ones); re-encoding what it returns never takes more bytes than it
  consumed, and it never consumes more bytes than there are or more than nine.\<close>

theorem varint_minimal:
  assumes "ParseVarint b = Ok (v, n)"
  shows "length (AppendVarint [] v) \<le> n \<and> n \<le> length b \<and> 1 \<le> n \<and> n \<le> 9
    \<and> ParseVarint (take n b @ rest) = Ok (v, n)"
proof -
  obtain f tl where b: "b = f # tl" using assms by (cases b) (auto simp: ParseVarint_def)
  with assms have "ParseVarint (take n b @ rest) = Ok (v, n)"
    by (auto simp: ParseVarint_Cons Let_def split: if_splits)
  with ParseVarint_size [OF assms] show ?thesis by (simp add: length_AppendVarint)
qed

theorem varint_minimal_witness:
  "ParseVarint [0x80, 0x25] = Ok (37, 2) \<and> length (AppendVarint [] 37) \<le> 2
   \<and> ParseVarint [0x80, 0x25, 0x01] = Ok (37, 2)"
proof -
  have p: "ParseVarint [0x80, 0x25] = Ok (37, 2)" by code_simp
  show ?thesis using varint_minimal [OF p, of "[0x01]"] p by simp
qed

text \<open>No two sequences of varints have the same encoding: the code is prefix-free.\<close>

theorem varint_prefix_free:
  "concat (map (AppendVarint []) xs) = concat (map (AppendVarint []) ys) \<longleftrightarrow> xs = ys"
  using varint.stream_unique [of xs ys] by auto

text \<open>C40: The two decoders agree.  On the same bytes \<^verbatim>\<open>ReadVarint\<close> returns the value \<^verbatim>\<open>ParseVarint\<close>
  returns and leaves the bytes after it, and it fails exactly when \<^verbatim>\<open>ParseVarint\<close> fails.  They
  differ in the error: \<^verbatim>\<open>ParseVarint\<close> always reports \<^verbatim>\<open>io.ErrUnexpectedEOF\<close>, \<^verbatim>\<open>ReadVarint\<close> reports
  the bare \<^verbatim>\<open>io.EOF\<close> also for a varint cut off right after its first byte.\<close>

theorem ReadVarint_agrees_with_ParseVarint:
  "ReadVarint (mkr b ErrEOF) =
     (case ParseVarint b of
        Ok (v, n) \<Rightarrow> (Ok v, mkr (drop n b) ErrEOF)
      | Err e \<Rightarrow> (Err (if length b \<le> 1 then ErrEOF else ErrUnexpectedEOF), mkr [] ErrEOF)
      | Panic \<Rightarrow> (Panic, mkr [] ErrEOF))"
  by (cases b) (auto simp: ReadVarint_Nil ReadVarint_Cons ParseVarint_Cons Let_def shortErr_def
      ParseVarint_def [of "[]"])

end
