(* ===== verification/WireTypes.thy ===== *)
theory WireTypes
  imports Prelude
begin

text \<open>
  \<^verbatim>\<open>internal/moqt/draft18/types.go\<close>: the message and stream type codes, the setup options, and the
  message structs as records.
\<close>

subsection \<open>Codes\<close>

definition StreamTypeFetchHeader :: u64 where "StreamTypeFetchHeader = 0x05"
definition StreamTypeSetup :: u64 where "StreamTypeSetup = 0x2F00"

definition MsgSetup :: u64 where "MsgSetup = 0x2F00"
definition MsgGoAway :: u64 where "MsgGoAway = 0x10"
definition MsgSubscribe :: u64 where "MsgSubscribe = 0x03"
definition MsgSubscribeOK :: u64 where "MsgSubscribeOK = 0x04"
definition MsgRequestError :: u64 where "MsgRequestError = 0x05"

definition SetupOptionPath :: u64 where "SetupOptionPath = 0x01"
definition SetupOptionAuthority :: u64 where "SetupOptionAuthority = 0x05"
definition SetupOptionImplementation :: u64 where "SetupOptionImplementation = 0x07"

definition ObjectStatusNormal :: u64 where "ObjectStatusNormal = 0x00"

lemmas msg_codes = MsgSetup_def MsgGoAway_def MsgSubscribe_def MsgSubscribeOK_def
  MsgRequestError_def
lemmas setup_codes = SetupOptionPath_def SetupOptionAuthority_def SetupOptionImplementation_def

subsection \<open>Messages\<close>

record SetupOption =
  optType :: u64
  optRaw :: bytes

record SetupMessage =
  Options :: "SetupOption list"

record SubscribeMessage =
  RequestID :: u64
  TrackNamespace :: "bytes list"
  TrackName :: bytes
  ParametersRaw :: bytes

record SubscribeOKMessage =
  okTrackAlias :: u64
  okNumParams :: u64
  okTrackProperties :: bytes

record RequestErrorMessage =
  errCode :: u64
  errRetryInterval :: u64
  errReason :: string
  errRedirect :: bytes

record SubgroupHeader =
  hdrType :: u64
  hdrTrackAlias :: u64
  hdrGroupID :: u64
  hdrSubgroupID :: u64
  hdrHasSubgroupID :: bool
  hdrHasExtensions :: bool
  hdrUsesFirstObjectID :: bool
  hdrEndOfGroup :: bool
  hdrPublisherPriority :: byte

record SubgroupObject =
  ObjectID :: u64
  ObjectIDDelta :: u64
  ObjectStatus :: u64
  PropertiesRaw :: bytes
  Payload :: bytes
  PayloadLen :: u64
  IsStatusObject :: bool

end
