(* ===== verification/Codec.thy ===== *)
theory Codec
  imports Varint WireTypes
begin

text \<open>
  \<^verbatim>\<open>internal/moqt/draft18/codec.go\<close>: control message frames, key-value pairs, SETUP, SUBSCRIBE,
  SUBSCRIBE_OK, REQUEST_ERROR and track namespaces.

  A writer is a parameter: \<open>wr b w\<close> is \<^verbatim>\<open>w.Write(b)\<close> of the QUIC library's send stream (or of a
  \<^verbatim>\<open>bytes.Buffer\<close>), returning the error and the writer afterwards.  \<^verbatim>\<open>bytes.NewReader(payload)\<close> is
  \<open>mkr payload ErrEOF\<close>, \<^verbatim>\<open>r.Len()\<close> the length of what is left.
\<close>

subsection \<open>Frames\<close>

definition maxFrameLen :: nat where
  "maxFrameLen = 2 ^ 16 - 1"

text \<open>\<^verbatim>\<open>binary.BigEndian.AppendUint16\<close> and \<^verbatim>\<open>binary.BigEndian.Uint16\<close>.\<close>

definition appendUint16 :: "bytes \<Rightarrow> u16 \<Rightarrow> bytes" where
  "appendUint16 b v = b @ [ucast (drop_bit 8 v), ucast v]"

definition uint16BE :: "bytes \<Rightarrow> u16" where
  "uint16BE b = push_bit 8 (ucast (b ! 0)) OR ucast (b ! 1)"

definition WriteFrame ::
    "(bytes \<Rightarrow> 'w \<Rightarrow> gerr option \<times> 'w) \<Rightarrow> 'w \<Rightarrow> u64 \<Rightarrow> bytes \<Rightarrow> gerr option \<times> 'w" where
  "WriteFrame wr w msgType payload =
     (if maxFrameLen < length payload
      then (Some (Errorf ''payload too large: %d'' [FInt (int (length payload))]), w)
      else
        let buf = AppendVarint [] msgType;
            buf = appendUint16 buf (word_of_nat (length payload));
            buf = buf @ payload
        in wr buf w)"

definition ReadFrameBody :: "reader \<Rightarrow> bytes outcome \<times> reader" where
  "ReadFrameBody = rbind (readFull 2) (\<lambda>lenBuf. readNew (unat (uint16BE lenBuf)))"

definition ReadFrame :: "reader \<Rightarrow> (u64 \<times> bytes) outcome \<times> reader" where
  "ReadFrame =
     rbind ReadVarint (\<lambda>msgType. rbind ReadFrameBody (\<lambda>payload. rret (msgType, payload)))"

subsection \<open>Key-value pairs\<close>

record kvPair =
  kvType :: u64
  kvRaw :: bytes

text \<open>The body of the loop of \<^verbatim>\<open>encodeKeyValuePairs\<close>; \<open>i\<close> is the loop index.\<close>

fun encodeKVLoop :: "nat \<Rightarrow> u64 \<Rightarrow> bytes \<Rightarrow> SetupOption list \<Rightarrow> bytes outcome" where
  "encodeKVLoop i prev out [] = Ok out"
| "encodeKVLoop i prev out (opt # rest) =
     (if i = 0 \<and> optType opt < prev then Err (Errorf ''option type ordering invalid'' [])
      else if i \<noteq> 0 \<and> optType opt \<le> prev
      then Err (Errorf ''option types must be strictly increasing'' [])
      else
        let delta = optType opt - prev;
            out = AppendVarint out delta
        in if optType opt mod 2 = 1 then
             let out = AppendVarint out (word_of_nat (length (optRaw opt)))
             in encodeKVLoop (Suc i) (optType opt) (out @ optRaw opt) rest
           else if optRaw opt = [] then
             encodeKVLoop (Suc i) (optType opt) (AppendVarint out 0) rest
           else
             (case ParseVarint (optRaw opt) of
                Ok (val, n) \<Rightarrow>
                  if n = 0 \<or> n \<noteq> length (optRaw opt)
                  then Err (Errorf ''even option %d must be a varint'' [FU64 (optType opt)])
                  else encodeKVLoop (Suc i) (optType opt) (AppendVarint out val) rest
              | Err e \<Rightarrow> Err (Errorf ''even option %d must be a varint'' [FU64 (optType opt)])
              | Panic \<Rightarrow> Panic))"

definition encodeKeyValuePairs :: "SetupOption list \<Rightarrow> bytes outcome" where
  "encodeKeyValuePairs options = encodeKVLoop 0 0 [] options"

text \<open>
  One iteration of the loop of \<^verbatim>\<open>decodeKeyValuePairs\<close>: the pair it appends.  \<open>l\<close> is at most
  \<^verbatim>\<open>r.Len()\<close>, the length of a slice in memory, so \<^verbatim>\<open>make([]byte, l)\<close> cannot panic.
\<close>

definition decodeKVPair :: "u64 \<Rightarrow> reader \<Rightarrow> kvPair outcome \<times> reader" where
  "decodeKVPair prevType =
     rbind (rwrap ''delta type: %w'' [] ReadVarint) (\<lambda>delta.
       if NOT 0 - prevType < delta then rerr (Errorf ''delta overflows type'' [])
       else
         let t = prevType + delta in
         if t mod 2 = 1 then
           rbind (rwrap ''length for type %d: %w'' [FU64 t] ReadVarint) (\<lambda>l r.
             if length (flat r) < unat l
             then rerr (Errorf ''length exceeds payload for type %d'' [FU64 t]) r
             else rbind (rwrap ''value for type %d: %w'' [FU64 t] (readFull (unat l)))
                    (\<lambda>raw. rret \<lparr>kvType = t, kvRaw = raw\<rparr>) r)
         else
           rbind (rwrap ''varint value for type %d: %w'' [FU64 t] ReadVarint) (\<lambda>val.
             rret \<lparr>kvType = t, kvRaw = AppendVarint [] val\<rparr>))"

lemma insens_decodeKVPair [insens_intros]: "insens (decodeKVPair prev)"
proof -
  have "insens (\<lambda>r. if length (flat r) < unat l
      then rerr (Errorf ''length exceeds payload for type %d'' [FU64 t]) r
      else rbind (rwrap ''value for type %d: %w'' [FU64 t] (readFull (unat l)))
             (\<lambda>raw. rret \<lparr>kvType = t, kvRaw = raw\<rparr>) r)" (is "insens ?p") for l t
  proof -
    have q: "insens (rbind (rwrap ''value for type %d: %w'' [FU64 t] (readFull (unat l)))
        (\<lambda>raw. rret \<lparr>kvType = t, kvRaw = raw\<rparr>))"
      by (intro insens_intros)
    show ?thesis
    proof (rule insensI)
      fix r s assume rs: "same_stream r s"
      then have "flat r = flat s" by (simp add: same_stream_def)
      with rs insensD [OF q rs] show "fst (?p r) = fst (?p s) \<and> same_stream (snd (?p r)) (snd (?p s))"
        by (simp add: rerr_def)
    qed
  qed
  then show ?thesis unfolding decodeKVPair_def Let_def by (intro insens_intros)
qed

lemma advances_decodeKVPair [consume_intros]: "advances 1 (decodeKVPair prev)"
proof -
  have "advances 0 (\<lambda>r. if length (flat r) < unat l
      then rerr (Errorf ''length exceeds payload for type %d'' [FU64 t]) r
      else rbind (rwrap ''value for type %d: %w'' [FU64 t] (readFull (unat l)))
             (\<lambda>raw. rret \<lparr>kvType = t, kvRaw = raw\<rparr>) r)" (is "advances 0 ?p") for l t
  proof -
    have q: "advances 0 (rbind (rwrap ''value for type %d: %w'' [FU64 t] (readFull (unat l)))
        (\<lambda>raw. rret \<lparr>kvType = t, kvRaw = raw\<rparr>))"
      by (intro consume_intros advances_weaken [OF advances_readFull]) simp
    show ?thesis
      by (rule advancesI) (use advancesD [OF q] in \<open>auto simp: rerr_def split: if_splits\<close>)
  qed
  then show ?thesis
    unfolding decodeKVPair_def Let_def
    by (intro advances_rbind_left consume_intros advances_if)
qed

lemma decodeKVPair_shrinks:
  "decodeKVPair prev r = (Ok p, r') \<Longrightarrow> length (flat r') < length (flat r)"
  using advancesD(3) [OF advances_decodeKVPair] by fastforce

text \<open>\<^verbatim>\<open>for r.Len() > 0 { ... }\<close>\<close>

function decodeKVLoop :: "u64 \<Rightarrow> kvPair list \<Rightarrow> reader \<Rightarrow> kvPair list outcome" where
  "decodeKVLoop prevType out r =
     (if flat r = [] then Ok out
      else (case decodeKVPair prevType r of
          (Ok p, r') \<Rightarrow> decodeKVLoop (kvType p) (out @ [p]) r'
        | (Err e, r') \<Rightarrow> Err e
        | (Panic, r') \<Rightarrow> Panic))"
  by pat_completeness auto
termination
  by (relation "measure (\<lambda>(prevType, out, r). length (flat r))")
    (auto dest!: decodeKVPair_shrinks [OF sym])

declare decodeKVLoop.simps [simp del]

definition decodeKeyValuePairs :: "bytes \<Rightarrow> kvPair list outcome" where
  "decodeKeyValuePairs payload = decodeKVLoop 0 [] (mkr payload ErrEOF)"

definition countKeyValuePairs :: "bytes \<Rightarrow> u64 outcome" where
  "countKeyValuePairs payload =
     obind (decodeKeyValuePairs payload) (\<lambda>pairs. Ok (word_of_nat (length pairs)))"

subsection \<open>SETUP\<close>

definition EncodeSetup :: "SetupMessage \<Rightarrow> bytes outcome" where
  "EncodeSetup msg = encodeKeyValuePairs (Options msg)"

definition DecodeSetup :: "bytes \<Rightarrow> SetupMessage outcome" where
  "DecodeSetup payload =
     obind (decodeKeyValuePairs payload) (\<lambda>pairs.
       Ok \<lparr>Options = map (\<lambda>p. \<lparr>optType = kvType p, optRaw = kvRaw p\<rparr>) pairs\<rparr>)"

subsection \<open>Track namespaces\<close>

fun EncodeTrackNamespaceFromStrings :: "string list \<Rightarrow> bytes list outcome" where
  "EncodeTrackNamespaceFromStrings [] = Ok []"
| "EncodeTrackNamespaceFromStrings (f # fs) =
     (if f = [] then Err (Errorf ''track namespace field cannot be empty'' [])
      else obind (EncodeTrackNamespaceFromStrings fs) (\<lambda>ns. Ok (bytes_of f # ns)))"

fun encodeNamespaceLoop :: "bytes \<Rightarrow> nat \<Rightarrow> bytes list \<Rightarrow> (bytes \<times> nat) outcome" where
  "encodeNamespaceLoop b fullLen [] = Ok (b, fullLen)"
| "encodeNamespaceLoop b fullLen (f # fs) =
     (if f = [] then Err (Errorf ''namespace field must not be empty'' [])
      else encodeNamespaceLoop (AppendVarint b (word_of_nat (length f)) @ f)
             (fullLen + length f) fs)"

definition encodeTrackNamespace :: "bytes list \<Rightarrow> bytes outcome" where
  "encodeTrackNamespace fs =
     (if 32 < length fs
      then Err (Errorf ''too many namespace fields: %d'' [FInt (int (length fs))])
      else obind (encodeNamespaceLoop (AppendVarint [] (word_of_nat (length fs))) 0 fs)
        (\<lambda>(b, fullLen).
          if 4096 < fullLen
          then Err (Errorf ''namespace length too large: %d'' [FInt (int fullLen)])
          else Ok b))"

subsection \<open>SUBSCRIBE and its responses\<close>

definition EncodeSubscribe :: "SubscribeMessage \<Rightarrow> bytes outcome" where
  "EncodeSubscribe msg =
     (let payload = AppendVarint [] (RequestID msg) in
      obind (encodeTrackNamespace (TrackNamespace msg)) (\<lambda>ns.
        let payload = payload @ ns;
            payload = AppendVarint payload (word_of_nat (length (TrackName msg)));
            payload = payload @ TrackName msg
        in if ParametersRaw msg = [] then Ok (AppendVarint payload 0)
           else obind (owrap ''invalid parameters payload: %w'' []
                        (countKeyValuePairs (ParametersRaw msg)))
                  (\<lambda>num. Ok (AppendVarint payload num @ ParametersRaw msg))))"

definition DecodeSubscribeOK :: "bytes \<Rightarrow> SubscribeOKMessage outcome" where
  "DecodeSubscribeOK payload =
     fst (rbind (rwrap ''track alias: %w'' [] ReadVarint) (\<lambda>alias.
          rbind (rwrap ''number of parameters: %w'' [] ReadVarint) (\<lambda>numParams.
          rbind readAll (\<lambda>rest.
            rret \<lparr>okTrackAlias = alias, okNumParams = numParams, okTrackProperties = rest\<rparr>)))
        (mkr payload ErrEOF))"

definition DecodeRequestError :: "bytes \<Rightarrow> RequestErrorMessage outcome" where
  "DecodeRequestError payload =
     fst (rbind (rwrap ''error code: %w'' [] ReadVarint) (\<lambda>code.
          rbind (rwrap ''retry interval: %w'' [] ReadVarint) (\<lambda>retry.
          rbind (rwrap ''reason length: %w'' [] ReadVarint) (\<lambda>reasonLen.
            if 1024 < reasonLen
            then rerr (Errorf ''reason phrase too long: %d'' [FU64 reasonLen])
            else
              rbind (rwrap ''reason bytes: %w'' [] (readNew (unat reasonLen))) (\<lambda>reason.
              rbind readAll (\<lambda>rest.
                rret \<lparr>errCode = code, errRetryInterval = retry,
                      errReason = string_of reason, errRedirect = rest\<rparr>)))))
        (mkr payload ErrEOF))"

subsection \<open>Frames: lemmas\<close>

text \<open>The bytes of one frame.\<close>

definition frameBytes :: "u64 \<Rightarrow> bytes \<Rightarrow> bytes" where
  "frameBytes t p = AppendVarint [] t @ appendUint16 [] (word_of_nat (length p)) @ p"

lemma appendUint16_append: "appendUint16 b v = b @ appendUint16 [] v"
  by (simp add: appendUint16_def)

lemma length_appendUint16 [simp]: "length (appendUint16 [] v) = 2"
  by (simp add: appendUint16_def)

lemma uint16BE_appendUint16 [simp]: "uint16BE (appendUint16 [] v) = v"
proof (rule bit_word_eqI)
  fix i assume "i < LENGTH(16)"
  then show "bit (uint16BE (appendUint16 [] v)) i = bit v i"
    by (cases "i < 8") (auto simp: uint16BE_def appendUint16_def bit_simps)
qed

lemma unat_len16: "n \<le> maxFrameLen \<Longrightarrow> unat (word_of_nat n :: u16) = n"
  by (simp add: maxFrameLen_def unat_of_nat)

lemma unat_u16_frame: "unat (v :: u16) \<le> maxFrameLen"
  using unsigned_less [of v, where ?'a = nat] by (simp add: maxFrameLen_def)

lemma maxFrameLen_le_maxAlloc: "maxFrameLen \<le> maxAlloc"
  by (simp add: maxFrameLen_def maxAlloc_def)

lemma readNew_u16: "readNew (unat (v :: u16)) = readFull (unat v)"
proof -
  have "\<not> maxAlloc < unat v" using unat_u16_frame [of v] maxFrameLen_le_maxAlloc by simp
  then show ?thesis by (simp add: readNew_def fun_eq_iff)
qed

lemma WriteFrame_ok: "length p \<le> maxFrameLen \<Longrightarrow> WriteFrame wr w t p = wr (frameBytes t p) w"
  by (simp add: WriteFrame_def frameBytes_def Let_def appendUint16_append [of "AppendVarint [] t"])

lemma frameBytes_not_Nil [simp]: "frameBytes t p \<noteq> []"
  by (simp add: frameBytes_def)

lemma length_frameBytes: "length (frameBytes t p) = varintSize t + 2 + length p"
  by (simp add: frameBytes_def length_AppendVarint)

lemma ReadFrameBody_append [wire_simps]:
  assumes "length p \<le> maxFrameLen"
  shows "ReadFrameBody (mkr (appendUint16 [] (word_of_nat (length p)) @ p @ rest) e)
    = (Ok p, mkr rest e)"
proof -
  have "readNew (length p) (mkr (p @ rest) e) = (Ok p, mkr rest e)"
    using assms maxFrameLen_le_maxAlloc by (intro readNew_append) auto
  then show ?thesis using assms
    by (simp add: ReadFrameBody_def wire_simps unat_len16)
qed

lemma ReadFrame_frameBytes [wire_simps]:
  "length p \<le> maxFrameLen \<Longrightarrow> ReadFrame (mkr (frameBytes t p @ rest) e) = (Ok (t, p), mkr rest e)"
  by (simp add: ReadFrame_def frameBytes_def wire_simps)

lemma insens_ReadFrameBody [insens_intros]: "insens ReadFrameBody"
  unfolding ReadFrameBody_def by (intro insens_intros)

lemma insens_ReadFrame [insens_intros]: "insens ReadFrame"
  unfolding ReadFrame_def by (intro insens_intros)

lemma advances_ReadFrameBody [consume_intros]: "advances 0 ReadFrameBody"
  unfolding ReadFrameBody_def
  by (intro consume_intros advances_weaken [OF advances_readFull] advances_weaken [OF advances_readNew]) simp_all

lemma advances_ReadFrame: "advances 1 ReadFrame"
  unfolding ReadFrame_def by (intro advances_rbind_left consume_intros)

lemma nopanic_ReadFrameBody [safe_intros]: "nopanic ReadFrameBody"
  unfolding ReadFrameBody_def readNew_u16 by (intro safe_intros)

lemma nopanic_ReadFrame [safe_intros]: "nopanic ReadFrame"
  unfolding ReadFrame_def by (intro safe_intros)

lemma returns_ReadFrame: "returns (\<lambda>(t, p). length p \<le> maxFrameLen) ReadFrame"
proof -
  have "returns (\<lambda>p. length p \<le> maxFrameLen) (readNew (unat (v :: u16)))" for v
    using returns_readNew [of "unat v"] unat_u16_frame [of v] by (auto simp: returns_def)
  then have "returns (\<lambda>p. length p \<le> maxFrameLen) ReadFrameBody"
    unfolding ReadFrameBody_def by (rule returns_rbind [where Q = "\<lambda>_. True", rotated]) (simp add: returns_def)
  then show ?thesis
    unfolding ReadFrame_def
    by (intro returns_rbind [where Q = "\<lambda>_. True"] returns_rbind [where m = ReadFrameBody])
      (auto simp: returns_def rret_def)
qed

interpretation frame: wire_message "\<lambda>(t, p). frameBytes t p" ReadFrame
  "\<lambda>(t, p). length p \<le> maxFrameLen"
  by unfold_locales (auto simp: ReadFrame_frameBytes insens_ReadFrame)

interpretation frames: message_source ReadFrame
  by unfold_locales (rule insens_ReadFrame, rule advances_ReadFrame)

subsection \<open>Key-value pairs: lemmas\<close>

text \<open>
  What the encoder makes of an option's value: an odd type carries it as it is, an even type as a
  varint in its shortest form, with \<open>0\<close> for an empty one; \<open>None\<close> where the encoder refuses it.
\<close>

definition canonRaw :: "SetupOption \<Rightarrow> bytes option" where
  "canonRaw opt =
     (if optType opt mod 2 = 1 then Some (optRaw opt)
      else if optRaw opt = [] then Some (AppendVarint [] 0)
      else (case ParseVarint (optRaw opt) of
          Ok (v, n) \<Rightarrow> if n = length (optRaw opt) then Some (AppendVarint [] v) else None
        | _ \<Rightarrow> None))"

definition canonPair :: "SetupOption \<Rightarrow> kvPair" where
  "canonPair opt = \<lparr>kvType = optType opt, kvRaw = the (canonRaw opt)\<rparr>"

text \<open>The wire form of a list of pairs after a pair of type \<open>prev\<close>.\<close>

definition kvBytes :: "u64 \<Rightarrow> kvPair \<Rightarrow> bytes" where
  "kvBytes prev p = AppendVarint [] (kvType p - prev)
     @ (if kvType p mod 2 = 1 then AppendVarint [] (word_of_nat (length (kvRaw p))) @ kvRaw p
        else kvRaw p)"

fun kvWire :: "u64 \<Rightarrow> kvPair list \<Rightarrow> bytes" where
  "kvWire prev [] = []"
| "kvWire prev (p # ps) = kvBytes prev p @ kvWire (kvType p) ps"

text \<open>The pairs the decoder can return: an even type holds a shortest varint.\<close>

definition wfPair :: "kvPair \<Rightarrow> bool" where
  "wfPair p \<longleftrightarrow> (if kvType p mod 2 = 1 then length (kvRaw p) < 2 ^ 64
     else kvRaw p \<in> range (AppendVarint []))"

fun ascending :: "nat \<Rightarrow> u64 \<Rightarrow> u64 list \<Rightarrow> bool" where
  "ascending i prev [] = True"
| "ascending i prev (t # ts) = ((i = 0 \<or> prev < t) \<and> ascending (Suc i) t ts)"

lemma ascending_Suc: "ascending (Suc i) prev ts \<longleftrightarrow> sorted_wrt (<) (prev # ts)"
proof (induction ts arbitrary: i prev)
  case (Cons t ts)
  then show ?case by (auto intro: less_trans)
qed simp

lemma ascending_0: "ascending 0 prev ts \<longleftrightarrow> sorted_wrt (<) ts"
  by (cases ts) (simp_all add: ascending_Suc)

lemma encodeKVLoop_step:
  assumes "i = 0 \<longrightarrow> prev \<le> optType opt" and "i \<noteq> 0 \<longrightarrow> prev < optType opt" and "canonRaw opt = Some raw"
  shows "encodeKVLoop i prev out (opt # opts) =
    encodeKVLoop (Suc i) (optType opt) (out @ kvBytes prev (canonPair opt)) opts"
proof -
  have order: "\<not> (i = 0 \<and> optType opt < prev)" "\<not> (i \<noteq> 0 \<and> optType opt \<le> prev)"
    using assms(1,2) by auto
  have pos: "n \<noteq> 0" if "ParseVarint b = Ok (v, n)" for b v n
    using ParseVarint_size(4) [OF that] by simp
  note av = AppendVarint_append [of "out @ _"] AppendVarint_append [of out]
  from assms(3) order show ?thesis
    by (auto simp: canonRaw_def canonPair_def kvBytes_def Let_def av dest: pos
        split: outcome.splits if_splits)
qed

lemma encodeKVLoop_bad:
  assumes "(i = 0 \<and> optType opt < prev) \<or> (i \<noteq> 0 \<and> optType opt \<le> prev) \<or> canonRaw opt = None"
  shows "encodeKVLoop i prev out (opt # opts) \<noteq> Ok bs"
  using assms by (auto simp: canonRaw_def Let_def split: outcome.splits if_splits)

lemma encodeKVLoop_Ok:
  assumes "i = 0 \<longrightarrow> prev = 0"
  shows "encodeKVLoop i prev out opts = Ok bs \<longleftrightarrow>
     ascending i prev (map optType opts) \<and> (\<forall>opt\<in>set opts. canonRaw opt \<noteq> None)
     \<and> bs = out @ kvWire prev (map canonPair opts)"
  using assms
proof (induction opts arbitrary: i prev out)
  case Nil
  then show ?case by auto
next
  case (Cons opt opts)
  show ?case
  proof (cases "(i \<noteq> 0 \<longrightarrow> prev < optType opt) \<and> canonRaw opt \<noteq> None")
    case True
    then obtain raw where "i \<noteq> 0 \<longrightarrow> prev < optType opt" "canonRaw opt = Some raw" by auto
    moreover have "i = 0 \<longrightarrow> prev \<le> optType opt" using Cons.prems by simp
    ultimately show ?thesis
      using Cons.IH [of "Suc i" "optType opt" "out @ kvBytes prev (canonPair opt)"]
      by (simp only: encodeKVLoop_step) (auto simp: canonPair_def)
  next
    case False
    with encodeKVLoop_bad [of i opt prev out opts bs] show ?thesis by (auto simp: not_less)
  qed
qed

lemma encodeKeyValuePairs_Ok:
  "encodeKeyValuePairs opts = Ok bs \<longleftrightarrow>
     sorted_wrt (<) (map optType opts) \<and> (\<forall>opt\<in>set opts. canonRaw opt \<noteq> None)
     \<and> bs = kvWire 0 (map canonPair opts)"
  by (simp add: encodeKeyValuePairs_def encodeKVLoop_Ok ascending_0)

lemma encodeKVLoop_no_panic: "encodeKVLoop i prev out opts \<noteq> Panic"
proof (induction opts arbitrary: i prev out)
  case (Cons opt opts)
  have "ParseVarint b \<noteq> Panic" for b by (cases b) (auto simp: ParseVarint_def Let_def)
  then show ?case using Cons by (auto simp: Let_def split: outcome.splits)
qed simp

text \<open>One pair read back.\<close>

lemma delta_fits:
  fixes prev t :: u64
  assumes "prev \<le> t"
  shows "\<not> NOT 0 - prev < t - prev"
proof -
  have top: "x \<le> NOT 0" for x :: u64 by simp
  from top have "unat (NOT 0 - prev) = unat (NOT (0 :: u64)) - unat prev" by (rule unat_sub)
  moreover have "unat (t - prev) = unat t - unat prev"
    using assms by (rule unat_sub)
  moreover have "unat t \<le> unat (NOT (0 :: u64))"
    using top [of t] by (simp only: word_le_nat_alt)
  ultimately show ?thesis by (simp add: word_less_nat_alt)
qed

lemma decodeKVPair_kvBytes:
  assumes "prev \<le> kvType p" and "wfPair p"
  shows "decodeKVPair prev (mkr (kvBytes prev p @ rest) e) = (Ok p, mkr rest e)"
proof (cases "kvType p mod 2 = 1")
  case True
  with assms(2) have len: "unat (word_of_nat (length (kvRaw p)) :: u64) = length (kvRaw p)"
    by (simp add: wfPair_def unat_of_nat)
  from True assms(1) delta_fits show ?thesis
    by (simp add: decodeKVPair_def kvBytes_def wire_simps Let_def len)
next
  case False
  with assms(2) obtain v where "kvRaw p = AppendVarint [] v" by (auto simp: wfPair_def)
  with False assms(1) delta_fits show ?thesis
    by (simp add: decodeKVPair_def kvBytes_def wire_simps Let_def)
qed

lemma decodeKVLoop_kvWire:
  assumes "sorted (prev # map kvType ps)" and "\<forall>p\<in>set ps. wfPair p"
  shows "decodeKVLoop prev out (mkr (kvWire prev ps) ErrEOF) = Ok (out @ ps)"
  using assms
proof (induction ps arbitrary: prev out)
  case Nil
  then show ?case by (simp add: decodeKVLoop.simps [of prev])
next
  case (Cons p ps)
  have "kvBytes prev p \<noteq> []" by (simp add: kvBytes_def)
  with Cons.prems decodeKVPair_kvBytes [of prev p "kvWire (kvType p) ps" ErrEOF]
  have "decodeKVLoop prev out (mkr (kvWire prev (p # ps)) ErrEOF)
      = decodeKVLoop (kvType p) (out @ [p]) (mkr (kvWire (kvType p) ps) ErrEOF)"
    by (simp add: decodeKVLoop.simps [of prev])
  with Cons.IH [of "kvType p" "out @ [p]"] Cons.prems show ?case by simp
qed

lemma decodeKeyValuePairs_kvWire:
  "sorted (map kvType ps) \<Longrightarrow> \<forall>p\<in>set ps. wfPair p \<Longrightarrow> decodeKeyValuePairs (kvWire 0 ps) = Ok ps"
  by (simp add: decodeKeyValuePairs_def decodeKVLoop_kvWire)

text \<open>What the decoder returns is ordered and in normal form, and it never panics.\<close>

lemma no_wrap:
  fixes prev delta :: u64
  assumes "\<not> NOT 0 - prev < delta"
  shows "prev \<le> prev + delta"
proof -
  have top: "x \<le> NOT 0" for x :: u64 by simp
  from top have "unat (NOT 0 - prev) = unat (NOT (0 :: u64)) - unat prev" by (rule unat_sub)
  moreover have "unat (NOT (0 :: u64)) < 2 ^ 64"
    using unsigned_less [of "NOT 0 :: u64", where ?'a = nat] by simp
  moreover have "unat prev \<le> unat (NOT (0 :: u64))"
    using top [of prev] by (simp only: word_le_nat_alt)
  ultimately have "unat prev + unat delta < 2 ^ 64"
    using assms by (simp add: not_less word_le_nat_alt)
  then show ?thesis by (simp add: word_le_nat_alt unat_word_ariths)
qed

lemma returns_decodeKVPair: "returns (\<lambda>p. prev \<le> kvType p \<and> wfPair p) (decodeKVPair prev)"
proof -
  have odd: "returns (\<lambda>p. prev \<le> kvType p \<and> wfPair p)
      (\<lambda>r. if length (flat r) < unat l
        then rerr (Errorf ''length exceeds payload for type %d'' [FU64 t]) r
        else rbind (rwrap ''value for type %d: %w'' [FU64 t] (readFull (unat l)))
               (\<lambda>raw. rret \<lparr>kvType = t, kvRaw = raw\<rparr>) r)"
    if "prev \<le> t" "t mod 2 = 1" for l t :: u64
  proof -
    have "unat l < 2 ^ 64" using unsigned_less [of l, where ?'a = nat] by simp
    with that have "returns (\<lambda>p. prev \<le> kvType p \<and> wfPair p)
        (rbind (rwrap ''value for type %d: %w'' [FU64 t] (readFull (unat l)))
          (\<lambda>raw. rret \<lparr>kvType = t, kvRaw = raw\<rparr>))"
      by (intro returns_rbind [OF returns_rwrap [OF returns_readFull]] returns_rret)
        (simp add: wfPair_def)
    then show ?thesis by (simp add: returns_def rerr_def)
  qed
  show ?thesis
    unfolding decodeKVPair_def Let_def
    by (intro returns_rbind [OF returns_True] returns_if returns_rerr odd returns_rret)
      (auto simp: wfPair_def no_wrap)
qed

lemmas decodeKVPair_result = returnsD [OF returns_decodeKVPair]

lemma nopanic_decodeKVPair [safe_intros]: "nopanic (decodeKVPair prev)"
proof -
  have "nopanic (\<lambda>r. if length (flat r) < unat l
      then rerr (Errorf ''length exceeds payload for type %d'' [FU64 t]) r
      else rbind (rwrap ''value for type %d: %w'' [FU64 t] (readFull (unat l)))
             (\<lambda>raw. rret \<lparr>kvType = t, kvRaw = raw\<rparr>) r)" for l t
  proof -
    have "nopanic (rbind (rwrap ''value for type %d: %w'' [FU64 t] (readFull (unat l)))
             (\<lambda>raw. rret \<lparr>kvType = t, kvRaw = raw\<rparr>))" by (intro safe_intros)
    then show ?thesis by (auto simp: nopanic_def rerr_def)
  qed
  then show ?thesis unfolding decodeKVPair_def Let_def by (intro safe_intros)
qed

lemma decodeKVLoop_result:
  assumes "decodeKVLoop prev out r = Ok ps"
  shows "\<exists>qs. ps = out @ qs \<and> sorted (prev # map kvType qs) \<and> (\<forall>q\<in>set qs. wfPair q)"
  using assms
proof (induction prev out r rule: decodeKVLoop.induct)
  case (1 prev out r)
  show ?case
  proof (cases "flat r = []")
    case True
    with "1.prems" show ?thesis by (simp add: decodeKVLoop.simps [of prev])
  next
    case False
    with "1.prems" obtain p r' where p: "decodeKVPair prev r = (Ok p, r')"
      and rest: "decodeKVLoop (kvType p) (out @ [p]) r' = Ok ps"
      by (auto simp: decodeKVLoop.simps [of prev] split: prod.splits outcome.splits)
    from "1.IH" [OF False p [symmetric] refl rest] obtain qs where qs: "ps = (out @ [p]) @ qs"
        "sorted (kvType p # map kvType qs)" "\<forall>q\<in>set qs. wfPair q"
      by blast
    with decodeKVPair_result [OF p] show ?thesis
      by (intro exI [of _ "p # qs"]) (auto intro: order_trans)
  qed
qed

lemma decodeKeyValuePairs_result:
  "decodeKeyValuePairs payload = Ok ps \<Longrightarrow> sorted (map kvType ps) \<and> (\<forall>p\<in>set ps. wfPair p)"
  unfolding decodeKeyValuePairs_def by (drule decodeKVLoop_result) auto

lemma decodeKVLoop_no_panic: "decodeKVLoop prev out r \<noteq> Panic"
proof (induction prev out r rule: decodeKVLoop.induct)
  case (1 prev out r)
  then show ?case
    using nopanicD [OF nopanic_decodeKVPair, of prev r]
    by (auto simp: decodeKVLoop.simps [of prev out r] split: prod.splits outcome.splits)
qed

lemma decodeKeyValuePairs_no_panic: "decodeKeyValuePairs payload \<noteq> Panic"
  by (simp add: decodeKeyValuePairs_def decodeKVLoop_no_panic)

subsection \<open>SETUP: lemmas\<close>

definition canonOption :: "SetupOption \<Rightarrow> SetupOption" where
  "canonOption opt = \<lparr>optType = optType opt, optRaw = the (canonRaw opt)\<rparr>"

definition optionOf :: "kvPair \<Rightarrow> SetupOption" where
  "optionOf p = \<lparr>optType = kvType p, optRaw = kvRaw p\<rparr>"

lemma optionOf_canonPair [simp]: "optionOf (canonPair opt) = canonOption opt"
  by (simp add: optionOf_def canonPair_def canonOption_def)

lemma wfPair_canonPair:
  assumes "canonRaw opt \<noteq> None" and "length (optRaw opt) < 2 ^ 64"
  shows "wfPair (canonPair opt)"
  using assms by (auto simp: wfPair_def canonPair_def canonRaw_def split: if_splits outcome.splits)

lemma DecodeSetup_def': "DecodeSetup payload =
    obind (decodeKeyValuePairs payload) (\<lambda>pairs. Ok \<lparr>Options = map optionOf pairs\<rparr>)"
  by (simp add: DecodeSetup_def optionOf_def [abs_def])

text \<open>A pair the decoder returned is an option the encoder takes over unchanged.\<close>

lemma canonRaw_wfPair:
  assumes "wfPair p"
  shows "canonRaw (optionOf p) = Some (kvRaw p)"
proof (cases "kvType p mod 2 = 1")
  case False
  with assms obtain v where v: "kvRaw p = AppendVarint [] v" by (auto simp: wfPair_def)
  have "ParseVarint (AppendVarint [] v) = Ok (v, length (AppendVarint [] v))"
    using ParseVarint_AppendVarint [of v "[]"] by (simp add: length_AppendVarint)
  with False v show ?thesis by (simp add: canonRaw_def optionOf_def)
qed (simp add: canonRaw_def optionOf_def)

lemma canonPair_wfPair: "wfPair p \<Longrightarrow> canonPair (optionOf p) = p"
  by (simp add: canonPair_def canonRaw_wfPair) (simp add: optionOf_def)

subsection \<open>Namespaces and SUBSCRIBE: lemmas\<close>

definition fieldBytes :: "bytes \<Rightarrow> bytes" where
  "fieldBytes f = AppendVarint [] (word_of_nat (length f)) @ f"

lemma encodeNamespaceLoop_Ok:
  "encodeNamespaceLoop b n fs = Ok (b', n') \<longleftrightarrow>
     [] \<notin> set fs \<and> b' = b @ concat (map fieldBytes fs) \<and> n' = n + length (concat fs)"
proof (induction fs arbitrary: b n)
  case Nil
  then show ?case by auto
next
  case (Cons f fs)
  show ?case by (auto simp: Cons.IH fieldBytes_def AppendVarint_append [of b])
qed

lemma encodeNamespaceLoop_no_panic: "encodeNamespaceLoop b n fs \<noteq> Panic"
  by (induction fs arbitrary: b n) auto

definition validNamespace :: "bytes list \<Rightarrow> bool" where
  "validNamespace fs \<longleftrightarrow> length fs \<le> 32 \<and> [] \<notin> set fs \<and> length (concat fs) \<le> 4096"

lemma encodeTrackNamespace_Ok:
  "encodeTrackNamespace fs = Ok b \<longleftrightarrow>
     validNamespace fs \<and> b = AppendVarint [] (word_of_nat (length fs)) @ concat (map fieldBytes fs)"
  by (auto simp: encodeTrackNamespace_def validNamespace_def encodeNamespaceLoop_Ok split: if_splits)

lemma EncodeTrackNamespaceFromStrings_Ok:
  "EncodeTrackNamespaceFromStrings ss = Ok ns \<longleftrightarrow> [] \<notin> set ss \<and> ns = map bytes_of ss"
  by (induction ss arbitrary: ns) auto

lemma validNamespace_length:
  "validNamespace fs \<Longrightarrow> f \<in> set fs \<Longrightarrow> length f \<le> 4096"
  using member_le_sum_list [of "length f" "map length fs"]
  by (auto simp: validNamespace_def length_concat)

subsection \<open>A truncated frame\<close>

lemma ReadVarint_prefix:
  assumes "k < varintSize v"
  shows "ReadVarint (mkr (take k (AppendVarint [] v)) ErrEOF)
    = (Err (if k \<le> 1 then ErrEOF else ErrUnexpectedEOF), mkr [] ErrEOF)"
proof (cases v rule: AppendVarint_head)
  case (1 f tl)
  show ?thesis
  proof (cases k)
    case 0
    then show ?thesis by (simp add: ReadVarint_Nil)
  next
    case (Suc j)
    with assms length_AppendVarint [of v] 1 have "j < leadingZeros8 (NOT f)" by simp
    with Suc 1 show ?thesis by (auto simp: ReadVarint_Cons shortErr_def)
  qed
qed

lemma ReadFrame_prefix:
  assumes len: "length p \<le> maxFrameLen" and k: "k < length (frameBytes t p)"
  shows "ReadFrame (mkr (take k (frameBytes t p)) ErrEOF) =
    (Err (if k \<le> 1 \<or> k = varintSize t \<or> k = varintSize t + 2 then ErrEOF else ErrUnexpectedEOF),
     mkr [] ErrEOF)"
proof (cases "k < varintSize t")
  case True
  then have "take k (frameBytes t p) = take k (AppendVarint [] t)"
    by (simp add: frameBytes_def length_AppendVarint)
  with True ReadVarint_prefix [OF True] show ?thesis by (simp add: ReadFrame_def wire_simps)
next
  case False
  then obtain j where j: "k = varintSize t + j" by (metis not_less le_Suc_ex)
  let ?l = "appendUint16 [] (word_of_nat (length p))"
  have tk: "take k (frameBytes t p) = AppendVarint [] t @ take j (?l @ p)"
    using j by (simp add: frameBytes_def length_AppendVarint)
  have body: "ReadFrameBody (mkr (take j (?l @ p)) ErrEOF)
      = (Err (if j = 0 \<or> j = 2 then ErrEOF else ErrUnexpectedEOF), mkr [] ErrEOF)"
  proof (cases "j < 2")
    case True
    then have "length (take j ?l) < 2" "take j ?l = [] \<longleftrightarrow> j = 0" by (auto simp: appendUint16_def)
    with True show ?thesis
      by (auto simp: ReadFrameBody_def rbind_def readFull_mkr shortErr_def)
  next
    case False
    then obtain m where m: "j = 2 + m" by (metis not_less le_Suc_ex)
    with k j have short: "m < length p" by (simp add: length_frameBytes)
    with m len show ?thesis
      by (auto simp: ReadFrameBody_def wire_simps readNew_u16 unat_len16 shortErr_def)
  qed
  have "1 \<le> varintSize t" using varintSize_range by simp
  with j body show ?thesis unfolding tk by (auto simp: ReadFrame_def wire_simps)
qed

subsection \<open>A writer that appends\<close>

text \<open>
  What the program relies on of a writer: a \<^verbatim>\<open>Write\<close> without an error has appended all the bytes
  (the contract of \<^verbatim>\<open>io.Writer\<close>).  \<open>out w\<close> is what the peer will read.
\<close>

locale byte_sink =
  fixes wr :: "bytes \<Rightarrow> 'w \<Rightarrow> gerr option \<times> 'w" and out :: "'w \<Rightarrow> bytes"
  assumes wr_ok: "wr b w = (None, w') \<Longrightarrow> out w' = out w @ b"
begin

lemma frame_written:
  assumes "WriteFrame wr w t p = (None, w')"
  shows "length p \<le> maxFrameLen \<and> out w' = out w @ frameBytes t p"
proof -
  from assms have "length p \<le> maxFrameLen" by (auto simp: WriteFrame_def split: if_splits)
  with assms show ?thesis by (simp add: WriteFrame_ok wr_ok)
qed

lemma frame_delivered:
  assumes "WriteFrame wr w t p = (None, w')" and "flat r = out w' @ rest" and "out w = []"
  shows "\<exists>r'. ReadFrame r = (Ok (t, p), r') \<and> flat r' = rest \<and> fin r' = fin r"
  using frame_written [OF assms(1)] assms(2,3) frame.dec_chunked [of "(t, p)" r rest] by simp

end

text \<open>A \<^verbatim>\<open>bytes.Buffer\<close>.\<close>

definition bufferWrite :: "bytes \<Rightarrow> bytes \<Rightarrow> gerr option \<times> bytes" where
  "bufferWrite b w = (None, w @ b)"

interpretation buffer: byte_sink bufferWrite "\<lambda>w. w"
  by unfold_locales (simp add: bufferWrite_def)

subsection \<open>Reference readers\<close>

text \<open>
  The subscriber never decodes a SUBSCRIBE; this is the reading of its body that the draft gives
  the peer: request ID, namespace tuple, track name, number of parameters, parameters.
\<close>

fun readFields :: "nat \<Rightarrow> reader \<Rightarrow> bytes list outcome \<times> reader" where
  "readFields 0 = rret []"
| "readFields (Suc n) =
     rbind ReadVarint (\<lambda>l. rbind (readNew (unat l)) (\<lambda>f.
       rbind (readFields n) (\<lambda>fs. rret (f # fs))))"

definition readSubscribe :: "reader \<Rightarrow> (u64 \<times> bytes list \<times> bytes \<times> u64 \<times> bytes) outcome \<times> reader" where
  "readSubscribe =
     rbind ReadVarint (\<lambda>i. rbind ReadVarint (\<lambda>n. rbind (readFields (unat n)) (\<lambda>ns.
       rbind ReadVarint (\<lambda>l. rbind (readNew (unat l)) (\<lambda>name.
         rbind ReadVarint (\<lambda>k. rbind readAll (\<lambda>ps. rret (i, ns, name, k, ps))))))))"

lemma unat_len64: "n \<le> maxAlloc \<Longrightarrow> unat (word_of_nat n :: u64) = n"
  by (simp add: maxAlloc_def unat_of_nat)

lemma readFields_fieldBytes [wire_simps]:
  "\<forall>f\<in>set fs. length f \<le> maxAlloc \<Longrightarrow>
   readFields (length fs) (mkr (concat (map fieldBytes fs) @ rest) e) = (Ok fs, mkr rest e)"
  by (induction fs) (simp_all add: wire_simps fieldBytes_def unat_len64)

lemma EncodeSubscribe_Ok:
  "EncodeSubscribe msg = Ok bs \<longleftrightarrow>
     validNamespace (TrackNamespace msg)
     \<and> (\<exists>num. (if ParametersRaw msg = [] then num = 0 else countKeyValuePairs (ParametersRaw msg) = Ok num)
          \<and> bs = AppendVarint [] (RequestID msg)
               @ AppendVarint [] (word_of_nat (length (TrackNamespace msg)))
               @ concat (map fieldBytes (TrackNamespace msg))
               @ fieldBytes (TrackName msg) @ AppendVarint [] num @ ParametersRaw msg)"
  by (auto simp: EncodeSubscribe_def encodeTrackNamespace_Ok fieldBytes_def Let_def
      AppendVarint_append [of "_ @ _"])

lemma readSubscribe_wire:
  assumes "validNamespace ns" and "length name \<le> maxAlloc"
  shows "readSubscribe (mkr (AppendVarint [] i @ AppendVarint [] (word_of_nat (length ns))
      @ concat (map fieldBytes ns) @ fieldBytes name @ AppendVarint [] k @ ps) ErrEOF)
    = (Ok (i, ns, name, k, ps), mkr [] ErrEOF)"
proof -
  have "length ns \<le> maxAlloc" using assms(1) by (simp add: validNamespace_def maxAlloc_def)
  moreover have "\<forall>f\<in>set ns. length f \<le> maxAlloc"
    using validNamespace_length [OF assms(1)] by (fastforce simp: maxAlloc_def)
  ultimately show ?thesis using assms(2)
    by (simp add: readSubscribe_def wire_simps unat_len64) (simp add: fieldBytes_def wire_simps unat_len64)
qed

subsection \<open>SUBSCRIBE_OK and REQUEST_ERROR: lemmas\<close>

lemma DecodeSubscribeOK_wire:
  "DecodeSubscribeOK (AppendVarint [] alias @ AppendVarint [] num @ rest) =
     Ok \<lparr>okTrackAlias = alias, okNumParams = num, okTrackProperties = rest\<rparr>"
  by (simp add: DecodeSubscribeOK_def wire_simps)

lemma DecodeSubscribeOK_no_panic: "DecodeSubscribeOK payload \<noteq> Panic"
proof -
  have "nopanic (rbind (rwrap ''track alias: %w'' [] ReadVarint) (\<lambda>alias.
          rbind (rwrap ''number of parameters: %w'' [] ReadVarint) (\<lambda>numParams.
          rbind readAll (\<lambda>rest.
            rret \<lparr>okTrackAlias = alias, okNumParams = numParams, okTrackProperties = rest\<rparr>))))"
    by (intro safe_intros)
  then show ?thesis by (simp add: DecodeSubscribeOK_def nopanic_def)
qed

lemma reason_limit: "\<not> (1024 :: u64) < l \<Longrightarrow> unat l \<le> 1024"
  by (simp add: word_less_nat_alt)

lemma DecodeRequestError_result:
  "DecodeRequestError payload \<noteq> Panic"
  "DecodeRequestError payload = Ok m \<Longrightarrow> length (errReason m) \<le> 1024"
proof -
  let ?p = "rbind (rwrap ''error code: %w'' [] ReadVarint) (\<lambda>code.
          rbind (rwrap ''retry interval: %w'' [] ReadVarint) (\<lambda>retry.
          rbind (rwrap ''reason length: %w'' [] ReadVarint) (\<lambda>reasonLen.
            if 1024 < reasonLen
            then rerr (Errorf ''reason phrase too long: %d'' [FU64 reasonLen])
            else
              rbind (rwrap ''reason bytes: %w'' [] (readNew (unat reasonLen))) (\<lambda>reason.
              rbind readAll (\<lambda>rest.
                rret \<lparr>errCode = code, errRetryInterval = retry,
                      errReason = string_of reason, errRedirect = rest\<rparr>)))))"
  have new: "nopanic (readNew (unat l))" if "\<not> (1024 :: u64) < l" for l
    using reason_limit [OF that] by (intro nopanic_readNew) (simp add: maxAlloc_def)
  have "nopanic ?p" by (intro safe_intros new)
  then show "DecodeRequestError payload \<noteq> Panic"
    by (simp add: DecodeRequestError_def nopanic_def)
  have "returns (\<lambda>m. length (errReason m) \<le> 1024) ?p"
    by (intro returns_rbind [OF returns_True] returns_if returns_rerr
        returns_rbind [OF returns_rwrap [OF returns_readNew]] returns_rret)
      (simp add: string_of_def reason_limit)
  then show "DecodeRequestError payload = Ok m \<Longrightarrow> length (errReason m) \<le> 1024"
    by (simp add: DecodeRequestError_def returns_def)
qed

subsection \<open>SETUP: round trip\<close>

lemma EncodeSetup_Ok:
  "EncodeSetup msg = Ok bs \<longleftrightarrow> sorted_wrt (<) (map optType (Options msg))
     \<and> (\<forall>opt\<in>set (Options msg). canonRaw opt \<noteq> None) \<and> bs = kvWire 0 (map canonPair (Options msg))"
  by (simp add: EncodeSetup_def encodeKeyValuePairs_Ok)

lemma DecodeSetup_EncodeSetup:
  assumes "EncodeSetup msg = Ok bs" and "\<forall>opt\<in>set (Options msg). length (optRaw opt) < 2 ^ 64"
  shows "DecodeSetup bs = Ok \<lparr>Options = map canonOption (Options msg)\<rparr>"
proof -
  note e = assms(1) [unfolded EncodeSetup_Ok]
  have "map kvType (map canonPair (Options msg)) = map optType (Options msg)"
    by (simp add: canonPair_def)
  then have "sorted (map kvType (map canonPair (Options msg)))"
    using strict_sorted_imp_sorted e by (metis (no_types, lifting))
  moreover have "\<forall>p\<in>set (map canonPair (Options msg)). wfPair p"
    using e assms(2) by (auto intro: wfPair_canonPair)
  ultimately have "decodeKeyValuePairs bs = Ok (map canonPair (Options msg))"
    using e decodeKeyValuePairs_kvWire by blast
  then show ?thesis by (simp add: DecodeSetup_def')
qed

lemma canonRaw_odd: "optType opt mod 2 = 1 \<Longrightarrow> canonRaw opt = Some (optRaw opt)"
  by (simp add: canonRaw_def)

lemma canonOption_odd: "optType opt mod 2 = 1 \<Longrightarrow> canonOption opt = opt"
  by (simp add: canonOption_def canonRaw_odd)

text \<open>SETUP messages with odd option types only: the ones the subscriber sends.\<close>

lemma EncodeSetup_odd:
  assumes "sorted_wrt (<) (map optType (Options msg))" and "\<forall>opt\<in>set (Options msg). optType opt mod 2 = 1"
    and "\<forall>opt\<in>set (Options msg). length (optRaw opt) < 2 ^ 64"
  obtains bs where "EncodeSetup msg = Ok bs" and "DecodeSetup bs = Ok msg"
proof -
  have "EncodeSetup msg = Ok (kvWire 0 (map canonPair (Options msg)))"
    using assms(1,2) by (simp add: EncodeSetup_Ok canonRaw_odd)
  moreover have "map canonOption (Options msg) = Options msg"
    using assms(2) by (intro map_idI) (simp add: canonOption_odd)
  ultimately show ?thesis using that DecodeSetup_EncodeSetup [OF _ assms(3)] by simp
qed

subsection \<open>Properties\<close>

text \<open>C7: Frames round trip.  A payload of at most 65535 bytes is written as one frame, and reading
  the stream back yields its message type and payload, whatever chunks the frame arrives in and
  whatever follows it, leaving exactly what follows; a longer payload is refused and nothing of it
  is written.\<close>

theorem frame_roundtrip:
  "(if length p \<le> maxFrameLen then
      \<exists>b. WriteFrame bufferWrite [] t p = (None, b)
        \<and> (flat r = b @ rest \<longrightarrow>
            (\<exists>r'. ReadFrame r = (Ok (t, p), r') \<and> flat r' = rest \<and> fin r' = fin r))
    else WriteFrame bufferWrite [] t p
           = (Some (Errorf ''payload too large: %d'' [FInt (int (length p))]), []))"
  using frame.dec_chunked [of "(t, p)" r rest]
  by (auto simp: WriteFrame_ok bufferWrite_def) (simp add: WriteFrame_def)

theorem frame_roundtrip_witness:
  "WriteFrame bufferWrite [] 0x03 [1, 2, 3] = (None, [3, 0, 3, 1, 2, 3])
   \<and> (\<exists>r'. ReadFrame \<lparr>chunks = [[3, 0], [3, 1], [2, 3, 9]], fin = ErrEOF\<rparr> = (Ok (3, [1, 2, 3]), r')
        \<and> flat r' = [9])"
proof -
  have w: "WriteFrame bufferWrite [] 0x03 [1, 2, 3] = (None, [3, 0, 3, 1, 2, 3])" by code_simp
  show ?thesis
    using frame_roundtrip [of "[1, 2, 3]" 3 "\<lparr>chunks = [[3, 0], [3, 1], [2, 3, 9]], fin = ErrEOF\<rparr>" "[9]"] w
    by (auto simp: maxFrameLen_def flat_def)
qed

text \<open>C38: A control stream that ends in the middle of a frame.  The error of \<^verbatim>\<open>ReadFrame\<close> is the
  bare \<^verbatim>\<open>io.EOF\<close>, the same as at the end of a complete stream, exactly when the stream stops
  after the first byte, between the type and the length, or between the length and the body; it is
  \<^verbatim>\<open>io.ErrUnexpectedEOF\<close> at every other cut.\<close>

theorem ReadFrame_truncated:
  assumes "length p \<le> maxFrameLen" and "k < length (frameBytes t p)"
  shows "ReadFrame (mkr (take k (frameBytes t p)) ErrEOF) =
    (Err (if k \<le> 1 \<or> k = varintSize t \<or> k = varintSize t + 2 then ErrEOF else ErrUnexpectedEOF),
     mkr [] ErrEOF)"
  using assms by (rule ReadFrame_prefix)

text \<open>The instance behind the finding: a SUBSCRIBE_OK frame whose whole body is missing.\<close>

theorem ReadFrame_truncated_witness:
  "ReadFrame (mkr [0x04, 0x00, 0x05] ErrEOF) = (Err ErrEOF, mkr [] ErrEOF)"
proof -
  have b: "take 3 (frameBytes 4 [1, 2, 3, 4, 5]) = [0x04, 0x00, 0x05]"
    "3 < length (frameBytes 4 [1, 2, 3, 4, 5])" "varintSize 4 = 1" by code_simp+
  show ?thesis
    using ReadFrame_truncated [of "[1, 2, 3, 4, 5]" 3 4] b by (simp add: maxFrameLen_def)
qed

text \<open>What SETUP messages can be encoded.  \<^verbatim>\<open>EncodeSetup\<close> succeeds exactly when the option types
  strictly increase and every even option holds nothing or exactly one varint; it never panics.\<close>

theorem EncodeSetup_accepts:
  "((\<exists>bs. EncodeSetup msg = Ok bs) \<longleftrightarrow>
     sorted_wrt (<) (map optType (Options msg))
     \<and> (\<forall>opt\<in>set (Options msg). optType opt mod 2 = 1 \<or> optRaw opt = []
          \<or> (\<exists>v. ParseVarint (optRaw opt) = Ok (v, length (optRaw opt)))))
   \<and> EncodeSetup msg \<noteq> Panic"
proof -
  have "canonRaw opt \<noteq> None \<longleftrightarrow> optType opt mod 2 = 1 \<or> optRaw opt = []
      \<or> (\<exists>v. ParseVarint (optRaw opt) = Ok (v, length (optRaw opt)))" for opt
    by (auto simp: canonRaw_def split: outcome.splits)
  then show ?thesis
    by (simp add: EncodeSetup_def encodeKeyValuePairs_Ok)
      (simp add: encodeKeyValuePairs_def encodeKVLoop_no_panic)
qed

theorem EncodeSetup_accepts_witness:
  "(\<exists>bs. EncodeSetup \<lparr>Options = [\<lparr>optType = 1, optRaw = [0x2F]\<rparr>, \<lparr>optType = 4, optRaw = [0x80, 0x25]\<rparr>]\<rparr> = Ok bs)
   \<and> \<not> (\<exists>bs. EncodeSetup \<lparr>Options = [\<lparr>optType = 5, optRaw = []\<rparr>, \<lparr>optType = 5, optRaw = []\<rparr>]\<rparr> = Ok bs)"
proof -
  have p: "ParseVarint [0x80, 0x25] = Ok (37, 2)" by code_simp
  show ?thesis
    using EncodeSetup_accepts [of "\<lparr>Options = [\<lparr>optType = 1, optRaw = [0x2F]\<rparr>, \<lparr>optType = 4, optRaw = [0x80, 0x25]\<rparr>]\<rparr>"]
      EncodeSetup_accepts [of "\<lparr>Options = [\<lparr>optType = 5, optRaw = []\<rparr>, \<lparr>optType = 5, optRaw = []\<rparr>]\<rparr>"]
    by (simp add: p)
qed

text \<open>C14: SETUP round trip.  Decoding an encoded SETUP gives back its options in order; the value of
  an odd (length-prefixed) option is the same bytes, the value of an even (varint) option is the
  shortest encoding of the same number, with an empty value read back as the varint 0.\<close>

theorem setup_roundtrip:
  assumes "EncodeSetup msg = Ok bs" and "\<forall>opt\<in>set (Options msg). length (optRaw opt) < 2 ^ 64"
  shows "DecodeSetup bs = Ok \<lparr>Options = map canonOption (Options msg)\<rparr>
    \<and> (\<forall>opt\<in>set (Options msg). optType opt mod 2 = 1 \<longrightarrow> canonOption opt = opt)"
  using DecodeSetup_EncodeSetup [OF assms] canonOption_odd by simp

theorem setup_roundtrip_witness:
  "DecodeSetup [0x01, 0x01, 0x2F, 0x03, 0x25]
     = Ok \<lparr>Options = [\<lparr>optType = 1, optRaw = [0x2F]\<rparr>, \<lparr>optType = 4, optRaw = [0x25]\<rparr>]\<rparr>"
proof -
  let ?m = "\<lparr>Options = [\<lparr>optType = 1, optRaw = [0x2F]\<rparr>, \<lparr>optType = 4, optRaw = [0x80, 0x25]\<rparr>]\<rparr>"
  have e: "EncodeSetup ?m = Ok [0x01, 0x01, 0x2F, 0x03, 0x25]" by code_simp
  have c: "map canonOption (Options ?m)
      = [\<lparr>optType = 1, optRaw = [0x2F]\<rparr>, \<lparr>optType = 4, optRaw = [0x25]\<rparr>]" by code_simp
  show ?thesis using setup_roundtrip [OF e] c by simp
qed

text \<open>What \<^verbatim>\<open>DecodeSetup\<close> accepts is in normal form, for every payload a peer can send: it never
  panics, the option types it returns never decrease, and when they strictly increase the encoder
  accepts the message and its encoding decodes to the same message.\<close>

theorem DecodeSetup_normal_form:
  assumes "DecodeSetup payload = Ok msg"
  shows "sorted (map optType (Options msg))
    \<and> (sorted_wrt (<) (map optType (Options msg)) \<longrightarrow>
        (\<exists>bs. EncodeSetup msg = Ok bs \<and> DecodeSetup bs = Ok msg))"
proof -
  from assms obtain ps where ps: "decodeKeyValuePairs payload = Ok ps" "Options msg = map optionOf ps"
    and m: "msg = \<lparr>Options = map optionOf ps\<rparr>"
    by (auto simp: DecodeSetup_def')
  from decodeKeyValuePairs_result [OF ps(1)]
  have wf: "sorted (map kvType ps)" "\<forall>p\<in>set ps. wfPair p" by auto
  have t: "map optType (Options msg) = map kvType ps" by (simp add: ps(2) optionOf_def)
  have c: "map canonPair (Options msg) = ps"
    using wf(2) by (simp add: ps(2) map_idI canonPair_wfPair)
  have "\<forall>opt\<in>set (Options msg). canonRaw opt \<noteq> None"
    using wf(2) by (auto simp: ps(2) canonRaw_wfPair)
  then have "sorted_wrt (<) (map optType (Options msg)) \<Longrightarrow> EncodeSetup msg = Ok (kvWire 0 ps)"
    by (simp add: EncodeSetup_def encodeKeyValuePairs_Ok c)
  moreover have "DecodeSetup (kvWire 0 ps) = Ok msg"
    using wf by (simp add: DecodeSetup_def' decodeKeyValuePairs_kvWire m)
  ultimately show ?thesis using wf(1) t by auto
qed

theorem DecodeSetup_normal_form_witness:
  "\<exists>msg. DecodeSetup [0x04, 0x80, 0x25, 0x01, 0x00] = Ok msg
     \<and> (\<exists>bs. EncodeSetup msg = Ok bs \<and> DecodeSetup bs = Ok msg)"
proof -
  let ?m = "\<lparr>Options = [\<lparr>optType = 4, optRaw = [0x25]\<rparr>, \<lparr>optType = 5, optRaw = []\<rparr>]\<rparr>"
  have d: "DecodeSetup [0x04, 0x80, 0x25, 0x01, 0x00] = Ok ?m" by code_simp
  show ?thesis using DecodeSetup_normal_form [OF d] d by auto
qed

text \<open>C13: A SUBSCRIBE carries its fields.  \<^verbatim>\<open>EncodeSubscribe\<close> succeeds exactly when the namespace has
  at most 32 non-empty fields of at most 4096 bytes together and the parameters are well-formed
  key-value pairs, and the draft's reading of the body it writes gives back the request ID, the
  namespace fields, the track name, the number of parameters and their bytes.\<close>

theorem EncodeSubscribe_faithful:
  assumes "length (TrackName msg) \<le> maxAlloc"
  shows "if validNamespace (TrackNamespace msg)
      \<and> (ParametersRaw msg = [] \<or> (\<exists>n. countKeyValuePairs (ParametersRaw msg) = Ok n))
    then \<exists>bs num. EncodeSubscribe msg = Ok bs
      \<and> countKeyValuePairs (ParametersRaw msg) = Ok num
      \<and> readSubscribe (mkr bs ErrEOF)
          = (Ok (RequestID msg, TrackNamespace msg, TrackName msg, num, ParametersRaw msg), mkr [] ErrEOF)
    else \<forall>bs. EncodeSubscribe msg \<noteq> Ok bs"
proof (cases "validNamespace (TrackNamespace msg)
      \<and> (ParametersRaw msg = [] \<or> (\<exists>n. countKeyValuePairs (ParametersRaw msg) = Ok n))")
  case True
  have z: "countKeyValuePairs [] = Ok 0" by (simp add: countKeyValuePairs_def
      decodeKeyValuePairs_def decodeKVLoop.simps [of 0])
  from True z obtain num where num: "countKeyValuePairs (ParametersRaw msg) = Ok num"
    "ParametersRaw msg = [] \<longrightarrow> num = 0" by (metis outcome.inject(1))
  define bs where bs: "bs = AppendVarint [] (RequestID msg)
         @ AppendVarint [] (word_of_nat (length (TrackNamespace msg)))
         @ concat (map fieldBytes (TrackNamespace msg))
         @ fieldBytes (TrackName msg) @ AppendVarint [] num @ ParametersRaw msg"
  have enc: "EncodeSubscribe msg = Ok bs"
    unfolding EncodeSubscribe_Ok bs using True num by (auto intro!: exI [of _ num])
  have "readSubscribe (mkr bs ErrEOF)
      = (Ok (RequestID msg, TrackNamespace msg, TrackName msg, num, ParametersRaw msg), mkr [] ErrEOF)"
    unfolding bs using True assms by (intro readSubscribe_wire) auto
  with True num(1) enc show ?thesis by auto
next
  case False
  then show ?thesis by (auto simp: EncodeSubscribe_Ok split: if_splits)
qed

theorem EncodeSubscribe_faithful_witness:
  "\<exists>bs. EncodeSubscribe \<lparr>RequestID = 0, TrackNamespace = [[0x61], [0x62]], TrackName = [0x76], ParametersRaw = []\<rparr> = Ok bs
     \<and> readSubscribe (mkr bs ErrEOF) = (Ok (0, [[0x61], [0x62]], [0x76], 0, []), mkr [] ErrEOF)"
proof -
  let ?m = "\<lparr>RequestID = 0, TrackNamespace = [[0x61], [0x62]], TrackName = [0x76], ParametersRaw = []\<rparr>"
  have c: "countKeyValuePairs [] = Ok 0" by code_simp
  have v: "validNamespace [[0x61], [0x62]]" by (simp add: validNamespace_def)
  have l: "length (TrackName ?m) \<le> maxAlloc" by (simp add: maxAlloc_def)
  show ?thesis using EncodeSubscribe_faithful [of ?m] l c v by auto
qed

text \<open>C28: REQUEST_ERROR bodies.  A body made of a code, a retry interval, a reason of \<open>n\<close> bytes and a
  redirect decodes to exactly these fields when \<open>n \<le> 1024\<close> and is refused otherwise, whatever the
  code: the bytes after the reason are kept as the redirect for every code.\<close>

theorem DecodeRequestError_wire:
  assumes "length reason < 2 ^ 64"
  shows "DecodeRequestError (AppendVarint [] code @ AppendVarint [] retry
      @ AppendVarint [] (word_of_nat (length reason)) @ bytes_of reason @ redirect)
    = (if length reason \<le> 1024
       then Ok \<lparr>errCode = code, errRetryInterval = retry, errReason = reason, errRedirect = redirect\<rparr>
       else Err (Errorf ''reason phrase too long: %d'' [FU64 (word_of_nat (length reason))]))"
proof -
  let ?l = "word_of_nat (length reason) :: u64"
  have l: "unat ?l = length reason" using assms by (simp add: unat_of_nat)
  then have "1024 < ?l \<longleftrightarrow> 1024 < length reason" by (simp add: word_less_nat_alt)
  with l show ?thesis
    by (simp add: DecodeRequestError_def wire_simps maxAlloc_def)
qed

theorem DecodeRequestError_wire_witness:
  "DecodeRequestError [0x10, 0x00, 0x02, 0x6E, 0x6F, 0xFF]
    = Ok \<lparr>errCode = 0x10, errRetryInterval = 0, errReason = ''no'', errRedirect = [0xFF]\<rparr>"
proof -
  have b: "AppendVarint [] 0x10 @ AppendVarint [] 0 @ AppendVarint [] (word_of_nat (length ''no''))
      @ bytes_of ''no'' @ [0xFF] = [0x10, 0x00, 0x02, 0x6E, 0x6F, 0xFF]" by code_simp
  show ?thesis using DecodeRequestError_wire [of "''no''" "0x10" 0 "[0xFF]"] unfolding b by simp
qed



end
