(* ===== verification/Subgroup.thy ===== *)
theory Subgroup
  imports Codec
begin

text \<open>
  \<^verbatim>\<open>internal/moqt/draft18/stream.go\<close>: subgroup stream types, the subgroup header and the reader of
  the objects that follow it.

  \<open>SubgroupObjectReader\<close> holds the fields of the Go struct apart from the stream itself, which is
  passed along as the \<open>reader\<close>; \<open>Next\<close> returns the object and the reader's new state.
\<close>

subsection \<open>Stream types\<close>

definition StreamTypeSubgroupZeroId :: u64 where "StreamTypeSubgroupZeroId = 0x10"
definition StreamTypeSubgroupZeroIdExt :: u64 where "StreamTypeSubgroupZeroIdExt = 0x11"
definition StreamTypeSubgroupFirstObjectId :: u64 where "StreamTypeSubgroupFirstObjectId = 0x12"
definition StreamTypeSubgroupFirstObjectIdExt :: u64 where "StreamTypeSubgroupFirstObjectIdExt = 0x13"
definition StreamTypeSubgroupId :: u64 where "StreamTypeSubgroupId = 0x14"
definition StreamTypeSubgroupIdExt :: u64 where "StreamTypeSubgroupIdExt = 0x15"
definition StreamTypeSubgroupZeroIdEndOfGroup :: u64 where "StreamTypeSubgroupZeroIdEndOfGroup = 0x18"
definition StreamTypeSubgroupZeroIdExtEndOfGroup :: u64 where "StreamTypeSubgroupZeroIdExtEndOfGroup = 0x19"
definition StreamTypeSubgroupFirstObjectIdEndOfGroup :: u64 where
  "StreamTypeSubgroupFirstObjectIdEndOfGroup = 0x1a"
definition StreamTypeSubgroupFirstObjectIdExtEndGroup :: u64 where
  "StreamTypeSubgroupFirstObjectIdExtEndGroup = 0x1b"
definition StreamTypeSubgroupIdEndOfGroup :: u64 where "StreamTypeSubgroupIdEndOfGroup = 0x1c"
definition StreamTypeSubgroupIdExtEndOfGroup :: u64 where "StreamTypeSubgroupIdExtEndOfGroup = 0x1d"

lemmas subgroup_codes = StreamTypeSubgroupZeroId_def StreamTypeSubgroupZeroIdExt_def
  StreamTypeSubgroupFirstObjectId_def StreamTypeSubgroupFirstObjectIdExt_def
  StreamTypeSubgroupId_def StreamTypeSubgroupIdExt_def
  StreamTypeSubgroupZeroIdEndOfGroup_def StreamTypeSubgroupZeroIdExtEndOfGroup_def
  StreamTypeSubgroupFirstObjectIdEndOfGroup_def StreamTypeSubgroupFirstObjectIdExtEndGroup_def
  StreamTypeSubgroupIdEndOfGroup_def StreamTypeSubgroupIdExtEndOfGroup_def

definition IsSubgroupStreamType :: "u64 \<Rightarrow> bool" where
  "IsSubgroupStreamType t \<longleftrightarrow> (0x10 \<le> t \<and> t \<le> 0x15) \<or> (0x18 \<le> t \<and> t \<le> 0x1d)"

definition subgroupHasSubgroupID :: "u64 \<Rightarrow> bool" where
  "subgroupHasSubgroupID t \<longleftrightarrow>
     t = StreamTypeSubgroupId \<or> t = StreamTypeSubgroupIdExt
     \<or> t = StreamTypeSubgroupIdEndOfGroup \<or> t = StreamTypeSubgroupIdExtEndOfGroup"

definition subgroupHasExtensions :: "u64 \<Rightarrow> bool" where
  "subgroupHasExtensions t \<longleftrightarrow>
     t = StreamTypeSubgroupZeroIdExt \<or> t = StreamTypeSubgroupFirstObjectIdExt
     \<or> t = StreamTypeSubgroupIdExt \<or> t = StreamTypeSubgroupZeroIdExtEndOfGroup
     \<or> t = StreamTypeSubgroupFirstObjectIdExtEndGroup \<or> t = StreamTypeSubgroupIdExtEndOfGroup"

definition subgroupUsesFirstObjectID :: "u64 \<Rightarrow> bool" where
  "subgroupUsesFirstObjectID t \<longleftrightarrow>
     t = StreamTypeSubgroupFirstObjectId \<or> t = StreamTypeSubgroupFirstObjectIdExt
     \<or> t = StreamTypeSubgroupFirstObjectIdEndOfGroup \<or> t = StreamTypeSubgroupFirstObjectIdExtEndGroup"

subsection \<open>The header\<close>

definition ParseSubgroupHeader :: "u64 \<Rightarrow> reader \<Rightarrow> SubgroupHeader outcome \<times> reader" where
  "ParseSubgroupHeader streamType =
     (if \<not> IsSubgroupStreamType streamType
      then rerr (Errorf ''not subgroup stream type: 0x%x'' [FU64 streamType])
      else
        rbind (rwrap ''track alias: %w'' [] ReadVarint) (\<lambda>trackAlias.
        rbind (rwrap ''group id: %w'' [] ReadVarint) (\<lambda>groupID.
        rbind (if subgroupHasSubgroupID streamType
               then rwrap ''subgroup id: %w'' [] ReadVarint else rret 0) (\<lambda>subgroupID.
        rbind (rwrap ''publisher priority: %w'' [] (readFull 1)) (\<lambda>b.
          rret \<lparr>hdrType = streamType,
                hdrTrackAlias = trackAlias,
                hdrGroupID = groupID,
                hdrSubgroupID = subgroupID,
                hdrHasSubgroupID = subgroupHasSubgroupID streamType,
                hdrHasExtensions = subgroupHasExtensions streamType,
                hdrUsesFirstObjectID = subgroupUsesFirstObjectID streamType,
                hdrEndOfGroup = (0x18 \<le> streamType),
                hdrPublisherPriority = hd b\<rparr>)))))"

subsection \<open>Objects\<close>

record SubgroupObjectReader =
  hasExtensions :: bool
  prevObjectID :: "u64 option"

definition NewSubgroupObjectReader :: "SubgroupHeader \<Rightarrow> SubgroupObjectReader" where
  "NewSubgroupObjectReader header = \<lparr>hasExtensions = hdrHasExtensions header, prevObjectID = None\<rparr>"

text \<open>
  \<open>Next\<close> in its three parts: the extension block of the object, its length with its payload or
  status, and the object ID in front of both.
\<close>

definition nextProperties :: "bool \<Rightarrow> reader \<Rightarrow> bytes outcome \<times> reader" where
  "nextProperties ext =
     (if ext then
        rbind (rwrap ''extension headers length: %w'' [] ReadVarint) (\<lambda>extLen.
          if 0 < extLen
          then rwrap ''extension headers payload: %w'' [] (readNew (unat extLen))
          else rret [])
      else rret [])"

definition nextContent :: "SubgroupObject \<Rightarrow> reader \<Rightarrow> SubgroupObject outcome \<times> reader" where
  "nextContent obj =
     rbind (rwrap ''payload length: %w'' [] ReadVarint) (\<lambda>payloadLen.
       let obj = obj\<lparr>PayloadLen := payloadLen\<rparr> in
       if payloadLen = 0 then
         rbind (rwrap ''object status: %w'' [] ReadVarint) (\<lambda>status.
           rret (obj\<lparr>ObjectStatus := status, IsStatusObject := True\<rparr>))
       else
         rbind (rwrap ''object payload: %w'' [] (readNew (unat payloadLen))) (\<lambda>payload.
           rret (obj\<lparr>Payload := payload, ObjectStatus := ObjectStatusNormal\<rparr>)))"

definition Next ::
    "SubgroupObjectReader \<Rightarrow> reader \<Rightarrow> (SubgroupObject \<times> SubgroupObjectReader) outcome \<times> reader" where
  "Next s =
     rbind ReadVarint (\<lambda>delta.
       let objID = (case prevObjectID s of None \<Rightarrow> delta | Some prev \<Rightarrow> prev + delta + 1) in
       rbind (nextProperties (hasExtensions s)) (\<lambda>propertiesRaw.
       rbind (nextContent
               \<lparr>ObjectID = objID, ObjectIDDelta = delta, ObjectStatus = 0,
                PropertiesRaw = propertiesRaw, Payload = [], PayloadLen = 0,
                IsStatusObject = False\<rparr>) (\<lambda>obj.
         rret (obj, s\<lparr>prevObjectID := Some objID\<rparr>))))"

lemma insens_ParseSubgroupHeader [insens_intros]: "insens (ParseSubgroupHeader t)"
  unfolding ParseSubgroupHeader_def by (intro insens_intros)

lemma advances_ParseSubgroupHeader: "advances 0 (ParseSubgroupHeader t)"
  unfolding ParseSubgroupHeader_def
  by (intro consume_intros advances_weaken [OF advances_readFull]) simp

lemma nopanic_ParseSubgroupHeader [safe_intros]: "nopanic (ParseSubgroupHeader t)"
  unfolding ParseSubgroupHeader_def by (intro safe_intros)

lemma insens_Next [insens_intros]: "insens (Next s)"
  unfolding Next_def nextProperties_def nextContent_def Let_def by (intro insens_intros)

lemma advances_Next: "advances 1 (Next s)"
  unfolding Next_def nextProperties_def nextContent_def Let_def
  by (intro advances_rbind_left consume_intros advances_weaken [OF advances_readNew]) simp_all

interpretation objects: message_source "Next s"
  by unfold_locales (rule insens_Next, rule advances_Next)

subsection \<open>The wire form of headers and objects\<close>

text \<open>The header as the draft lays it out, after the stream type.\<close>

definition headerBytes :: "SubgroupHeader \<Rightarrow> bytes" where
  "headerBytes h = AppendVarint [] (hdrTrackAlias h) @ AppendVarint [] (hdrGroupID h)
     @ (if hdrHasSubgroupID h then AppendVarint [] (hdrSubgroupID h) else [])
     @ [hdrPublisherPriority h]"

text \<open>A header whose flags are those of its type.\<close>

definition wfHeader :: "SubgroupHeader \<Rightarrow> bool" where
  "wfHeader h \<longleftrightarrow> IsSubgroupStreamType (hdrType h)
     \<and> hdrHasSubgroupID h = subgroupHasSubgroupID (hdrType h)
     \<and> hdrHasExtensions h = subgroupHasExtensions (hdrType h)
     \<and> hdrUsesFirstObjectID h = subgroupUsesFirstObjectID (hdrType h)
     \<and> hdrEndOfGroup h = (0x18 \<le> hdrType h)
     \<and> (hdrHasSubgroupID h \<or> hdrSubgroupID h = 0)"

lemma ParseSubgroupHeader_headerBytes [wire_simps]:
  assumes "wfHeader h"
  shows "ParseSubgroupHeader (hdrType h) (mkr (headerBytes h @ rest) e) = (Ok h, mkr rest e)"
proof -
  have "readFull 1 (mkr (x # y) e) = (Ok [x], mkr y e)" for x y
    using readFull_append [of "[x]" 1 y e] by simp
  with assms show ?thesis
    by (cases h) (auto simp: ParseSubgroupHeader_def headerBytes_def wfHeader_def wire_simps)
qed

text \<open>
  An object in front of the next one: the difference to the previous object ID, the extension block
  when the stream has them, the payload length, and the payload or the status.
\<close>

definition idDelta :: "u64 option \<Rightarrow> u64 \<Rightarrow> u64" where
  "idDelta prev i = (case prev of None \<Rightarrow> i | Some p \<Rightarrow> i - p - 1)"

definition objectBytes :: "bool \<Rightarrow> u64 option \<Rightarrow> SubgroupObject \<Rightarrow> bytes" where
  "objectBytes ext prev ob = AppendVarint [] (idDelta prev (ObjectID ob))
     @ (if ext then fieldBytes (PropertiesRaw ob) else [])
     @ (if Payload ob = [] then AppendVarint [] 0 @ AppendVarint [] (ObjectStatus ob)
        else fieldBytes (Payload ob))"

definition wfObject :: "bool \<Rightarrow> u64 option \<Rightarrow> SubgroupObject \<Rightarrow> bool" where
  "wfObject ext prev ob \<longleftrightarrow>
     ObjectIDDelta ob = idDelta prev (ObjectID ob)
     \<and> length (PropertiesRaw ob) \<le> maxAlloc \<and> (ext \<or> PropertiesRaw ob = [])
     \<and> length (Payload ob) \<le> maxAlloc
     \<and> PayloadLen ob = word_of_nat (length (Payload ob))
     \<and> (if Payload ob = [] then IsStatusObject ob
        else \<not> IsStatusObject ob \<and> ObjectStatus ob = ObjectStatusNormal)"

lemma len64_eq_0:
  assumes "n \<le> maxAlloc"
  shows "(word_of_nat n :: u64) = 0 \<longleftrightarrow> n = 0"
proof
  assume "(word_of_nat n :: u64) = 0"
  then have "unat (word_of_nat n :: u64) = 0" by simp
  with unat_len64 [OF assms] show "n = 0" by simp
qed simp

lemma nextProperties_wire [wire_simps]:
  assumes "length props \<le> maxAlloc" and "ext \<or> props = []"
  shows "nextProperties ext (mkr ((if ext then fieldBytes props else []) @ rest) e)
    = (Ok props, mkr rest e)"
proof (cases "ext \<and> props \<noteq> []")
  case True
  then show ?thesis
    using assms(1) len64_eq_0 [OF assms(1)]
    by (simp add: nextProperties_def fieldBytes_def wire_simps unat_len64 word_gt_0)
next
  case False
  with assms(2) have "props = []" by auto
  then show ?thesis by (simp add: nextProperties_def fieldBytes_def wire_simps)
qed

lemma nextContent_status [wire_simps]:
  "nextContent obj (mkr (AppendVarint [] 0 @ AppendVarint [] status @ rest) e) =
     (Ok (obj\<lparr>PayloadLen := 0, ObjectStatus := status, IsStatusObject := True\<rparr>), mkr rest e)"
  by (simp add: nextContent_def wire_simps Let_def)

lemma nextContent_payload [wire_simps]:
  assumes "length p \<le> maxAlloc" and "p \<noteq> []"
  shows "nextContent obj (mkr (fieldBytes p @ rest) e) =
    (Ok (obj\<lparr>PayloadLen := word_of_nat (length p), Payload := p, ObjectStatus := ObjectStatusNormal\<rparr>),
     mkr rest e)"
  using assms len64_eq_0 [OF assms(1)]
  by (simp add: nextContent_def fieldBytes_def wire_simps Let_def unat_len64)

lemma next_id:
  "(case prev of None \<Rightarrow> idDelta prev i | Some p \<Rightarrow> p + idDelta prev i + 1) = i"
  by (simp add: idDelta_def split: option.splits)

lemma Next_objectBytes [wire_simps]:
  assumes "wfObject (hasExtensions s) (prevObjectID s) ob"
  shows "Next s (mkr (objectBytes (hasExtensions s) (prevObjectID s) ob @ rest) e)
    = (Ok (ob, s\<lparr>prevObjectID := Some (ObjectID ob)\<rparr>), mkr rest e)"
proof -
  let ?d = "idDelta (prevObjectID s) (ObjectID ob)"
  define E where "E = (if hasExtensions s then fieldBytes (PropertiesRaw ob) else [])"
  define C where "C = (if Payload ob = [] then AppendVarint [] 0 @ AppendVarint [] (ObjectStatus ob)
        else fieldBytes (Payload ob))"
  have wire: "objectBytes (hasExtensions s) (prevObjectID s) ob @ rest
      = AppendVarint [] ?d @ E @ C @ rest"
    by (simp only: objectBytes_def E_def C_def append_assoc)
  have props: "nextProperties (hasExtensions s) (mkr (E @ x) e) = (Ok (PropertiesRaw ob), mkr x e)" for x
    unfolding E_def using assms by (intro nextProperties_wire) (auto simp: wfObject_def)
  have content: "nextContent \<lparr>ObjectID = ObjectID ob, ObjectIDDelta = ?d, ObjectStatus = 0,
      PropertiesRaw = PropertiesRaw ob, Payload = [], PayloadLen = 0, IsStatusObject = False\<rparr>
      (mkr (C @ rest) e) = (Ok ob, mkr rest e)"
    using assms by (cases ob) (auto simp: C_def wfObject_def wire_simps)
  show ?thesis
    unfolding wire by (simp add: Next_def wire_simps props next_id content Let_def)
qed

interpretation header: wire_format headerBytes "ParseSubgroupHeader t"
    "\<lambda>h. wfHeader h \<and> hdrType h = t"
  by unfold_locales (auto simp: ParseSubgroupHeader_headerBytes insens_ParseSubgroupHeader)

subsection \<open>What the readers return\<close>

lemma returns_ParseSubgroupHeader:
  "returns (\<lambda>h. wfHeader h \<and> hdrType h = t) (ParseSubgroupHeader t)"
proof -
  have sid: "returns (\<lambda>i. subgroupHasSubgroupID t \<or> i = 0)
      (if subgroupHasSubgroupID t then rwrap ''subgroup id: %w'' [] ReadVarint else rret 0)"
    by (intro returns_if) (auto simp: returns_def rret_def)
  show ?thesis
    unfolding ParseSubgroupHeader_def
    by (intro returns_if returns_rerr returns_rbind [OF returns_True] returns_rbind [OF sid] returns_rret)
      (auto simp: wfHeader_def)
qed

text \<open>The content of an object agrees with its length field.\<close>

definition contentOK :: "SubgroupObject \<Rightarrow> bool" where
  "contentOK ob \<longleftrightarrow> length (Payload ob) = unat (PayloadLen ob) \<and> length (Payload ob) \<le> maxAlloc
     \<and> (IsStatusObject ob \<longleftrightarrow> PayloadLen ob = 0)
     \<and> (\<not> IsStatusObject ob \<longrightarrow> ObjectStatus ob = ObjectStatusNormal)"

lemma returns_readNew_alloc: "returns (\<lambda>b. length b = n \<and> n \<le> maxAlloc) (readNew n)"
  using returns_readFull [of n] by (auto simp: returns_def readNew_def split: if_splits)

lemma returns_nextContent:
  assumes "Payload obj = []" and "\<not> IsStatusObject obj"
  shows "returns (\<lambda>ob. contentOK ob \<and> ObjectID ob = ObjectID obj \<and> ObjectIDDelta ob = ObjectIDDelta obj
      \<and> PropertiesRaw ob = PropertiesRaw obj) (nextContent obj)"
  unfolding nextContent_def Let_def
  by (intro returns_rbind [OF returns_True] returns_if returns_rret
      returns_rbind [OF returns_rwrap [OF returns_readNew_alloc]])
    (use assms in \<open>auto simp: contentOK_def\<close>)

lemma returns_Next:
  "returns (\<lambda>(ob, s'). contentOK ob
      \<and> ObjectID ob = (case prevObjectID s of None \<Rightarrow> ObjectIDDelta ob | Some p \<Rightarrow> p + ObjectIDDelta ob + 1)
      \<and> s' = s\<lparr>prevObjectID := Some (ObjectID ob)\<rparr>) (Next s)"
  unfolding Next_def Let_def
  by (intro returns_rbind [OF returns_True] returns_rbind [OF returns_nextContent] returns_rret)
    (auto split: option.splits)

lemma succ_greater:
  fixes p d :: u64
  assumes "unat p + unat d + 1 < 2 ^ 64"
  shows "p < p + d + 1"
proof -
  have "unat (p + d + 1) = unat p + unat d + 1"
    using assms by (simp add: unat_word_ariths)
  then show ?thesis by (simp add: word_less_nat_alt)
qed

lemma type_range:
  fixes n :: nat
  shows "n div 16 = 1 \<and> n mod 8 \<le> 5 \<longleftrightarrow> (16 \<le> n \<and> n \<le> 21) \<or> (24 \<le> n \<and> n \<le> 29)"
proof (cases "16 \<le> n \<and> n < 32")
  case True
  then obtain m where m: "n = 16 + m" "m < 16" by (metis le_Suc_ex nat_add_left_cancel_less numeral_Bit0)
  then have d: "n div 16 = 1" by simp
  have "n mod 8 = m mod 8" using m(1) by (simp add: mod_add_left_eq [symmetric])
  moreover have "m mod 8 = (if m < 8 then m else m - 8)" using m(2) by (simp add: mod_if)
  ultimately show ?thesis using m d by auto
next
  case False
  then have "n div 16 \<noteq> 1" by linarith
  with False show ?thesis by auto
qed

subsection \<open>Properties\<close>

text \<open>The enumerated stream types are bit fields.  The twelve accepted types are exactly
  \<open>0x10 + 8 * e + 2 * m + x\<close> with subgroup ID mode \<open>m < 3\<close>; bit 3 is the end-of-group flag, bit 2
  says that the header carries a subgroup ID, bit 1 that the first object ID is used, bit 0 that
  objects carry extension headers; no type says both where the subgroup ID comes from.\<close>

theorem subgroup_types_are_bit_fields:
  "(IsSubgroupStreamType t \<longleftrightarrow> unat t div 16 = 1 \<and> unat t mod 8 \<le> 5)
   \<and> (IsSubgroupStreamType t \<longrightarrow>
       subgroupHasExtensions t = bit t 0 \<and> subgroupUsesFirstObjectID t = bit t 1
       \<and> subgroupHasSubgroupID t = bit t 2 \<and> (0x18 \<le> t) = bit t 3
       \<and> \<not> (subgroupHasSubgroupID t \<and> subgroupUsesFirstObjectID t))"
proof (intro conjI impI)
  show "IsSubgroupStreamType t \<longleftrightarrow> unat t div 16 = 1 \<and> unat t mod 8 \<le> 5"
    unfolding type_range IsSubgroupStreamType_def by (simp add: word_le_nat_alt)
next
  assume "IsSubgroupStreamType t"
  then have "unat t \<in> {16, 17, 18, 19, 20, 21, 24, 25, 26, 27, 28, 29}"
    by (auto simp: IsSubgroupStreamType_def word_le_nat_alt)
  then have t: "t \<in> {16, 17, 18, 19, 20, 21, 24, 25, 26, 27, 28, 29}"
    by (simp add: word_unat_eq_iff)
  show "subgroupHasExtensions t = bit t 0" "subgroupUsesFirstObjectID t = bit t 1"
    "subgroupHasSubgroupID t = bit t 2" "(0x18 \<le> t) = bit t 3"
    "\<not> (subgroupHasSubgroupID t \<and> subgroupUsesFirstObjectID t)"
    using t by (auto simp: subgroupHasExtensions_def subgroupUsesFirstObjectID_def
        subgroupHasSubgroupID_def subgroup_codes)
qed

theorem subgroup_types_are_bit_fields_witness:
  "IsSubgroupStreamType 0x1d \<and> subgroupHasExtensions 0x1d \<and> subgroupHasSubgroupID 0x1d
   \<and> \<not> subgroupUsesFirstObjectID 0x1d \<and> \<not> IsSubgroupStreamType 0x16"
proof -
  have "IsSubgroupStreamType 0x1d" by (simp add: IsSubgroupStreamType_def)
  then show ?thesis
    using subgroup_types_are_bit_fields [of "0x1d"] subgroup_types_are_bit_fields [of "0x16"] by simp
qed

text \<open>C25: Subgroup headers round trip.  A header laid out as the draft says, for a type of the
  enumeration, is parsed to exactly its fields in whatever chunks it arrives, leaving the first
  object's bytes; and whatever bytes arrive, parsing never panics and a parsed header has the flags
  of its stream type, with subgroup ID 0 where the header carries none.\<close>

theorem subgroup_header_roundtrip:
  assumes "wfHeader h" and "flat r = headerBytes h @ rest"
  shows "(\<exists>r'. ParseSubgroupHeader (hdrType h) r = (Ok h, r') \<and> flat r' = rest \<and> fin r' = fin r)
    \<and> fst (ParseSubgroupHeader t q) \<noteq> Panic
    \<and> (\<forall>h' q'. ParseSubgroupHeader t q = (Ok h', q') \<longrightarrow> wfHeader h' \<and> hdrType h' = t)"
proof -
  have "fst (ParseSubgroupHeader t q) \<noteq> Panic"
    using nopanic_ParseSubgroupHeader by (simp add: nopanic_def)
  moreover have "wfHeader h' \<and> hdrType h' = t" if "ParseSubgroupHeader t q = (Ok h', q')" for h' q'
    using returnsD [OF returns_ParseSubgroupHeader that] .
  moreover have "\<exists>r'. ParseSubgroupHeader (hdrType h) r = (Ok h, r') \<and> flat r' = rest \<and> fin r' = fin r"
    using header.dec_chunked [of h "hdrType h" r rest] assms by blast
  ultimately show ?thesis by blast
qed

theorem subgroup_header_roundtrip_witness:
  "\<exists>r'. ParseSubgroupHeader 0x15 \<lparr>chunks = [[0x02, 0x07], [0x00, 0x80]], fin = ErrEOF\<rparr>
     = (Ok \<lparr>hdrType = 0x15, hdrTrackAlias = 2, hdrGroupID = 7, hdrSubgroupID = 0,
            hdrHasSubgroupID = True, hdrHasExtensions = True, hdrUsesFirstObjectID = False,
            hdrEndOfGroup = False, hdrPublisherPriority = 0x80\<rparr>, r') \<and> flat r' = []"
proof -
  let ?h = "\<lparr>hdrType = 0x15, hdrTrackAlias = 2, hdrGroupID = 7, hdrSubgroupID = 0,
            hdrHasSubgroupID = True, hdrHasExtensions = True, hdrUsesFirstObjectID = False,
            hdrEndOfGroup = False, hdrPublisherPriority = 0x80\<rparr>"
  let ?r = "\<lparr>chunks = [[0x02, 0x07], [0x00, 0x80]], fin = ErrEOF\<rparr>"
  have w: "wfHeader ?h"
    by (simp add: wfHeader_def IsSubgroupStreamType_def subgroupHasExtensions_def
        subgroupUsesFirstObjectID_def subgroupHasSubgroupID_def subgroup_codes)
  have "headerBytes ?h = [0x02, 0x07, 0x00, 0x80]" by code_simp
  then have f: "flat ?r = headerBytes ?h @ []" by (simp add: flat_def)
  show ?thesis using subgroup_header_roundtrip [OF w f, of "0x15" ?r] by auto
qed

text \<open>C8: Objects round trip.  From an object's wire form, with or without an extension block, with a
  payload or a status, \<^verbatim>\<open>Next\<close> recovers every field of the object in whatever chunks it arrives,
  remembers its ID for the next difference, and leaves the bytes of the next object.\<close>

theorem subgroup_object_roundtrip:
  assumes "wfObject (hasExtensions s) (prevObjectID s) ob"
    and "flat r = objectBytes (hasExtensions s) (prevObjectID s) ob @ rest"
  shows "\<exists>r'. Next s r = (Ok (ob, s\<lparr>prevObjectID := Some (ObjectID ob)\<rparr>), r')
    \<and> flat r' = rest \<and> fin r' = fin r"
  by (rule insens_lift [OF insens_Next Next_objectBytes [OF assms(1)] assms(2) refl])

theorem subgroup_object_roundtrip_witness:
  "\<exists>r'. Next \<lparr>hasExtensions = True, prevObjectID = Some 4\<rparr>
          \<lparr>chunks = [[0x02, 0x01], [0xEE, 0x02, 0x61], [0x62, 0x00]], fin = ErrEOF\<rparr>
     = (Ok (\<lparr>ObjectID = 7, ObjectIDDelta = 2, ObjectStatus = 0, PropertiesRaw = [0xEE],
             Payload = [0x61, 0x62], PayloadLen = 2, IsStatusObject = False\<rparr>,
            \<lparr>hasExtensions = True, prevObjectID = Some 7\<rparr>), r') \<and> flat r' = [0x00]"
proof -
  let ?s = "\<lparr>hasExtensions = True, prevObjectID = Some 4\<rparr>"
  let ?o = "\<lparr>ObjectID = 7, ObjectIDDelta = 2, ObjectStatus = 0, PropertiesRaw = [0xEE],
             Payload = [0x61, 0x62], PayloadLen = 2, IsStatusObject = False\<rparr>"
  let ?r = "\<lparr>chunks = [[0x02, 0x01], [0xEE, 0x02, 0x61], [0x62, 0x00]], fin = ErrEOF\<rparr>"
  have w: "wfObject (hasExtensions ?s) (prevObjectID ?s) ?o"
    by (simp add: wfObject_def idDelta_def ObjectStatusNormal_def maxAlloc_def)
  have "objectBytes True (Some 4) ?o = [0x02, 0x01, 0xEE, 0x02, 0x61, 0x62]" by code_simp
  then have f: "flat ?r = objectBytes (hasExtensions ?s) (prevObjectID ?s) ?o @ [0x00]"
    by (simp add: flat_def)
  show ?thesis using subgroup_object_roundtrip [OF w f] by auto
qed

text \<open>C26: What \<^verbatim>\<open>Next\<close> returns.  For whatever bytes arrive, a returned object has a payload of exactly
  its declared length (at most the allocation limit), is a status object exactly when that length
  is zero, has the ID its delta gives relative to the previous one, and that ID is recorded.  IDs
  strictly increase as long as they fit 64 bits; past that the sum wraps around unnoticed.\<close>

theorem Next_result:
  assumes "Next s r = (Ok (ob, s'), r')"
  shows "length (Payload ob) = unat (PayloadLen ob) \<and> length (Payload ob) \<le> maxAlloc
    \<and> (IsStatusObject ob \<longleftrightarrow> PayloadLen ob = 0)
    \<and> (case prevObjectID s of
         None \<Rightarrow> ObjectID ob = ObjectIDDelta ob
       | Some p \<Rightarrow> ObjectID ob = p + ObjectIDDelta ob + 1
           \<and> (unat p + unat (ObjectIDDelta ob) + 1 < 2 ^ 64 \<longrightarrow> p < ObjectID ob))
    \<and> prevObjectID s' = Some (ObjectID ob) \<and> hasExtensions s' = hasExtensions s
    \<and> length (flat r') < length (flat r)"
proof -
  from returnsD [OF returns_Next assms] have "contentOK ob"
    "ObjectID ob = (case prevObjectID s of None \<Rightarrow> ObjectIDDelta ob | Some p \<Rightarrow> p + ObjectIDDelta ob + 1)"
    "s' = s\<lparr>prevObjectID := Some (ObjectID ob)\<rparr>" by auto
  moreover have "length (flat r') < length (flat r)" using assms by (rule objects.next_shrinks)
  ultimately show ?thesis by (auto simp: contentOK_def succ_greater split: option.splits)
qed

theorem Next_result_witness:
  "\<exists>ob s' r'. Next \<lparr>hasExtensions = False, prevObjectID = Some 4\<rparr> (mkr [0x02, 0x01, 0x61] ErrEOF)
      = (Ok (ob, s'), r') \<and> 4 < ObjectID ob \<and> length (Payload ob) = 1"
proof -
  have n: "Next \<lparr>hasExtensions = False, prevObjectID = Some 4\<rparr> (mkr [0x02, 0x01, 0x61] ErrEOF)
      = (Ok (\<lparr>ObjectID = 7, ObjectIDDelta = 2, ObjectStatus = 0, PropertiesRaw = [],
               Payload = [0x61], PayloadLen = 1, IsStatusObject = False\<rparr>,
              \<lparr>hasExtensions = False, prevObjectID = Some 7\<rparr>), mkr [] ErrEOF)" by code_simp
  show ?thesis using Next_result [OF n] n by auto
qed

text \<open>The declared payload length is trusted.  An object that declares more bytes than the runtime
  can allocate panics \<^verbatim>\<open>Next\<close> before a single payload byte has arrived: the length goes straight
  into \<^verbatim>\<open>make([]byte, payloadLen)\<close>.\<close>

theorem Next_panics_on_huge_length:
  assumes "maxAlloc < unat len" and "\<not> hasExtensions s"
  shows "fst (Next s (mkr (AppendVarint [] delta @ AppendVarint [] len @ rest) e)) = Panic"
proof -
  have "len \<noteq> 0" using assms(1) by auto
  with assms show ?thesis
    by (simp add: Next_def nextProperties_def nextContent_def wire_simps Let_def readNew_def)
qed

theorem Next_panics_on_huge_length_witness:
  "fst (Next \<lparr>hasExtensions = False, prevObjectID = None\<rparr>
     (mkr ([0x00] @ [0xFF, 0xFF, 0xFF, 0xFF, 0xFF, 0xFF, 0xFF, 0xFF, 0xFF] @ []) ErrEOF)) = Panic"
proof -
  have e: "AppendVarint [] 0 = [0x00]"
    "AppendVarint [] (NOT 0) = [0xFF, 0xFF, 0xFF, 0xFF, 0xFF, 0xFF, 0xFF, 0xFF, 0xFF]" by code_simp+
  have l: "maxAlloc < unat (NOT 0 :: u64)" by code_simp
  show ?thesis
    using Next_panics_on_huge_length [OF l, of "\<lparr>hasExtensions = False, prevObjectID = None\<rparr>" 0 "[]" ErrEOF]
    unfolding e by simp
qed

text \<open>An object cut off by the end of the stream.  When the stream ends after \<open>k\<close> bytes of the
  payload, \<^verbatim>\<open>Next\<close> fails, but with no payload byte at all the wrapped error is \<^verbatim>\<open>io.EOF\<close>, which
  \<^verbatim>\<open>errors.Is(err, io.EOF)\<close> cannot tell from the end of a complete stream.\<close>

theorem Next_truncated_payload:
  assumes "k < length p" and "length p \<le> maxAlloc" and "\<not> hasExtensions s"
  shows "let err = Wrapf ''object payload: %w'' [] (if k = 0 then ErrEOF else ErrUnexpectedEOF)
    in Next s (mkr (AppendVarint [] delta @ AppendVarint [] (word_of_nat (length p)) @ take k p) ErrEOF)
         = (Err err, mkr [] ErrEOF)
       \<and> (errorsIs err ErrEOF \<longleftrightarrow> k = 0)"
proof -
  have "p \<noteq> []" using assms(1) by auto
  moreover have "take k p = [] \<longleftrightarrow> k = 0" using assms(1) by auto
  ultimately show ?thesis
    using assms len64_eq_0 [OF assms(2)]
    by (auto simp: Next_def nextProperties_def nextContent_def wire_simps Let_def readNew_def
        unat_len64 shortErr_def)
qed

theorem Next_truncated_payload_witness:
  "Next \<lparr>hasExtensions = False, prevObjectID = None\<rparr> (mkr [0x00, 0x03] ErrEOF)
     = (Err (Wrapf ''object payload: %w'' [] ErrEOF), mkr [] ErrEOF)"
proof -
  have e: "AppendVarint [] 0 @ AppendVarint [] (word_of_nat (length [1, 2, 3 :: byte])) @ take 0 [1, 2, 3]
      = [0x00, 0x03]" by code_simp
  show ?thesis
    using Next_truncated_payload [of 0 "[1, 2, 3]" "\<lparr>hasExtensions = False, prevObjectID = None\<rparr>" 0]
    unfolding e by (simp add: maxAlloc_def)
qed

end
