(* ===== verification/Namespace.thy ===== *)
theory Namespace
  imports Codec
begin

text \<open>
  Track namespaces as the user writes them: \<^verbatim>\<open>splitNamespace\<close> of \<^verbatim>\<open>internal/app/run.go\<close> with the two
  functions of Go's \<^verbatim>\<open>strings\<close> package it calls, and \<^verbatim>\<open>Runner.trackNamespace\<close> of
  \<^verbatim>\<open>internal/app/subscriptions.go\<close>.  \<open>joinSlash\<close> is the specification: the fields put back
  together with slashes.
\<close>

subsection \<open>\<^verbatim>\<open>strings.Trim\<close> with a cutset of one character, and \<^verbatim>\<open>strings.Split\<close>\<close>

definition goTrim :: "char \<Rightarrow> string \<Rightarrow> string" where
  "goTrim c s = rev (dropWhile (\<lambda>x. x = c) (rev (dropWhile (\<lambda>x. x = c) s)))"

text \<open>\<^verbatim>\<open>strings.Split\<close> by a separator of one character: one part more than there are separators.\<close>

fun goSplit :: "char \<Rightarrow> string \<Rightarrow> string list" where
  "goSplit c [] = [[]]"
| "goSplit c (x # s) =
     (if x = c then [] # goSplit c s
      else (case goSplit c s of [] \<Rightarrow> [[x]] | p # ps \<Rightarrow> (x # p) # ps))"

subsection \<open>The program's functions\<close>

definition splitNamespace :: "string \<Rightarrow> string list" where
  "splitNamespace ns =
     (let trimmed = goTrim CHR ''/'' ns in
      if trimmed = [] then []
      else filter (\<lambda>p. p \<noteq> []) (goSplit CHR ''/'' trimmed))"

definition trackNamespace :: "string \<Rightarrow> bytes list outcome" where
  "trackNamespace cfgNamespace = EncodeTrackNamespaceFromStrings (splitNamespace cfgNamespace)"

subsection \<open>Lemmas\<close>

fun joinSlash :: "string list \<Rightarrow> string" where
  "joinSlash [] = []"
| "joinSlash [f] = f"
| "joinSlash (f # g # fs) = f @ CHR ''/'' # joinSlash (g # fs)"

lemma goSplit_not_Nil [simp]: "goSplit c s \<noteq> []"
  by (cases s) (auto split: list.splits)

lemma goSplit_parts: "p \<in> set (goSplit c s) \<Longrightarrow> c \<notin> set p"
proof (induction s arbitrary: p)
  case (Cons x s)
  then show ?case by (cases "goSplit c s") (auto split: if_splits)
qed simp

lemma goSplit_chars: "\<Union> (set ` set (goSplit c s)) = set s - {c}"
proof (induction s)
  case (Cons x s)
  then show ?case by (cases "goSplit c s") auto
qed simp

lemma goSplit_append:
  "goSplit c (s @ c # t) = goSplit c s @ goSplit c t"
proof (induction s)
  case (Cons x s)
  then show ?case by (cases "goSplit c s") auto
qed simp

lemma goSplit_plain: "c \<notin> set s \<Longrightarrow> goSplit c s = [s]"
  by (induction s) auto

abbreviation nonEmpty :: "string list \<Rightarrow> string list" where
  "nonEmpty \<equiv> filter (\<lambda>p. p \<noteq> [])"

lemma nonEmpty_split_leading:
  "nonEmpty (goSplit c (dropWhile (\<lambda>x. x = c) s)) = nonEmpty (goSplit c s)"
  by (induction s) auto

lemma nonEmpty_split_snoc: "nonEmpty (goSplit c (s @ [c])) = nonEmpty (goSplit c s)"
  using goSplit_append [of c s "[]"] by simp

lemma nonEmpty_split_trailing:
  "nonEmpty (goSplit c (rev (dropWhile (\<lambda>x. x = c) s))) = nonEmpty (goSplit c (rev s))"
  by (induction s) (auto simp: nonEmpty_split_snoc)

text \<open>Trimming first makes no difference: the empty parts are dropped anyway.\<close>

lemma splitNamespace_eq: "splitNamespace ns = nonEmpty (goSplit CHR ''/'' ns)"
proof -
  have "nonEmpty (goSplit CHR ''/'' (goTrim CHR ''/'' ns)) = nonEmpty (goSplit CHR ''/'' ns)"
    by (simp add: goTrim_def nonEmpty_split_trailing nonEmpty_split_leading)
  then show ?thesis by (auto simp: splitNamespace_def Let_def)
qed

lemma splitNamespace_fields:
  assumes "f \<in> set (splitNamespace ns)"
  shows "f \<noteq> []" and "CHR ''/'' \<notin> set f"
  using assms goSplit_parts by (auto simp: splitNamespace_eq)

lemma splitNamespace_slash:
  "splitNamespace (s @ CHR ''/'' # t) = splitNamespace s @ splitNamespace t"
  by (simp add: splitNamespace_eq goSplit_append)

lemma splitNamespace_field:
  "f \<noteq> [] \<Longrightarrow> CHR ''/'' \<notin> set f \<Longrightarrow> splitNamespace f = [f]"
  by (simp add: splitNamespace_eq goSplit_plain)

lemma splitNamespace_join:
  "\<forall>f\<in>set fs. f \<noteq> [] \<and> CHR ''/'' \<notin> set f \<Longrightarrow> splitNamespace (joinSlash fs) = fs"
proof (induction fs rule: joinSlash.induct)
  case 1
  show ?case by (simp add: splitNamespace_eq)
next
  case (2 f)
  then show ?case by (simp add: splitNamespace_field)
next
  case (3 f g fs)
  then show ?case by (simp add: splitNamespace_slash splitNamespace_field)
qed

lemma trackNamespace_Ok: "trackNamespace ns = Ok (map bytes_of (splitNamespace ns))"
  using splitNamespace_fields(1) [of "[]" ns]
  by (auto simp: trackNamespace_def EncodeTrackNamespaceFromStrings_Ok)

subsection \<open>Properties\<close>

text \<open>C32: Namespaces survive the command line.  Fields that are non-empty and hold no slash come back
  from their slash-joined form, whatever extra slashes stand in front, behind or between them; what
  \<^verbatim>\<open>splitNamespace\<close> returns has only such fields, so the empty-field error of
  \<^verbatim>\<open>EncodeTrackNamespaceFromStrings\<close> can never happen and \<^verbatim>\<open>trackNamespace\<close> always succeeds with
  the bytes of these fields.\<close>

theorem splitNamespace_roundtrip:
  "((\<forall>f\<in>set fs. f \<noteq> [] \<and> CHR ''/'' \<notin> set f) \<longrightarrow>
     splitNamespace (replicate i CHR ''/'' @ joinSlash fs @ replicate j CHR ''/'') = fs)
   \<and> splitNamespace (s @ CHR ''/'' # replicate k CHR ''/'' @ t) = splitNamespace (s @ CHR ''/'' # t)
   \<and> splitNamespace (joinSlash (splitNamespace ns)) = splitNamespace ns
   \<and> trackNamespace ns = Ok (map bytes_of (splitNamespace ns))"
proof -
  have empty: "splitNamespace [] = []" by (simp add: splitNamespace_eq)
  have lead: "splitNamespace (replicate n CHR ''/'' @ u) = splitNamespace u" for n u
    by (induction n) (use splitNamespace_slash [of "[]"] empty in simp_all)
  have trail: "splitNamespace (u @ replicate n CHR ''/'') = splitNamespace u" for n u
    by (induction n arbitrary: u)
      (simp_all add: splitNamespace_slash empty lead [of _ "[]", simplified])
  show ?thesis
    by (auto simp: lead trail splitNamespace_join splitNamespace_slash trackNamespace_Ok
        intro!: splitNamespace_join dest: splitNamespace_fields)
qed

theorem splitNamespace_roundtrip_witness:
  "splitNamespace ''/anon//bbb/'' = [''anon'', ''bbb'']
   \<and> splitNamespace (replicate 1 CHR ''/'' @ joinSlash [''anon'', ''bbb''] @ replicate 2 CHR ''/'') = [''anon'', ''bbb'']
   \<and> trackNamespace ''anon/bbb'' = Ok [bytes_of ''anon'', bytes_of ''bbb'']"
  using splitNamespace_roundtrip [of "[''anon'', ''bbb'']" 1 2 "''/anon''" 1 "''bbb/''" "''anon/bbb''"]
  by (simp add: splitNamespace_def goTrim_def)

end
