(* ===== verification/Chars.thy ===== *)
theory Chars
  imports Prelude
begin

text \<open>
  Characters and texts as Go sees them: ASCII classes, hexadecimal digits, and UTF-8
  (\<^verbatim>\<open>unicode/utf8\<close>).  A Go string is a sequence of bytes that need not be UTF-8.
\<close>

subsection \<open>Characters\<close>

abbreviation quote :: char where "quote \<equiv> CHR 0x22"
abbreviation backslash :: char where "backslash \<equiv> CHR 0x5C"

definition isHex :: "char \<Rightarrow> bool" where
  "isHex c \<longleftrightarrow> (let k = (of_char c :: nat) in 48 \<le> k \<and> k \<le> 57 \<or> 97 \<le> k \<and> k \<le> 102 \<or> 65 \<le> k \<and> k \<le> 70)"

definition hexVal :: "char \<Rightarrow> nat" where
  "hexVal c = (let k = of_char c in if k \<le> 57 then k - 48 else if 97 \<le> k then k - 87 else k - 55)"

definition hex4 :: "char \<Rightarrow> char \<Rightarrow> char \<Rightarrow> char \<Rightarrow> nat" where
  "hex4 a b c d = ((hexVal a * 16 + hexVal b) * 16 + hexVal c) * 16 + hexVal d"

text \<open>\<^verbatim>\<open>utf8.EncodeRune\<close>, and the length of the valid encoding at the front, 0 when there is none.\<close>

definition encodeRune :: "nat \<Rightarrow> string" where
  "encodeRune r =
     (if r < 0x80 then [char_of r]
      else if r < 0x800 then [char_of (0xC0 + r div 64), char_of (0x80 + r mod 64)]
      else if r < 0x10000
      then [char_of (0xE0 + r div 4096), char_of (0x80 + r div 64 mod 64), char_of (0x80 + r mod 64)]
      else [char_of (0xF0 + r div 262144), char_of (0x80 + r div 4096 mod 64),
            char_of (0x80 + r div 64 mod 64), char_of (0x80 + r mod 64)])"

definition within :: "nat \<Rightarrow> nat \<Rightarrow> char \<Rightarrow> bool" where
  "within lo hi c \<longleftrightarrow> lo \<le> of_char c \<and> of_char c \<le> hi"

definition cont :: "char \<Rightarrow> bool" where
  "cont = within 0x80 0xBF"

definition utf8Len :: "string \<Rightarrow> nat" where
  "utf8Len s =
     (case s of
        [] \<Rightarrow> 0
      | a # t \<Rightarrow>
          if within 0 0x7F a then 1
          else (case t of
             [] \<Rightarrow> 0
           | b # u \<Rightarrow>
               if within 0xC2 0xDF a then (if cont b then 2 else 0)
               else (case u of
                  [] \<Rightarrow> 0
                | c # v \<Rightarrow>
                    if within 0xE0 0xE0 a \<and> within 0xA0 0xBF b \<or> within 0xE1 0xEC a \<and> cont b
                      \<or> within 0xED 0xED a \<and> within 0x80 0x9F b \<or> within 0xEE 0xEF a \<and> cont b
                    then (if cont c then 3 else 0)
                    else (case v of
                       [] \<Rightarrow> 0
                     | d # w \<Rightarrow>
                         if (within 0xF0 0xF0 a \<and> within 0x90 0xBF b \<or> within 0xF1 0xF3 a \<and> cont b
                             \<or> within 0xF4 0xF4 a \<and> within 0x80 0x8F b) \<and> cont c \<and> cont d
                         then 4 else 0))))"

definition replacement :: string where
  "replacement = encodeRune 0xFFFD"

text \<open>The code point at the front of a valid encoding.\<close>

definition decodeRune :: "string \<Rightarrow> nat" where
  "decodeRune s = (let code = (\<lambda>i. of_char (s ! i)) in
     case utf8Len s of
       0 \<Rightarrow> 0xFFFD
     | Suc 0 \<Rightarrow> code 0
     | Suc (Suc 0) \<Rightarrow> (code 0 - 0xC0) * 64 + (code 1 - 0x80)
     | Suc (Suc (Suc 0)) \<Rightarrow> ((code 0 - 0xE0) * 64 + (code 1 - 0x80)) * 64 + (code 2 - 0x80)
     | _ \<Rightarrow> (((code 0 - 0xF0) * 64 + (code 1 - 0x80)) * 64 + (code 2 - 0x80)) * 64 + (code 3 - 0x80))"

definition isUpper :: "char \<Rightarrow> bool" where
  "isUpper = within 65 90"

definition isLower :: "char \<Rightarrow> bool" where
  "isLower = within 97 122"

definition isAlnum :: "char \<Rightarrow> bool" where
  "isAlnum c \<longleftrightarrow> isUpper c \<or> isLower c \<or> isDigit c"

text \<open>\<^verbatim>\<open>strings.ToLower\<close> of an ASCII text.\<close>

definition toLower :: "string \<Rightarrow> string" where
  "toLower s = map (\<lambda>c. if isUpper c then char_of (of_char c + 32 :: nat) else c) s"

text \<open>Simple case folding, as far as it matters for a comparison with ASCII names: besides the lower case
  letters, two runes fold to ASCII letters.\<close>

fun foldName :: "string \<Rightarrow> string" where
  "foldName [] = []"
| "foldName (c # s) =
     (if take 2 (c # s) = [CHR 0xC5, CHR 0xBF] then CHR ''S'' # foldName (drop 1 s)
      else if take 3 (c # s) = [CHR 0xE2, CHR 0x84, CHR 0xAA] then CHR ''K'' # foldName (drop 2 s)
      else (if within 97 122 c then char_of (of_char c - 32 :: nat) else c) # foldName s)"

text \<open>\<^verbatim>\<open>strings.Cut\<close> at the first occurrence of a character: the text before it, and what follows it.\<close>

definition cutAt :: "char \<Rightarrow> string \<Rightarrow> string \<times> string option" where
  "cutAt c s = (takeWhile (\<lambda>x. x \<noteq> c) s,
     case dropWhile (\<lambda>x. x \<noteq> c) s of [] \<Rightarrow> None | _ # t \<Rightarrow> Some t)"

lemma char_eq_code: "c = d \<longleftrightarrow> (of_char c :: nat) = of_char d"
  by simp

lemma cutAt_none: "c \<notin> set s \<Longrightarrow> cutAt c s = (s, None)"
  by (induction s) (auto simp: cutAt_def split: if_splits)

lemma cutAt_some: "c \<notin> set s \<Longrightarrow> cutAt c (s @ c # t) = (s, Some t)"
  by (induction s) (auto simp: cutAt_def split: if_splits)

end
