(* ===== verification/Format.thy ===== *)
theory Format
  imports Chars
begin

text \<open>
  The verbs of Go's \<^verbatim>\<open>fmt\<close> package the program formats with, as far as a value of the program
  depends on the text: \<^verbatim>\<open>%d\<close>, \<^verbatim>\<open>%x\<close> and \<^verbatim>\<open>%02x\<close> of integers, \<^verbatim>\<open>%s\<close> and \<^verbatim>\<open>%q\<close> of strings.  \<open>showBase\<close> is the
  positional notation, \<open>readBase\<close> its inverse, so a rendered number determines the number.
\<close>

subsection \<open>Numbers\<close>

definition digitChar :: "nat \<Rightarrow> char" where
  "digitChar d = char_of (if d < 10 then 48 + d else 87 + d)"

definition digitVal :: "char \<Rightarrow> nat" where
  "digitVal c = (let k = of_char c in if k < 58 then k - 48 else k - 87)"

fun showBase :: "nat \<Rightarrow> nat \<Rightarrow> string" where
  "showBase b n =
     (if b < 2 \<or> n < b then [digitChar n] else showBase b (n div b) @ [digitChar (n mod b)])"

declare showBase.simps [simp del]

definition readBase :: "nat \<Rightarrow> string \<Rightarrow> nat" where
  "readBase b s = foldl (\<lambda>a c. a * b + digitVal c) 0 s"

lemma of_char_char_of_small: "k < 256 \<Longrightarrow> of_char (char_of k) = (k :: nat)"
  by simp

lemma digitVal_digitChar [simp]: "d < 16 \<Longrightarrow> digitVal (digitChar d) = d"
  by (auto simp: digitVal_def digitChar_def)

lemma readBase_showBase:
  assumes "2 \<le> b" and "b \<le> 16"
  shows "readBase b (showBase b n) = n"
proof (induction n rule: less_induct)
  case (less n)
  show ?case
  proof (cases "n < b")
    case True
    with assms show ?thesis by (simp add: showBase.simps [of b n] readBase_def)
  next
    case False
    with assms have "n div b < n" by (intro div_less_dividend) auto
    from less.IH [OF this] have IH: "foldl (\<lambda>a c. a * b + digitVal c) 0 (showBase b (n div b)) = n div b"
      by (simp add: readBase_def)
    have "n mod b < 16" using assms mod_less_divisor [of b n] by linarith
    with False assms IH show ?thesis by (simp add: showBase.simps [of b n] readBase_def)
  qed
qed

lemma showBase_inj: "2 \<le> b \<Longrightarrow> b \<le> 16 \<Longrightarrow> showBase b m = showBase b n \<Longrightarrow> m = n"
  by (metis readBase_showBase)

lemma showBase_not_Nil [simp]: "showBase b n \<noteq> []"
  by (simp add: showBase.simps [of b n])

lemma digitChar_range: "d < 10 \<Longrightarrow> of_char (digitChar d) = 48 + d"
  by (simp add: digitChar_def)

lemma showBase_10_digits: "c \<in> set (showBase 10 n) \<Longrightarrow> 48 \<le> (of_char c :: nat) \<and> (of_char c :: nat) \<le> 57"
proof (induction n rule: less_induct)
  case (less n)
  show ?case
  proof (cases "n < 10")
    case True
    with less.prems show ?thesis by (simp add: showBase.simps [of 10 n] digitChar_range)
  next
    case False
    with less.prems have "c \<in> set (showBase 10 (n div 10)) \<or> c = digitChar (n mod 10)"
      by (auto simp: showBase.simps [of 10 n])
    then show ?thesis
    proof
      assume "c \<in> set (showBase 10 (n div 10))"
      with False less.IH [of "n div 10"] show ?thesis by simp
    next
      assume "c = digitChar (n mod 10)"
      then show ?thesis by (simp add: digitChar_range)
    qed
  qed
qed

definition showInt :: "int \<Rightarrow> string" where
  "showInt i = (if i < 0 then CHR ''-'' # showBase 10 (nat (- i)) else showBase 10 (nat i))"

lemma showInt_inj: "showInt i = showInt j \<Longrightarrow> i = j"
proof -
  assume eq: "showInt i = showInt j"
  have minus: "CHR ''-'' \<notin> set (showBase 10 n)" for n
    using showBase_10_digits [of "CHR ''-''" n] by auto
  have mix: "CHR ''-'' # s \<noteq> showBase 10 n" for s n
    using minus [of n] by (metis list.set_intros(1))
  show ?thesis
  proof (cases "i < 0"; cases "j < 0")
    assume "i < 0" "j < 0"
    with eq have "nat (- i) = nat (- j)" by (intro showBase_inj [of 10]) (auto simp: showInt_def)
    with \<open>i < 0\<close> \<open>j < 0\<close> show ?thesis by simp
  next
    assume "i < 0" "\<not> j < 0"
    with eq mix show ?thesis by (simp add: showInt_def)
  next
    assume "\<not> i < 0" "j < 0"
    with eq mix show ?thesis by (metis showInt_def)
  next
    assume "\<not> i < 0" "\<not> j < 0"
    with eq have "nat i = nat j" by (intro showBase_inj [of 10]) (auto simp: showInt_def)
    with \<open>\<not> i < 0\<close> \<open>\<not> j < 0\<close> show ?thesis by simp
  qed
qed

lemma showInt_no_slash: "CHR ''/'' \<notin> set (showInt i)"
  using showBase_10_digits [of "CHR ''/''"] by (auto simp: showInt_def)

subsection \<open>\<^verbatim>\<open>fmt.Sprintf\<close>\<close>

fun fmtD :: "fmt_arg \<Rightarrow> string" where
  "fmtD (FU64 v) = showBase 10 (unat v)"
| "fmtD (FInt i) = showInt i"
| "fmtD _ = []"

fun fmtX :: "fmt_arg \<Rightarrow> string" where
  "fmtX (FU64 v) = showBase 16 (unat v)"
| "fmtX _ = []"

fun fmtS :: "fmt_arg \<Rightarrow> string" where
  "fmtS (FStr s) = s"
| "fmtS (FBytes b) = string_of b"
| "fmtS _ = []"

text \<open>
  \<^verbatim>\<open>strconv.Quote\<close>, the verb \<^verbatim>\<open>%q\<close>.  \<open>printable\<close> is the table of \<^verbatim>\<open>strconv.IsPrint\<close> beyond ASCII.
\<close>

definition hexPad :: "nat \<Rightarrow> nat \<Rightarrow> string" where
  "hexPad w n = (let h = showBase 16 n in replicate (w - length h) (CHR ''0'') @ h)"

definition quoteRune :: "(nat \<Rightarrow> bool) \<Rightarrow> nat \<Rightarrow> string \<Rightarrow> string" where
  "quoteRune printable r enc =
     (if r = 0x22 \<or> r = 0x5C then backslash # enc
      else if (if r < 0x80 then 0x20 \<le> r \<and> r \<le> 0x7E else printable r) then enc
      else backslash #
        (if r = 7 then ''a'' else if r = 8 then ''b'' else if r = 12 then ''f'' else if r = 10 then ''n''
         else if r = 13 then ''r'' else if r = 9 then ''t'' else if r = 11 then ''v''
         else if r < 0x20 \<or> r = 0x7F then CHR ''x'' # hexPad 2 r
         else if r < 0x10000 then CHR ''u'' # hexPad 4 r
         else CHR ''U'' # hexPad 8 r))"

function quoteBody :: "(nat \<Rightarrow> bool) \<Rightarrow> string \<Rightarrow> string" where
  "quoteBody printable [] = []"
| "quoteBody printable (c # s) =
     (let n = utf8Len (c # s) in
      if n = 0 then backslash # CHR ''x'' # hexPad 2 (of_char c) @ quoteBody printable s
      else quoteRune printable (decodeRune (c # s)) (take n (c # s)) @ quoteBody printable (drop (n - 1) s))"
  by pat_completeness auto
termination
  by (relation "measure (\<lambda>(p, s). length s)") auto

definition goQuote :: "(nat \<Rightarrow> bool) \<Rightarrow> string \<Rightarrow> string" where
  "goQuote printable s = quote # quoteBody printable s @ [quote]"

text \<open>
  The format string is scanned once; a verb takes the next argument.  The verb \<^verbatim>\<open>%q\<close> quotes with
  \<open>quoted\<close>; the formats of \<open>sprintf\<close> do not use it.
\<close>

fun sprintfWith :: "(string \<Rightarrow> string) \<Rightarrow> string \<Rightarrow> fmt_arg list \<Rightarrow> string" where
  "sprintfWith quoted [] args = []"
| "sprintfWith quoted [c] args = [c]"
| "sprintfWith quoted (c # v # f) args =
     (if c = CHR ''%'' then
        (case args of
           [] \<Rightarrow> c # v # sprintfWith quoted f []
         | a # args' \<Rightarrow>
             if v = CHR ''0'' \<and> take 2 f = ''2x''
             then (let h = fmtX a in replicate (2 - length h) (CHR ''0'') @ h) @ sprintfWith quoted (drop 2 f) args'
             else (if v = CHR ''d'' then fmtD a else if v = CHR ''x'' then fmtX a
                   else if v = CHR ''q'' then quoted (fmtS a) else fmtS a)
               @ sprintfWith quoted f args')
      else c # sprintfWith quoted (v # f) args)"

abbreviation sprintf :: "string \<Rightarrow> fmt_arg list \<Rightarrow> string" where
  "sprintf \<equiv> sprintfWith (\<lambda>s. s)"

end
