(* ===== verification/Json.thy ===== *)
theory Json
  imports Format "HOL-Library.Sublist"
begin

text \<open>
  The part of Go's \<^verbatim>\<open>encoding/json\<close> the program uses: \<^verbatim>\<open>Unmarshal\<close> into structs of strings, unsigned
  integers, structs and slices, and \<^verbatim>\<open>Indent\<close>.

  A document is lexed into tokens and the tokens are parsed by a machine with a stack of open arrays
  and objects, as the library's scanner does it, with its limit on the depth.  Strings are decoded as
  \<^verbatim>\<open>unquote\<close> does: escapes, surrogate pairs, and the replacement character for what is not UTF-8.
  Member names match fields after case folding.  The texts of the library's errors are not modelled.
\<close>

definition isSpace :: "char \<Rightarrow> bool" where
  "isSpace c \<longleftrightarrow> (of_char c :: nat) \<in> {32, 9, 13, 10}"

subsection \<open>String literals\<close>

text \<open>The literal after its opening quote, still escaped, with what follows the closing quote.\<close>

fun scanRaw :: "string \<Rightarrow> (string \<times> string) option" where
  "scanRaw [] = None"
| "scanRaw (c # s) =
     (if c = quote then Some ([], s)
      else if c = backslash then
        (case s of
           [] \<Rightarrow> None
         | e # t \<Rightarrow>
             if e \<in> {quote, backslash, CHR ''/'', CHR ''b'', CHR ''f'', CHR ''n'', CHR ''r'', CHR ''t''} then
               map_option (\<lambda>(raw, rest). (c # e # raw, rest)) (scanRaw t)
             else if e = CHR ''u'' \<and> 4 \<le> length t \<and> list_all isHex (take 4 t) then
               map_option (\<lambda>(raw, rest). (c # e # take 4 t @ raw, rest)) (scanRaw (drop 4 t))
             else None)
      else if (of_char c :: nat) < 32 then None
      else map_option (\<lambda>(raw, rest). (c # raw, rest)) (scanRaw s))"

text \<open>\<^verbatim>\<open>getu4\<close>: the code unit of an escape \<^verbatim>\<open>\u....\<close> at the front.\<close>

definition getu4 :: "string \<Rightarrow> nat option" where
  "getu4 s = (if 6 \<le> length s \<and> take 2 s = [backslash, CHR ''u''] \<and> list_all isHex (take 4 (drop 2 s))
     then Some (hex4 (s ! 2) (s ! 3) (s ! 4) (s ! 5)) else None)"

definition escaped :: "char \<Rightarrow> char" where
  "escaped e = (if e = CHR ''b'' then CHR 0x08 else if e = CHR ''f'' then CHR 0x0C
     else if e = CHR ''n'' then CHR 0x0A else if e = CHR ''r'' then CHR 0x0D
     else if e = CHR ''t'' then CHR 0x09 else e)"

function unquote :: "string \<Rightarrow> string" where
  "unquote [] = []"
| "unquote (c # s) =
     (if c = backslash then
        (case getu4 (c # s) of
           Some u \<Rightarrow>
             if 0xD800 \<le> u \<and> u < 0xE000 then
               (case getu4 (drop 5 s) of
                  Some v \<Rightarrow>
                    if u < 0xDC00 \<and> 0xDC00 \<le> v \<and> v < 0xE000
                    then encodeRune (0x10000 + (u - 0xD800) * 1024 + (v - 0xDC00)) @ unquote (drop 11 s)
                    else replacement @ unquote (drop 5 s)
                | None \<Rightarrow> replacement @ unquote (drop 5 s))
             else encodeRune u @ unquote (drop 5 s)
         | None \<Rightarrow> (case s of [] \<Rightarrow> [] | e # t \<Rightarrow> escaped e # unquote t))
      else
        (let n = utf8Len (c # s) in
         if n = 0 then replacement @ unquote s else take n (c # s) @ unquote (drop (n - 1) s)))"
  by pat_completeness auto
termination by (relation "measure length") auto

subsection \<open>Tokens\<close>

datatype token = TLBrace | TRBrace | TLBrack | TRBrack | TColon | TComma | TStr string | TNum string
  | TTrue | TFalse | TNull

text \<open>A number: optional minus, integer part without leading zeros, optional fraction and exponent.\<close>

definition digits :: "string \<Rightarrow> string \<times> string" where
  "digits s = (takeWhile isDigit s, dropWhile isDigit s)"

definition scanExp :: "string \<Rightarrow> (string \<times> string) option" where
  "scanExp s =
     (case s of
        [] \<Rightarrow> Some ([], s)
      | e # t \<Rightarrow>
          if e = CHR ''e'' \<or> e = CHR ''E'' then
            (let (sign, t) = (case t of [] \<Rightarrow> ([], t) | x # u \<Rightarrow>
                     if x = CHR ''+'' \<or> x = CHR ''-'' then ([x], u) else ([], t));
                 (ds, rest) = digits t
             in if ds = [] then None else Some (e # sign @ ds, rest))
          else Some ([], s))"

definition scanFrac :: "string \<Rightarrow> (string \<times> string) option" where
  "scanFrac s =
     (case s of
        [] \<Rightarrow> Some ([], s)
      | d # t \<Rightarrow>
          if d = CHR ''.'' then
            (let (ds, rest) = digits t in if ds = [] then None else Some (d # ds, rest))
          else Some ([], s))"

definition scanInt :: "string \<Rightarrow> (string \<times> string) option" where
  "scanInt s =
     (case s of
        [] \<Rightarrow> None
      | d # t \<Rightarrow>
          if d = CHR ''0'' then Some ([d], t)
          else if isDigit d then (let (ds, rest) = digits t in Some (d # ds, rest)) else None)"

definition scanNumber :: "string \<Rightarrow> (string \<times> string) option" where
  "scanNumber s =
     (let (sign, s) = (case s of [] \<Rightarrow> ([], s) | c # t \<Rightarrow> if c = CHR ''-'' then ([c], t) else ([], s)) in
      case scanInt s of
        None \<Rightarrow> None
      | Some (i, s) \<Rightarrow>
          (case scanFrac s of
             None \<Rightarrow> None
           | Some (f, s) \<Rightarrow>
               (case scanExp s of None \<Rightarrow> None | Some (x, s) \<Rightarrow> Some (sign @ i @ f @ x, s))))"

definition punctuation :: "char \<Rightarrow> token option" where
  "punctuation c =
     (if c = CHR ''{'' then Some TLBrace else if c = CHR ''}'' then Some TRBrace
      else if c = CHR ''['' then Some TLBrack else if c = CHR '']'' then Some TRBrack
      else if c = CHR '':'' then Some TColon else if c = CHR '','' then Some TComma else None)"

text \<open>The token at the front of a document that does not begin with a space.\<close>

definition scanToken :: "string \<Rightarrow> (token \<times> string) option" where
  "scanToken s =
     (case s of
        [] \<Rightarrow> None
      | c # t \<Rightarrow>
          (case punctuation c of
             Some p \<Rightarrow> Some (p, t)
           | None \<Rightarrow>
               if c = quote then map_option (\<lambda>(raw, rest). (TStr (unquote raw), rest)) (scanRaw t)
               else if c = CHR ''-'' \<or> isDigit c then map_option (\<lambda>(n, rest). (TNum n, rest)) (scanNumber s)
               else if prefix ''true'' s then Some (TTrue, drop 4 s)
               else if prefix ''false'' s then Some (TFalse, drop 5 s)
               else if prefix ''null'' s then Some (TNull, drop 4 s)
               else None))"

lemma scanRaw_length: "scanRaw s = Some (raw, rest) \<Longrightarrow> length rest < length s"
  by (induction s arbitrary: raw rule: scanRaw.induct) (fastforce split: if_splits list.splits)+

lemma scanNumber_length:
  assumes "scanNumber s = Some (n, rest)"
  shows "length rest < length s"
proof -
  have d: "length (snd (digits t)) \<le> length t" for t by (simp add: digits_def length_dropWhile_le)
  have int: "length r < length t" if "scanInt t = Some (x, r)" for t x r
    using that d [of "tl t"] by (auto simp: scanInt_def split: list.splits if_splits prod.splits)
  have frac: "length r \<le> length t" if "scanFrac t = Some (x, r)" for t x r
    using that d [of "tl t"] by (auto simp: scanFrac_def split: list.splits if_splits prod.splits)
  have exp: "length r \<le> length t" if "scanExp t = Some (x, r)" for t x r
    using that d [of "tl t"] d [of "tl (tl t)"]
    by (auto simp: scanExp_def Let_def split: list.splits if_splits prod.splits)
  show ?thesis
    using assms int frac exp
    by (fastforce simp: scanNumber_def Let_def split: list.splits if_splits option.splits prod.splits)
qed

lemma scanToken_length: "scanToken s = Some (t, rest) \<Longrightarrow> length rest < length s"
  by (auto simp: scanToken_def prefix_def split: list.splits option.splits if_splits
      dest: scanRaw_length scanNumber_length)

function lexJson :: "string \<Rightarrow> token list option" where
  "lexJson [] = Some []"
| "lexJson (c # s) =
     (if isSpace c then lexJson s
      else (case scanToken (c # s) of
              None \<Rightarrow> None
            | Some (t, rest) \<Rightarrow> map_option (\<lambda>ts. t # ts) (lexJson rest)))"
  by pat_completeness auto
termination by (relation "measure length") (auto dest: scanToken_length)

subsection \<open>Values\<close>

datatype json = JNull | JBool bool | JNum string | JStr string | JArr "json list"
  | JObj "(string \<times> json) list"

text \<open>An open array with its elements, or an open object with its members and the name of the next.\<close>

datatype frame = FArr "json list" | FObj "(string \<times> json) list" string

definition maxDepth :: nat where
  "maxDepth = 10000"

fun scalar :: "token \<Rightarrow> json option" where
  "scalar (TStr s) = Some (JStr s)"
| "scalar (TNum n) = Some (JNum n)"
| "scalar TTrue = Some (JBool True)"
| "scalar TFalse = Some (JBool False)"
| "scalar TNull = Some JNull"
| "scalar _ = None"

text \<open>The name of a member and its colon.\<close>

definition memberName :: "token list \<Rightarrow> (string \<times> token list) option" where
  "memberName ts = (case ts of TStr k # TColon # us \<Rightarrow> Some (k, us) | _ \<Rightarrow> None)"

lemma memberName_length: "memberName ts = Some (k, us) \<Longrightarrow> length us < length ts"
  by (auto simp: memberName_def split: list.splits token.splits)

text \<open>The machine before a value, and after one.\<close>

function (sequential) runValue :: "frame list \<Rightarrow> token list \<Rightarrow> json option"
  and runAfter :: "frame list \<Rightarrow> json \<Rightarrow> token list \<Rightarrow> json option" where
  "runValue st [] = None"
| "runValue st (t # ts) =
     (if t = TLBrack then
        if maxDepth \<le> length st then None
        else if ts \<noteq> [] \<and> hd ts = TRBrack then runAfter st (JArr []) (tl ts)
        else runValue (FArr [] # st) ts
      else if t = TLBrace then
        if maxDepth \<le> length st then None
        else if ts \<noteq> [] \<and> hd ts = TRBrace then runAfter st (JObj []) (tl ts)
        else (case memberName ts of Some (k, us) \<Rightarrow> runValue (FObj [] k # st) us | None \<Rightarrow> None)
      else (case scalar t of Some v \<Rightarrow> runAfter st v ts | None \<Rightarrow> None))"
| "runAfter [] v ts = (if ts = [] then Some v else None)"
| "runAfter (f # st) v [] = None"
| "runAfter (FArr vs # st) v (t # ts) =
     (if t = TComma then runValue (FArr (vs @ [v]) # st) ts
      else if t = TRBrack then runAfter st (JArr (vs @ [v])) ts else None)"
| "runAfter (FObj ms k # st) v (t # ts) =
     (if t = TComma then
        (case memberName ts of Some (k', us) \<Rightarrow> runValue (FObj (ms @ [(k, v)]) k' # st) us | None \<Rightarrow> None)
      else if t = TRBrace then runAfter st (JObj (ms @ [(k, v)])) ts else None)"
  by pat_completeness auto
termination
  by (relation "measure (\<lambda>x. case x of Inl (st, ts) \<Rightarrow> length ts | Inr (st, v, ts) \<Rightarrow> length ts)")
    (auto dest: memberName_length simp: less_Suc_eq_le)

definition parseJson :: "string \<Rightarrow> json option" where
  "parseJson s = (case lexJson s of None \<Rightarrow> None | Some ts \<Rightarrow> runValue [] ts)"

subsection \<open>Decoding\<close>

text \<open>
  A decoder takes the value of a member and the struct it is decoded into; \<^verbatim>\<open>null\<close> leaves the field
  alone, a value of another type is an error.  \<open>fields\<close> finds the decoder by the folded name; members
  without a field are ignored.
\<close>

fun decodeMembers :: "(string \<rightharpoonup> (json \<Rightarrow> 'r \<Rightarrow> 'r option)) \<Rightarrow> (string \<times> json) list \<Rightarrow> 'r \<Rightarrow> 'r option" where
  "decodeMembers fields [] r = Some r"
| "decodeMembers fields ((k, v) # ms) r =
     (case fields (foldName k) of
        None \<Rightarrow> decodeMembers fields ms r
      | Some f \<Rightarrow> (case f v r of None \<Rightarrow> None | Some r' \<Rightarrow> decodeMembers fields ms r'))"

definition decodeStruct :: "(string \<rightharpoonup> (json \<Rightarrow> 'r \<Rightarrow> 'r option)) \<Rightarrow> json \<Rightarrow> 'r \<Rightarrow> 'r option" where
  "decodeStruct fields v r = (case v of JObj ms \<Rightarrow> decodeMembers fields ms r | JNull \<Rightarrow> Some r | _ \<Rightarrow> None)"

definition decodeString :: "json \<Rightarrow> string \<Rightarrow> string option" where
  "decodeString v s = (case v of JStr t \<Rightarrow> Some t | JNull \<Rightarrow> Some s | _ \<Rightarrow> None)"

definition decodeUint :: "json \<Rightarrow> 'a::len word \<Rightarrow> 'a word option" where
  "decodeUint v w =
     (case v of
        JNum t \<Rightarrow> if list_all isDigit t \<and> readBase 10 t < 2 ^ LENGTH('a) then Some (word_of_nat (readBase 10 t))
                  else None
      | JNull \<Rightarrow> Some w
      | _ \<Rightarrow> None)"

text \<open>A slice is emptied and every element is appended, decoded into a zero value.\<close>

definition decodeSlice :: "(json \<Rightarrow> 'r option) \<Rightarrow> json \<Rightarrow> 'r list \<Rightarrow> 'r list option" where
  "decodeSlice f v xs = (case v of JArr vs \<Rightarrow> those (map f vs) | JNull \<Rightarrow> Some [] | _ \<Rightarrow> None)"

subsection \<open>\<^verbatim>\<open>Indent\<close>\<close>

text \<open>
  The state of the loop: a line break is due, the depth, inside a string, after a backslash in it, and
  whether the value has begun.  Spaces are dropped before the value and inside it.
\<close>

fun indentLoop :: "bool \<Rightarrow> nat \<Rightarrow> bool \<Rightarrow> bool \<Rightarrow> bool \<Rightarrow> string \<Rightarrow> string" where
  "indentLoop need depth str esc begun [] = []"
| "indentLoop need depth str esc begun (c # s) =
     (if str then
        c # indentLoop need depth (\<not> (c = quote \<and> \<not> esc)) (c = backslash \<and> \<not> esc) True s
      else if isSpace c \<and> (\<not> begun \<or> 0 < depth \<or> need) then indentLoop need depth str esc begun s
      else
        let close = c \<in> {CHR ''}'', CHR '']''};
            break = need \<and> \<not> close;
            depth' = (if break then depth + 1 else depth);
            need' = (need \<and> close);
            line = (\<lambda>d. CHR 0x0A # replicate (2 * d) CHR '' '');
            front = (if break then line depth' else [])
        in if c \<in> {CHR ''{'', CHR ''[''} then front @ c # indentLoop True depth' False False True s
           else if c = CHR '','' then front @ c # line depth' @ indentLoop need' depth' False False True s
           else if c = CHR '':'' then front @ c # CHR '' '' # indentLoop need' depth' False False True s
           else if close then
             (if need' then c # indentLoop False depth' False False True s
              else line (depth' - 1) @ c # indentLoop False (depth' - 1) False False True s)
           else front @ c # indentLoop need' depth' (c = quote) False True s)"

definition jsonIndent :: "string \<Rightarrow> string option" where
  "jsonIndent s = (if parseJson s = None then None else Some (indentLoop False 0 False False False s))"

end
