(* ===== verification/JsonFacts.thy ===== *)
theory JsonFacts
  imports Json
begin

text \<open>
  What \<open>Json\<close> does with a well-formed document: the tokens of a value, written out with any white
  space between them, are lexed to these tokens and parsed to that value.
\<close>

subsection \<open>Texts of tokens\<close>

definition escChar :: "char \<Rightarrow> string" where
  "escChar c =
     (if c = quote \<or> c = backslash then [backslash, c]
      else if (of_char c :: nat) < 32
      then [backslash, CHR ''u'', CHR ''0'', CHR ''0'', digitChar (of_char c div 16), digitChar (of_char c mod 16)]
      else [c])"

definition ascii :: "string \<Rightarrow> bool" where
  "ascii s \<longleftrightarrow> list_all (\<lambda>c. (of_char c :: nat) < 128) s"

definition quoted :: "string \<Rightarrow> string" where
  "quoted s = concat (map escChar s)"

fun tokenText :: "token \<Rightarrow> string" where
  "tokenText TLBrace = ''{''"
| "tokenText TRBrace = ''}''"
| "tokenText TLBrack = ''[''"
| "tokenText TRBrack = '']''"
| "tokenText TColon = '':''"
| "tokenText TComma = '',''"
| "tokenText (TStr s) = quote # quoted s @ [quote]"
| "tokenText (TNum n) = n"
| "tokenText TTrue = ''true''"
| "tokenText TFalse = ''false''"
| "tokenText TNull = ''null''"

lemma isHex_digitChar [simp]: "d < 16 \<Longrightarrow> isHex (digitChar d)"
  by (auto simp: isHex_def digitChar_def Let_def)

lemma hexVal_digitChar [simp]: "d < 16 \<Longrightarrow> hexVal (digitChar d) = d"
  by (auto simp: hexVal_def digitChar_def Let_def)

lemma hex_0 [simp]: "isHex (CHR ''0'')" "hexVal (CHR ''0'') = 0"
  by (simp_all add: isHex_def hexVal_def)

lemma scanRaw_escChar: "scanRaw (escChar c @ s) = map_option (\<lambda>(raw, rest). (escChar c @ raw, rest)) (scanRaw s)"
  by (auto simp: escChar_def split: option.splits)

lemma getu4_Cons:
  "getu4 (backslash # CHR ''u'' # a # b # c # d # s)
    = (if isHex a \<and> isHex b \<and> isHex c \<and> isHex d then Some (hex4 a b c d) else None)"
  by (auto simp: getu4_def)

lemma getu4_other: "e \<noteq> CHR ''u'' \<Longrightarrow> getu4 (backslash # e # s) = None"
  by (simp add: getu4_def)

lemma scanRaw_quoted: "scanRaw (quoted s @ quote # rest) = Some (quoted s, rest)"
proof (induction s)
  case (Cons c s)
  then show ?case by (simp add: quoted_def scanRaw_escChar)
qed (simp add: quoted_def)

lemma unquote_escChar:
  assumes "(of_char c :: nat) < 128"
  shows "unquote (escChar c @ s) = c # unquote s"
proof -
  consider "c = quote \<or> c = backslash" | "c \<noteq> quote" "c \<noteq> backslash" "(of_char c :: nat) < 32"
    | "c \<noteq> backslash" "c \<noteq> quote" "32 \<le> (of_char c :: nat)" by fastforce
  then show ?thesis
  proof cases
    case 1
    then show ?thesis by (auto simp: escChar_def getu4_other escaped_def)
  next
    case 2
    let ?k = "of_char c :: nat"
    have "hex4 (CHR ''0'') (CHR ''0'') (digitChar (?k div 16)) (digitChar (?k mod 16)) = ?k"
      using 2(3) by (simp add: hex4_def)
    then have u: "getu4 (backslash # CHR ''u'' # CHR ''0'' # CHR ''0'' # digitChar (?k div 16) # digitChar (?k mod 16) # s)
        = Some ?k" using 2(3) by (simp add: getu4_Cons)
    have "encodeRune ?k = [c]" using 2(3) by (simp add: encodeRune_def)
    with 2 u show ?thesis by (simp add: escChar_def unquote.simps(2) [of backslash] del: unquote.simps)
  next
    case 3
    with assms show ?thesis by (simp add: escChar_def utf8Len_def within_def)
  qed
qed

lemma unquote_quoted: "ascii s \<Longrightarrow> unquote (quoted s) = s"
proof (induction s)
  case (Cons c s)
  then show ?case using unquote_escChar [of c "quoted s"] by (simp add: quoted_def ascii_def)
qed (simp add: quoted_def)

subsection \<open>Numbers\<close>

lemma digitChar_0: "digitChar 0 = CHR ''0''"
  unfolding char_eq_code by (simp add: digitChar_def)

definition numberEnds :: "string \<Rightarrow> bool" where
  "numberEnds s \<longleftrightarrow> s = [] \<or> (\<not> isDigit (hd s) \<and> hd s \<notin> {CHR ''.'', CHR ''e'', CHR ''E''})"

lemma showBase_10_all: "list_all isDigit (showBase 10 n)"
  using showBase_10_digits [of _ n] by (auto simp: list_all_iff isDigit_def)

lemma showBase_10_hd: "0 < n \<Longrightarrow> hd (showBase 10 n) \<noteq> CHR ''0''"
proof (induction n rule: less_induct)
  case (less n)
  show ?case
  proof (cases "n < 10")
    case True
    have "(of_char (digitChar n) :: nat) = 48 + n" using True by (simp add: digitChar_range)
    moreover have "(of_char (CHR ''0'') :: nat) = 48" by simp
    ultimately have "digitChar n \<noteq> CHR ''0''" using less.prems by (metis add_cancel_left_right less_numeral_extra(3))
    with True show ?thesis by (simp add: showBase.simps [of 10 n])
  next
    case False
    then have "hd (showBase 10 (n div 10)) \<noteq> CHR ''0''" by (intro less.IH) auto
    with False show ?thesis by (simp add: showBase.simps [of 10 n] hd_append)
  qed
qed

lemma digits_append:
  assumes "list_all isDigit ds" and "numberEnds s"
  shows "digits (ds @ s) = (ds, s)"
proof -
  have "takeWhile isDigit s = [] \<and> dropWhile isDigit s = s"
    using assms(2) by (cases s) (auto simp: numberEnds_def)
  with assms(1) show ?thesis by (simp add: digits_def list_all_iff)
qed

lemma scanNumber_showBase:
  assumes "numberEnds s"
  shows "scanNumber (showBase 10 n @ s) = Some (showBase 10 n, s)"
proof -
  obtain d ds where n: "showBase 10 n = d # ds" by (cases "showBase 10 n") simp_all
  have dig: "isDigit d" "list_all isDigit ds" using showBase_10_all [of n] by (simp_all add: n)
  have sign: "d \<noteq> CHR ''-''" using dig(1) by (auto simp: isDigit_def)
  have "scanInt (d # ds @ s) = Some (d # ds, s)"
  proof (cases "n = 0")
    case True
    then have "d = CHR ''0''" "ds = []" using n by (simp_all add: showBase.simps [of 10 0] digitChar_0)
    then show ?thesis by (simp add: scanInt_def)
  next
    case False
    with showBase_10_hd [of n] n have "d \<noteq> CHR ''0''" by simp
    with dig digits_append [OF dig(2) assms] show ?thesis by (simp add: scanInt_def)
  qed
  moreover have "scanFrac s = Some ([], s)" "scanExp s = Some ([], s)"
    using assms by (auto simp: scanFrac_def scanExp_def numberEnds_def split: list.splits)
  ultimately show ?thesis using sign by (simp add: n scanNumber_def)
qed

subsection \<open>Lexing a layout\<close>

text \<open>Tokens, each with the white space after it.\<close>

type_synonym laid = "(token \<times> string) list"

definition layout :: "laid \<Rightarrow> string" where
  "layout l = concat (map (\<lambda>(t, ws). tokenText t @ ws) l)"

fun plainToken :: "token \<Rightarrow> bool" where
  "plainToken (TStr s) = ascii s"
| "plainToken (TNum n) = (\<exists>k. n = showBase 10 k)"
| "plainToken _ = True"

fun_cases plainNumE: "plainToken (TNum n)"

fun isNum :: "token \<Rightarrow> bool" where
  "isNum (TNum n) = True"
| "isNum _ = False"

fun laidOut :: "laid \<Rightarrow> bool" where
  "laidOut [] = True"
| "laidOut ((t, ws) # l) = (list_all isSpace ws \<and> plainToken t
     \<and> (isNum t \<and> ws = [] \<longrightarrow> l = [] \<or> \<not> isNum (fst (hd l))) \<and> laidOut l)"

lemma layout_simps [simp]: "layout [] = []" "layout ((t, ws) # l) = tokenText t @ ws @ layout l"
  by (simp_all add: layout_def)

lemma isSpace_codes: "isSpace c \<longleftrightarrow> c = CHR '' '' \<or> c = CHR 0x09 \<or> c = CHR 0x0D \<or> c = CHR 0x0A"
  unfolding isSpace_def char_eq_code [of c] by simp

lemma lexJson_spaces: "list_all isSpace ws \<Longrightarrow> lexJson (ws @ s) = lexJson s"
  by (induction ws) auto

text \<open>The first character of a token.\<close>

lemma tokenText_hd:
  "plainToken t \<Longrightarrow> \<exists>c cs. tokenText t = c # cs \<and> \<not> isSpace c
     \<and> (\<not> isNum t \<longrightarrow> \<not> isDigit c \<and> c \<notin> {CHR ''.'', CHR ''e'', CHR ''E''})"
proof (cases t)
  case (TNum n)
  assume "plainToken t"
  with TNum obtain k where k: "n = showBase 10 k" by (auto elim: plainNumE)
  obtain d ds where d: "showBase 10 k = d # ds" by (cases "showBase 10 k") simp_all
  have "\<not> isSpace d" using showBase_10_all [of k] by (auto simp: d isDigit_def isSpace_def)
  with TNum k d show ?thesis by simp
qed (simp_all add: isSpace_def isDigit_def)

lemma scanToken_text:
  assumes "plainToken t" and "isNum t \<Longrightarrow> numberEnds s"
  shows "scanToken (tokenText t @ s) = Some (t, s)"
proof (cases t)
  case (TStr x)
  with assms(1) show ?thesis by (simp add: scanToken_def punctuation_def scanRaw_quoted unquote_quoted)
next
  case (TNum n)
  with assms obtain k where k: "n = showBase 10 k" "numberEnds s" by (auto elim!: plainNumE)
  obtain d ds where d: "showBase 10 k = d # ds" by (cases "showBase 10 k") simp_all
  have "isDigit d" using showBase_10_all [of k] by (simp add: d)
  then have "punctuation d = None" "d \<noteq> quote" by (auto simp: punctuation_def isDigit_def)
  with \<open>isDigit d\<close> scanNumber_showBase [OF k(2), of k] show ?thesis by (simp add: TNum k(1) d scanToken_def)
qed (simp_all add: scanToken_def punctuation_def isDigit_def)

lemma lex_layout: "laidOut l \<Longrightarrow> lexJson (layout l) = Some (map fst l)"
proof (induction l)
  case (Cons x l)
  obtain t ws where x: "x = (t, ws)" by (cases x)
  from Cons.prems x have l: "list_all isSpace ws" "plainToken t" "laidOut l"
    "isNum t \<and> ws = [] \<longrightarrow> l = [] \<or> \<not> isNum (fst (hd l))" by auto
  have ends: "numberEnds (ws @ layout l)" if "isNum t"
  proof (cases ws)
    case (Cons w ws')
    with l(1) show ?thesis by (auto simp: numberEnds_def isSpace_codes isDigit_def)
  next
    case Nil
    show ?thesis
    proof (cases l)
      case (Cons y l')
      obtain u us where y: "y = (u, us)" by (cases y)
      with Cons l(3,4) Nil that have "plainToken u" "\<not> isNum u" by auto
      then obtain c cs where "tokenText u = c # cs" "\<not> isDigit c \<and> c \<notin> {CHR ''.'', CHR ''e'', CHR ''E''}"
        using tokenText_hd by blast
      with Nil Cons y show ?thesis by (simp add: numberEnds_def)
    qed (simp add: Nil numberEnds_def)
  qed
  obtain c cs where c: "tokenText t = c # cs" "\<not> isSpace c" using tokenText_hd [OF l(2)] by blast
  have "scanToken (tokenText t @ ws @ layout l) = Some (t, ws @ layout l)"
    using scanToken_text [OF l(2)] ends by simp
  then show ?case
    using c Cons.IH [OF l(3)] lexJson_spaces [OF l(1), of "layout l"] x by simp
qed simp

subsection \<open>Parsing the tokens of a value\<close>

fun commaSep :: "token list list \<Rightarrow> token list" where
  "commaSep [] = []"
| "commaSep [x] = x"
| "commaSep (x # y # xs) = x @ TComma # commaSep (y # xs)"

fun tokensOf :: "json \<Rightarrow> token list" where
  "tokensOf JNull = [TNull]"
| "tokensOf (JBool b) = [if b then TTrue else TFalse]"
| "tokensOf (JNum n) = [TNum n]"
| "tokensOf (JStr s) = [TStr s]"
| "tokensOf (JArr vs) = TLBrack # commaSep (map tokensOf vs) @ [TRBrack]"
| "tokensOf (JObj ms) = TLBrace # commaSep (map (\<lambda>(k, v). TStr k # TColon # tokensOf v) ms) @ [TRBrace]"

text \<open>\<open>fits n v\<close>: at most \<open>n\<close> arrays and objects inside one another.\<close>

fun fits :: "nat \<Rightarrow> json \<Rightarrow> bool" where
  "fits n (JArr vs) = (0 < n \<and> (\<forall>v\<in>set vs. fits (n - 1) v))"
| "fits n (JObj ms) = (0 < n \<and> (\<forall>(k, v)\<in>set ms. fits (n - 1) v))"
| "fits n _ = True"

lemma tokensOf_hd: "\<exists>t ts. tokensOf v = t # ts \<and> t \<noteq> TRBrack"
  by (cases v) auto

lemma run_elements:
  assumes "\<And>v st ts. v \<in> set (w # vs) \<Longrightarrow> length st = n \<Longrightarrow> runValue st (tokensOf v @ ts) = runAfter st v ts"
    and "length st = n - 1" and "0 < n"
  shows "runValue (FArr acc # st) (commaSep (map tokensOf (w # vs)) @ TRBrack # ts)
    = runAfter st (JArr (acc @ w # vs)) ts"
  using assms(1)
proof (induction vs arbitrary: w acc)
  case Nil
  show ?case using Nil [of w "FArr acc # st"] assms(2,3) by simp
next
  case (Cons u vs)
  have "runValue (FArr (acc @ [w]) # st) (commaSep (map tokensOf (u # vs)) @ TRBrack # ts)
      = runAfter st (JArr ((acc @ [w]) @ u # vs)) ts"
    by (rule Cons.IH) (use Cons.prems in auto)
  with Cons.prems [of w "FArr acc # st"] assms(2,3) show ?case by simp
qed

lemma run_members:
  assumes "\<And>k v st ts. (k, v) \<in> set (w # ms) \<Longrightarrow> length st = n \<Longrightarrow> runValue st (tokensOf v @ ts) = runAfter st v ts"
    and "length st = n - 1" and "0 < n"
  shows "runValue (FObj acc (fst w) # st)
      (tokensOf (snd w) @ (if ms = [] then [] else TComma # commaSep (map (\<lambda>(k, v). TStr k # TColon # tokensOf v) ms))
         @ TRBrace # ts) = runAfter st (JObj (acc @ w # ms)) ts"
  using assms(1)
proof (induction ms arbitrary: w acc)
  case Nil
  show ?case using Nil [of "fst w" "snd w" "FObj acc (fst w) # st"] assms(2,3) by simp
next
  case (Cons u ms)
  let ?rest = "\<lambda>ms. if ms = [] then [] else TComma # commaSep (map (\<lambda>(k, v). TStr k # TColon # tokensOf v) ms)"
  have "runValue (FObj (acc @ [w]) (fst u) # st) (tokensOf (snd u) @ ?rest ms @ TRBrace # ts)
      = runAfter st (JObj ((acc @ [w]) @ u # ms)) ts"
    by (rule Cons.IH) (use Cons.prems in auto)
  moreover have "commaSep (map (\<lambda>(k, v). TStr k # TColon # tokensOf v) (u # ms))
      = TStr (fst u) # TColon # tokensOf (snd u) @ ?rest ms"
    by (cases ms) (auto split: prod.splits)
  ultimately show ?case
    using Cons.prems [of "fst w" "snd w" "FObj acc (fst w) # st"] assms(2,3) by (simp add: memberName_def)
qed

lemma run_tokens:
  "fits (maxDepth - length st) v \<Longrightarrow> length st \<le> maxDepth \<Longrightarrow> runValue st (tokensOf v @ ts) = runAfter st v ts"
proof (induction v arbitrary: st ts)
  case (JArr vs)
  then have d: "length st < maxDepth" by simp
  have IH: "runValue st' (tokensOf v @ ts') = runAfter st' v ts'"
    if "v \<in> set vs" "length st' = Suc (length st)" for v st' ts'
    using JArr that by auto
  show ?case
  proof (cases vs)
    case Nil
    with d show ?thesis by simp
  next
    case (Cons w ws)
    obtain t us where t: "tokensOf w = t # us" "t \<noteq> TRBrack" using tokensOf_hd by blast
    then have "\<exists>us'. commaSep (map tokensOf vs) = t # us'" unfolding Cons by (cases ws) auto
    then have "runValue st (tokensOf (JArr vs) @ ts) = runValue (FArr [] # st) (commaSep (map tokensOf vs) @ TRBrack # ts)"
      using d t(2) by auto
    also have "\<dots> = runAfter st (JArr vs) ts"
      unfolding Cons by (subst run_elements [where n = "Suc (length st)"]) (use IH Cons in auto)
    finally show ?thesis .
  qed
next
  case (JObj ms)
  then have d: "length st < maxDepth" by simp
  have IH: "runValue st' (tokensOf v @ ts') = runAfter st' v ts'"
    if "(k, v) \<in> set ms" "length st' = Suc (length st)" for k v st' ts'
    using JObj that by (auto simp: prod_set_defs)
  show ?case
  proof (cases ms)
    case Nil
    with d show ?thesis by simp
  next
    case (Cons w ws)
    let ?rest = "if ws = [] then [] else TComma # commaSep (map (\<lambda>(k, v). TStr k # TColon # tokensOf v) ws)"
    have c: "commaSep (map (\<lambda>(k, v). TStr k # TColon # tokensOf v) ms)
        = TStr (fst w) # TColon # tokensOf (snd w) @ ?rest"
      unfolding Cons by (cases ws) (auto split: prod.splits)
    have "runValue st (tokensOf (JObj ms) @ ts) = runValue (FObj [] (fst w) # st) (tokensOf (snd w) @ ?rest @ TRBrace # ts)"
      using d by (simp add: c memberName_def)
    also have "\<dots> = runAfter st (JObj ([] @ w # ws)) ts"
      by (rule run_members [where n = "Suc (length st)"]) (use IH Cons in auto)
    finally show ?thesis using Cons by simp
  qed
qed simp_all

lemma parse_layout:
  assumes "laidOut l" and "map fst l = tokensOf v" and "fits maxDepth v" and "list_all isSpace lead"
  shows "parseJson (lead @ layout l) = Some v"
  using run_tokens [of "[]" v "[]"] assms by (simp add: parseJson_def lexJson_spaces lex_layout)

subsection \<open>Decoding objects\<close>

text \<open>The members that have a field, with their names folded.\<close>

definition known :: "string list \<Rightarrow> (string \<times> json) list \<Rightarrow> (string \<times> json) list" where
  "known names ms = filter (\<lambda>(k, v). k \<in> set names) (map (\<lambda>(k, v). (foldName k, v)) ms)"

text \<open>Members decoded in the order of the document, and in the order of the names.\<close>

fun applyAll :: "(string \<rightharpoonup> (json \<Rightarrow> 'r \<Rightarrow> 'r option)) \<Rightarrow> (string \<times> json) list \<Rightarrow> 'r \<Rightarrow> 'r option" where
  "applyAll fields [] r = Some r"
| "applyAll fields ((k, v) # ms) r = Option.bind (the (fields k) v r) (\<lambda>r'. applyAll fields ms r')"

fun applyNames :: "(string \<rightharpoonup> (json \<Rightarrow> 'r \<Rightarrow> 'r option)) \<Rightarrow> string list \<Rightarrow> (string \<rightharpoonup> json) \<Rightarrow> 'r \<Rightarrow> 'r option" where
  "applyNames fields [] m r = Some r"
| "applyNames fields (n # ns) m r =
     Option.bind (case m n of None \<Rightarrow> Some r | Some v \<Rightarrow> the (fields n) v r) (\<lambda>r'. applyNames fields ns m r')"

definition commuting :: "(string \<rightharpoonup> (json \<Rightarrow> 'r \<Rightarrow> 'r option)) \<Rightarrow> bool" where
  "commuting fields \<longleftrightarrow> (\<forall>k k' f f' v v' r. k \<noteq> k' \<longrightarrow> fields k = Some f \<longrightarrow> fields k' = Some f' \<longrightarrow>
     Option.bind (f v r) (f' v') = Option.bind (f' v' r) (f v))"

lemma decodeMembers_known:
  assumes "\<And>k. k \<in> set names \<longleftrightarrow> fields k \<noteq> None"
  shows "decodeMembers fields ms r = applyAll fields (known names ms) r"
proof (induction ms arbitrary: r)
  case (Cons m ms)
  obtain k v where m: "m = (k, v)" by (cases m)
  show ?case
    using Cons assms [of "foldName k"]
    by (cases "fields (foldName k)") (auto simp: m known_def split: option.splits)
qed (simp add: known_def)

lemma applyAll_front:
  assumes "commuting fields" and "fields n \<noteq> None"
    and "n \<notin> fst ` set us" and "\<forall>k\<in>fst ` set us. fields k \<noteq> None"
  shows "applyAll fields (us @ (n, v) # vs) r = Option.bind (the (fields n) v r) (applyAll fields (us @ vs))"
  using assms(3,4)
proof (induction us arbitrary: r)
  case (Cons x us)
  obtain k w where x: "x = (k, w)" by (cases x)
  from Cons.prems x have kn: "k \<noteq> n" "n \<notin> fst ` set us" "\<forall>k\<in>fst ` set us. fields k \<noteq> None" by auto
  from Cons.prems(2) x have "fields k \<noteq> None" by simp
  have "applyAll fields (us @ (n, v) # vs) = (\<lambda>r. Option.bind (the (fields n) v r) (applyAll fields (us @ vs)))"
    by (rule ext) (rule Cons.IH [OF kn(2,3)])
  then have "applyAll fields ((x # us) @ (n, v) # vs) r
      = Option.bind (Option.bind (the (fields k) w r) (the (fields n) v)) (applyAll fields (us @ vs))"
    by (simp add: x bind_assoc)
  also have "Option.bind (the (fields k) w r) (the (fields n) v) = Option.bind (the (fields n) v r) (the (fields k) w)"
    using assms(1,2) kn(1) \<open>fields k \<noteq> None\<close> unfolding commuting_def by (metis option.exhaust_sel)
  finally show ?case by (simp add: x bind_assoc)
qed simp

lemma applyNames_cong: "(\<And>n. n \<in> set ns \<Longrightarrow> m n = m' n) \<Longrightarrow> applyNames fields ns m = applyNames fields ns m'"
  by (induction ns) (auto intro!: ext)

lemma applyAll_names:
  assumes "commuting fields" and "\<forall>n\<in>set names. fields n \<noteq> None" and "distinct names"
    and "distinct (map fst l)" and "fst ` set l \<subseteq> set names"
  shows "applyAll fields l r = applyNames fields names (map_of l) r"
  using assms(2-)
proof (induction names arbitrary: l r)
  case (Cons n ns)
  show ?case
  proof (cases "map_of l n")
    case None
    then have "n \<notin> fst ` set l" by (simp add: map_of_eq_None_iff)
    with Cons.prems have "fst ` set l \<subseteq> set ns" by auto
    with Cons None show ?thesis by simp
  next
    case (Some v)
    then obtain us vs where l: "l = us @ (n, v) # vs" by (meson map_of_SomeD split_list)
    with Cons.prems have d: "n \<notin> fst ` set us" "n \<notin> fst ` set vs" "distinct (map fst (us @ vs))"
      "fst ` set (us @ vs) \<subseteq> set ns" by auto
    from Cons.prems l have f: "fields n \<noteq> None" "\<forall>k\<in>fst ` set us. fields k \<noteq> None" by auto
    have "applyAll fields (us @ vs) r' = applyNames fields ns (map_of l) r'" for r'
    proof -
      have "applyAll fields (us @ vs) r' = applyNames fields ns (map_of (us @ vs)) r'"
        using Cons.IH d(3,4) Cons.prems(1,2) by simp
      also have "\<dots> = applyNames fields ns (map_of l) r'"
      proof (rule applyNames_cong [THEN fun_cong])
        fix x assume "x \<in> set ns"
        with Cons.prems(2) have "x \<noteq> n" by auto
        then show "map_of (us @ vs) x = map_of l x" by (simp add: l map_add_def split: option.splits)
      qed
      finally show ?thesis .
    qed
    then have "applyAll fields (us @ vs) = applyNames fields ns (map_of l)" by (rule ext)
    then show ?thesis using applyAll_front [OF assms(1) _ d(1), of v vs r] f Some by (simp add: l)
  qed
qed simp

lemma decode_names:
  assumes "\<And>k. k \<in> set names \<longleftrightarrow> fields k \<noteq> None" and "commuting fields" and "distinct names"
    and "distinct (map fst (known names ms))"
  shows "decodeStruct fields (JObj ms) r = applyNames fields names (map_of (known names ms)) r"
proof -
  have "fst ` set (known names ms) \<subseteq> set names" by (auto simp: known_def)
  moreover have "\<forall>n\<in>set names. fields n \<noteq> None" using assms(1) by simp
  ultimately have "applyAll fields (known names ms) r = applyNames fields names (map_of (known names ms)) r"
    by (intro applyAll_names assms(2-4))
  with decodeMembers_known [where fields = fields and names = names, OF assms(1)]
  show ?thesis by (simp add: decodeStruct_def)
qed

end
