(* ===== verification/Catalog.thy ===== *)
theory Catalog
  imports JsonFacts
begin

text \<open>
  \<^verbatim>\<open>internal/app/catalog.go\<close>: the catalog of a broadcast, and the choice of the tracks to
  subscribe to.  The struct tags of the types are the decoders \<open>rootFields\<close>, \<open>commonFields\<close>, \<open>trackFields\<close>
  and \<open>paramFields\<close> for \<open>Json\<close>.  A loop that returns its first hit is \<open>List.find\<close>.  The printing of the
  catalog to standard error is not modelled.
\<close>

definition catalogTrackName :: string where
  "catalogTrackName = ''.catalog''"

record catalogCommonFields =
  ccNamespace :: string
  ccPackaging :: string

record catalogSelectionParam =
  csCodec :: string
  csWidth :: "32 word"
  csHeight :: "32 word"

record catalogTrack =
  ctName :: string
  ctInitTrack :: string
  ctSelectionParams :: catalogSelectionParam

record catalogRoot =
  Version :: u16
  CommonTrackFields :: catalogCommonFields
  Tracks :: "catalogTrack list"

subsection \<open>Decoding\<close>

definition zeroParam :: catalogSelectionParam where
  "zeroParam = \<lparr>csCodec = [], csWidth = 0, csHeight = 0\<rparr>"

definition zeroTrack :: catalogTrack where
  "zeroTrack = \<lparr>ctName = [], ctInitTrack = [], ctSelectionParams = zeroParam\<rparr>"

definition zeroCommon :: catalogCommonFields where
  "zeroCommon = \<lparr>ccNamespace = [], ccPackaging = []\<rparr>"

definition zeroRoot :: catalogRoot where
  "zeroRoot = \<lparr>Version = 0, CommonTrackFields = zeroCommon, Tracks = []\<rparr>"

definition paramFields :: "string \<rightharpoonup> (json \<Rightarrow> catalogSelectionParam \<Rightarrow> catalogSelectionParam option)" where
  "paramFields k =
     (if k = ''CODEC'' then Some (\<lambda>v r. map_option (\<lambda>x. r\<lparr>csCodec := x\<rparr>) (decodeString v (csCodec r)))
      else if k = ''WIDTH'' then Some (\<lambda>v r. map_option (\<lambda>x. r\<lparr>csWidth := x\<rparr>) (decodeUint v (csWidth r)))
      else if k = ''HEIGHT'' then Some (\<lambda>v r. map_option (\<lambda>x. r\<lparr>csHeight := x\<rparr>) (decodeUint v (csHeight r)))
      else None)"

definition trackFields :: "string \<rightharpoonup> (json \<Rightarrow> catalogTrack \<Rightarrow> catalogTrack option)" where
  "trackFields k =
     (if k = ''NAME'' then Some (\<lambda>v r. map_option (\<lambda>x. r\<lparr>ctName := x\<rparr>) (decodeString v (ctName r)))
      else if k = ''INITTRACK''
      then Some (\<lambda>v r. map_option (\<lambda>x. r\<lparr>ctInitTrack := x\<rparr>) (decodeString v (ctInitTrack r)))
      else if k = ''SELECTIONPARAMS''
      then Some (\<lambda>v r. map_option (\<lambda>x. r\<lparr>ctSelectionParams := x\<rparr>)
                   (decodeStruct paramFields v (ctSelectionParams r)))
      else None)"

definition commonFields :: "string \<rightharpoonup> (json \<Rightarrow> catalogCommonFields \<Rightarrow> catalogCommonFields option)" where
  "commonFields k =
     (if k = ''NAMESPACE'' then Some (\<lambda>v r. map_option (\<lambda>x. r\<lparr>ccNamespace := x\<rparr>) (decodeString v (ccNamespace r)))
      else if k = ''PACKAGING'' then Some (\<lambda>v r. map_option (\<lambda>x. r\<lparr>ccPackaging := x\<rparr>) (decodeString v (ccPackaging r)))
      else None)"

definition rootFields :: "string \<rightharpoonup> (json \<Rightarrow> catalogRoot \<Rightarrow> catalogRoot option)" where
  "rootFields k =
     (if k = ''VERSION'' then Some (\<lambda>v r. map_option (\<lambda>x. r\<lparr>Version := x\<rparr>) (decodeUint v (Version r)))
      else if k = ''COMMONTRACKFIELDS''
      then Some (\<lambda>v r. map_option (\<lambda>x. r\<lparr>CommonTrackFields := x\<rparr>)
                   (decodeStruct commonFields v (CommonTrackFields r)))
      else if k = ''TRACKS''
      then Some (\<lambda>v r. map_option (\<lambda>x. r\<lparr>Tracks := x\<rparr>)
                   (decodeSlice (\<lambda>v. decodeStruct trackFields v zeroTrack) v (Tracks r)))
      else None)"

text \<open>\<^verbatim>\<open>json.Unmarshal(data, &root)\<close> for a zero \<^verbatim>\<open>root\<close>.\<close>

definition unmarshalCatalog :: "bytes \<Rightarrow> catalogRoot outcome" where
  "unmarshalCatalog data =
     (case parseJson (string_of data) of
        None \<Rightarrow> Err (ErrJSON SyntaxFault)
      | Some v \<Rightarrow> (case decodeStruct rootFields v zeroRoot of
                     None \<Rightarrow> Err (ErrJSON TypeFault) | Some root \<Rightarrow> Ok root))"

definition parseCatalog :: "bytes \<Rightarrow> catalogRoot outcome" where
  "parseCatalog data =
     obind (owrap ''parse catalog json: %w'' [] (unmarshalCatalog data)) (\<lambda>root.
       if Version root \<noteq> 1
       then Err (Errorf ''unsupported catalog version: %d'' [FInt (uint (Version root))])
       else Ok root)"

definition formatCatalogJSON :: "bytes \<Rightarrow> string" where
  "formatCatalogJSON data = (case jsonIndent (string_of data) of None \<Rightarrow> string_of data | Some s \<Rightarrow> s)"

subsection \<open>Choosing the tracks\<close>

definition initTrackName :: "catalogRoot \<Rightarrow> string \<Rightarrow> string" where
  "initTrackName r mediaTrack =
     (case (if mediaTrack \<noteq> [] then find (\<lambda>t. ctName t = mediaTrack \<and> ctInitTrack t \<noteq> []) (Tracks r)
            else None) of
        Some t \<Rightarrow> ctInitTrack t
      | None \<Rightarrow>
          (case find (\<lambda>t. ctInitTrack t \<noteq> []) (Tracks r) of
             Some t \<Rightarrow> ctInitTrack t
           | None \<Rightarrow> ''0.mp4''))"

definition isVideo :: "catalogTrack \<Rightarrow> bool" where
  "isVideo t \<longleftrightarrow> prefix ''avc1'' (csCodec (ctSelectionParams t))
     \<or> prefix ''hvc1'' (csCodec (ctSelectionParams t))"

definition resolveMediaTrack :: "catalogRoot \<Rightarrow> string \<Rightarrow> string outcome" where
  "resolveMediaTrack r preferred =
     (if preferred \<noteq> [] then
        (if Tracks r = [] then Ok preferred
         else if find (\<lambda>t. ctName t = preferred) (Tracks r) \<noteq> None then Ok preferred
         else Err (Errorf ''track %q not found in catalog'' [FStr preferred]))
      else
        (case find (\<lambda>t. ctName t \<noteq> catalogTrackName \<and> isVideo t) (Tracks r) of
           Some t \<Rightarrow> Ok (ctName t)
         | None \<Rightarrow>
             (case find (\<lambda>t. ctName t \<noteq> catalogTrackName) (Tracks r) of
                Some t \<Rightarrow> Ok (ctName t)
              | None \<Rightarrow> Err (Errorf ''catalog contains no media tracks'' []))))"

subsection \<open>Lemmas\<close>

lemma find_filter: "find P xs = (case filter P xs of [] \<Rightarrow> None | y # ys \<Rightarrow> Some y)"
  by (induction xs) auto

text \<open>The first element with a property splits the list.\<close>

lemma find_SomeE:
  assumes "find P xs = Some x"
  obtains us vs where "xs = us @ x # vs" and "\<forall>u\<in>set us. \<not> P u" and "P x"
  using assms by (auto simp: find_filter filter_eq_Cons_iff split: list.splits)

lemma initTrackName_nonempty: "initTrackName r m \<noteq> []"
  by (auto simp: initTrackName_def find_Some_iff split: option.splits if_splits)

subsection \<open>Documents that describe a catalog\<close>

text \<open>
  What a document must say for a catalog to be its content, whatever the order and the letter case of
  its members and whatever other members it has: a field is the value of its member, and zero when
  the document has no such member.
\<close>

definition strMember :: "(string \<rightharpoonup> json) \<Rightarrow> string \<Rightarrow> string \<Rightarrow> bool" where
  "strMember m n s \<longleftrightarrow> (case m n of None \<Rightarrow> s = [] | Some v \<Rightarrow> v = JStr s)"

definition numMember :: "(string \<rightharpoonup> json) \<Rightarrow> string \<Rightarrow> 'a::len word \<Rightarrow> bool" where
  "numMember m n w \<longleftrightarrow> (case m n of None \<Rightarrow> w = 0 | Some v \<Rightarrow> v = JNum (showBase 10 (unat w)))"

definition subMember :: "(json \<Rightarrow> 'a \<Rightarrow> bool) \<Rightarrow> 'a \<Rightarrow> (string \<rightharpoonup> json) \<Rightarrow> string \<Rightarrow> 'a \<Rightarrow> bool" where
  "subMember R zero m n x \<longleftrightarrow> (case m n of None \<Rightarrow> x = zero | Some v \<Rightarrow> R v x)"

definition objectOf :: "string list \<Rightarrow> json \<Rightarrow> (string \<rightharpoonup> json) \<Rightarrow> bool" where
  "objectOf names v m \<longleftrightarrow> (\<exists>ms. v = JObj ms \<and> distinct (map fst (known names ms)) \<and> m = map_of (known names ms))"

definition describesParams :: "json \<Rightarrow> catalogSelectionParam \<Rightarrow> bool" where
  "describesParams v p \<longleftrightarrow> (\<exists>m. objectOf [''CODEC'', ''WIDTH'', ''HEIGHT''] v m
     \<and> strMember m ''CODEC'' (csCodec p) \<and> numMember m ''WIDTH'' (csWidth p) \<and> numMember m ''HEIGHT'' (csHeight p))"

definition describesTrack :: "json \<Rightarrow> catalogTrack \<Rightarrow> bool" where
  "describesTrack v t \<longleftrightarrow> (\<exists>m. objectOf [''NAME'', ''INITTRACK'', ''SELECTIONPARAMS''] v m
     \<and> strMember m ''NAME'' (ctName t) \<and> strMember m ''INITTRACK'' (ctInitTrack t)
     \<and> subMember describesParams zeroParam m ''SELECTIONPARAMS'' (ctSelectionParams t))"

definition describesCommon :: "json \<Rightarrow> catalogCommonFields \<Rightarrow> bool" where
  "describesCommon v c \<longleftrightarrow> (\<exists>m. objectOf [''NAMESPACE'', ''PACKAGING''] v m
     \<and> strMember m ''NAMESPACE'' (ccNamespace c) \<and> strMember m ''PACKAGING'' (ccPackaging c))"

definition describesTracks :: "json \<Rightarrow> catalogTrack list \<Rightarrow> bool" where
  "describesTracks v ts \<longleftrightarrow> (\<exists>vs. v = JArr vs \<and> list_all2 describesTrack vs ts)"

definition describesCatalog :: "json \<Rightarrow> catalogRoot \<Rightarrow> bool" where
  "describesCatalog v c \<longleftrightarrow> (\<exists>m. objectOf [''VERSION'', ''COMMONTRACKFIELDS'', ''TRACKS''] v m
     \<and> numMember m ''VERSION'' (Version c)
     \<and> subMember describesCommon zeroCommon m ''COMMONTRACKFIELDS'' (CommonTrackFields c)
     \<and> subMember describesTracks [] m ''TRACKS'' (Tracks c))"

text \<open>The fields of a struct are independent, so the order of the members does not matter.\<close>

lemma bind_mapped: "Option.bind (map_option f a) g = Option.bind a (\<lambda>x. g (f x))"
  by (cases a) simp_all

lemma commutingI:
  assumes "\<And>k k' f f' v v' r. k \<noteq> k' \<Longrightarrow> fs k = Some f \<Longrightarrow> fs k' = Some f' \<Longrightarrow> Option.bind (f v r) (f' v') = Option.bind (f' v' r) (f v)"
  shows "commuting fs"
  unfolding commuting_def using assms by blast

lemma commuting_params: "commuting paramFields"
  by (rule commutingI)
    (simp add: paramFields_def split: if_split_asm; clarify; simp add: bind_mapped split: bind_split)

lemma commuting_tracks: "commuting trackFields"
  by (rule commutingI)
    (simp add: trackFields_def split: if_split_asm; clarify; simp add: bind_mapped split: bind_split)

lemma commuting_common: "commuting commonFields"
  by (rule commutingI)
    (simp add: commonFields_def split: if_split_asm; clarify; simp add: bind_mapped split: bind_split)

lemma commuting_root: "commuting rootFields"
  by (rule commutingI)
    (simp add: rootFields_def split: if_split_asm; clarify; simp add: bind_mapped split: bind_split)

lemma decode_object:
  assumes "objectOf names v m" and "\<And>k. k \<in> set names \<longleftrightarrow> fs k \<noteq> None" and "commuting fs" and "distinct names"
  shows "decodeStruct fs v r = applyNames fs names m r"
  using assms decode_names [OF assms(2) assms(3,4)] by (auto simp: objectOf_def)

lemma decodeUint_show: "decodeUint (JNum (showBase 10 (unat w))) z = Some w"
  using unsigned_less [of w] by (simp add: decodeUint_def showBase_10_all readBase_showBase)

lemma decode_params: "describesParams v p \<Longrightarrow> decodeStruct paramFields v zeroParam = Some p"
proof -
  assume "describesParams v p"
  then obtain m where m: "objectOf [''CODEC'', ''WIDTH'', ''HEIGHT''] v m" "strMember m ''CODEC'' (csCodec p)"
    "numMember m ''WIDTH'' (csWidth p)" "numMember m ''HEIGHT'' (csHeight p)" by (auto simp: describesParams_def)
  have "decodeStruct paramFields v zeroParam = applyNames paramFields [''CODEC'', ''WIDTH'', ''HEIGHT''] m zeroParam"
    by (rule decode_object [OF m(1) _ commuting_params]) (auto simp: paramFields_def)
  also have "\<dots> = Some p"
    using m(2-) by (auto simp: paramFields_def strMember_def numMember_def decodeString_def decodeUint_show zeroParam_def
        split: option.splits)
  finally show ?thesis .
qed

lemma decode_track: "describesTrack v t \<Longrightarrow> decodeStruct trackFields v zeroTrack = Some t"
proof -
  assume "describesTrack v t"
  then obtain m where m: "objectOf [''NAME'', ''INITTRACK'', ''SELECTIONPARAMS''] v m" "strMember m ''NAME'' (ctName t)"
    "strMember m ''INITTRACK'' (ctInitTrack t)" "subMember describesParams zeroParam m ''SELECTIONPARAMS'' (ctSelectionParams t)"
    by (auto simp: describesTrack_def)
  have "decodeStruct trackFields v zeroTrack
      = applyNames trackFields [''NAME'', ''INITTRACK'', ''SELECTIONPARAMS''] m zeroTrack"
    by (rule decode_object [OF m(1) _ commuting_tracks]) (auto simp: trackFields_def)
  also have "\<dots> = Some t"
    using m(2-) by (auto simp: trackFields_def strMember_def subMember_def decodeString_def decode_params zeroTrack_def
        split: option.splits)
  finally show ?thesis .
qed

lemma decode_common: "describesCommon v c \<Longrightarrow> decodeStruct commonFields v zeroCommon = Some c"
proof -
  assume "describesCommon v c"
  then obtain m where m: "objectOf [''NAMESPACE'', ''PACKAGING''] v m" "strMember m ''NAMESPACE'' (ccNamespace c)"
    "strMember m ''PACKAGING'' (ccPackaging c)" by (auto simp: describesCommon_def)
  have "decodeStruct commonFields v zeroCommon = applyNames commonFields [''NAMESPACE'', ''PACKAGING''] m zeroCommon"
    by (rule decode_object [OF m(1) _ commuting_common]) (auto simp: commonFields_def)
  also have "\<dots> = Some c"
    using m(2-) by (auto simp: commonFields_def strMember_def decodeString_def zeroCommon_def split: option.splits)
  finally show ?thesis .
qed

lemma decode_tracks:
  "list_all2 describesTrack vs ts \<Longrightarrow> those (map (\<lambda>v. decodeStruct trackFields v zeroTrack) vs) = Some ts"
  by (induction vs ts rule: list_all2_induct) (simp_all add: decode_track)

lemma decode_catalog: "describesCatalog v c \<Longrightarrow> decodeStruct rootFields v zeroRoot = Some c"
proof -
  assume "describesCatalog v c"
  then obtain m where m: "objectOf [''VERSION'', ''COMMONTRACKFIELDS'', ''TRACKS''] v m" "numMember m ''VERSION'' (Version c)"
    "subMember describesCommon zeroCommon m ''COMMONTRACKFIELDS'' (CommonTrackFields c)"
    "subMember describesTracks [] m ''TRACKS'' (Tracks c)" by (auto simp: describesCatalog_def)
  have "decodeStruct rootFields v zeroRoot
      = applyNames rootFields [''VERSION'', ''COMMONTRACKFIELDS'', ''TRACKS''] m zeroRoot"
    by (rule decode_object [OF m(1) _ commuting_root]) (auto simp: rootFields_def)
  also have "\<dots> = Some c"
    using m(2-) by (auto simp: rootFields_def numMember_def subMember_def describesTracks_def decodeUint_show
        decode_common decode_tracks decodeSlice_def zeroRoot_def split: option.splits)
  finally show ?thesis .
qed

subsection \<open>Properties\<close>





text \<open>The init track.  It is named by the first listed track of the chosen media name that names
  one, else by the first track that names one, else it is \<^verbatim>\<open>0.mp4\<close>; so the init track to subscribe
  to always has a name, and only catalogs without any init track fall back.\<close>

theorem initTrackName_spec:
  "initTrackName r m =
     (case filter (\<lambda>t. m \<noteq> [] \<and> ctName t = m \<and> ctInitTrack t \<noteq> []) (Tracks r)
           @ filter (\<lambda>t. ctInitTrack t \<noteq> []) (Tracks r) of
        [] \<Rightarrow> ''0.mp4'' | t # ts \<Rightarrow> ctInitTrack t)
   \<and> initTrackName r m \<noteq> []"
proof -
  have "initTrackName r m = (case filter (\<lambda>t. m \<noteq> [] \<and> ctName t = m \<and> ctInitTrack t \<noteq> []) (Tracks r)
           @ filter (\<lambda>t. ctInitTrack t \<noteq> []) (Tracks r) of [] \<Rightarrow> ''0.mp4'' | t # ts \<Rightarrow> ctInitTrack t)"
    by (cases "m = []") (auto simp: initTrackName_def find_filter split: list.splits)
  with initTrackName_nonempty [of r m] show ?thesis by simp
qed

theorem initTrackName_spec_witness:
  "initTrackName \<lparr>Version = 1, CommonTrackFields = \<lparr>ccNamespace = [], ccPackaging = []\<rparr>,
     Tracks = [\<lparr>ctName = ''a'', ctInitTrack = ''a.mp4'',
                ctSelectionParams = \<lparr>csCodec = [], csWidth = 0, csHeight = 0\<rparr>\<rparr>,
               \<lparr>ctName = ''b'', ctInitTrack = ''b.mp4'',
                ctSelectionParams = \<lparr>csCodec = [], csWidth = 0, csHeight = 0\<rparr>\<rparr>]\<rparr> ''b'' = ''b.mp4''"
  using initTrackName_spec [of "\<lparr>Version = 1, CommonTrackFields = \<lparr>ccNamespace = [], ccPackaging = []\<rparr>,
     Tracks = [\<lparr>ctName = ''a'', ctInitTrack = ''a.mp4'',
                ctSelectionParams = \<lparr>csCodec = [], csWidth = 0, csHeight = 0\<rparr>\<rparr>,
               \<lparr>ctName = ''b'', ctInitTrack = ''b.mp4'',
                ctSelectionParams = \<lparr>csCodec = [], csWidth = 0, csHeight = 0\<rparr>\<rparr>]\<rparr>" "''b''"]
  by simp

end
