(* ===== verification/ErrorNames.thy ===== *)
theory ErrorNames
  imports Format
begin

text \<open>
  \<^verbatim>\<open>internal/moqt/draft18/errors.go\<close>: the display name of a REQUEST_ERROR code.
\<close>

definition RequestErrorCodeName :: "u64 \<Rightarrow> string" where
  "RequestErrorCodeName code =
     (if code = 0x0 then ''INTERNAL_ERROR''
      else if code = 0x1 then ''UNAUTHORIZED''
      else if code = 0x2 then ''TIMEOUT''
      else if code = 0x3 then ''NOT_SUPPORTED''
      else if code = 0x4 then ''MALFORMED_AUTH_TOKEN''
      else if code = 0x5 then ''EXPIRED_AUTH_TOKEN''
      else if code = 0x6 then ''GOING_AWAY''
      else if code = 0x9 then ''EXCESSIVE_LOAD''
      else if code = 0x10 then ''DOES_NOT_EXIST''
      else if code = 0x11 then ''INVALID_RANGE''
      else if code = 0x12 then ''MALFORMED_TRACK''
      else if code = 0x19 then ''DUPLICATE_SUBSCRIPTION''
      else if code = 0x20 then ''UNINTERESTED''
      else if code = 0x30 then ''PREFIX_OVERLAP''
      else if code = 0x31 then ''NAMESPACE_TOO_LARGE''
      else if code = 0x32 then ''INVALID_JOINING_REQUEST_ID''
      else if code = 0x33 then ''UNSUPPORTED_EXTENSION''
      else if code = 0x34 then ''REDIRECT''
      else sprintf ''UNKNOWN_0x%x'' [FU64 code])"

text \<open>The switch as a table.\<close>

definition errorCodeTable :: "(u64 \<times> string) list" where
  "errorCodeTable =
     [(0x0, ''INTERNAL_ERROR''), (0x1, ''UNAUTHORIZED''), (0x2, ''TIMEOUT''),
      (0x3, ''NOT_SUPPORTED''), (0x4, ''MALFORMED_AUTH_TOKEN''), (0x5, ''EXPIRED_AUTH_TOKEN''),
      (0x6, ''GOING_AWAY''), (0x9, ''EXCESSIVE_LOAD''), (0x10, ''DOES_NOT_EXIST''),
      (0x11, ''INVALID_RANGE''), (0x12, ''MALFORMED_TRACK''), (0x19, ''DUPLICATE_SUBSCRIPTION''),
      (0x20, ''UNINTERESTED''), (0x30, ''PREFIX_OVERLAP''), (0x31, ''NAMESPACE_TOO_LARGE''),
      (0x32, ''INVALID_JOINING_REQUEST_ID''), (0x33, ''UNSUPPORTED_EXTENSION''),
      (0x34, ''REDIRECT'')]"

lemma sprintf_unknown:
  "sprintf ''UNKNOWN_0x%x'' [FU64 code] = ''UNKNOWN_0x'' @ showBase 16 (unat code)"
  by simp

lemma RequestErrorCodeName_table:
  "RequestErrorCodeName code =
     (case map_of errorCodeTable code of
        Some n \<Rightarrow> n
      | None \<Rightarrow> ''UNKNOWN_0x'' @ showBase 16 (unat code))"
  unfolding RequestErrorCodeName_def errorCodeTable_def sprintf_unknown map_of.simps
  by (simp del: of_char_def)

lemma map_of_injective:
  assumes "distinct (map snd t)" and "map_of t a = Some x" and "map_of t b = Some x"
  shows "a = b"
  using assms by (induction t) (auto split: if_splits dest!: map_of_SomeD intro: rev_image_eqI)

lemma errorCodeTable_names:
  "distinct (map snd errorCodeTable)"
  "\<forall>n\<in>set (map snd errorCodeTable). take 10 n \<noteq> ''UNKNOWN_0x''"
  by (simp_all add: errorCodeTable_def)

text \<open>The display name determines the code: two different REQUEST_ERROR codes never print the
  same name, known or unknown.\<close>

theorem RequestErrorCodeName_injective:
  "RequestErrorCodeName a = RequestErrorCodeName b \<longleftrightarrow> a = b"
proof
  assume eq: "RequestErrorCodeName a = RequestErrorCodeName b"
  have known: "take 10 n \<noteq> ''UNKNOWN_0x''" if "map_of errorCodeTable c = Some n" for c n
    using errorCodeTable_names(2) map_of_SomeD [OF that] by force
  have unknown: "take 10 (''UNKNOWN_0x'' @ s) = ''UNKNOWN_0x''" for s by simp
  show "a = b"
  proof (cases "map_of errorCodeTable a"; cases "map_of errorCodeTable b")
    assume "map_of errorCodeTable a = None" "map_of errorCodeTable b = None"
    with eq have "showBase 16 (unat a) = showBase 16 (unat b)"
      by (simp add: RequestErrorCodeName_table)
    then have "unat a = unat b" by (rule showBase_inj [rotated 2]) simp_all
    then show ?thesis by (simp only: word_unat_eq_iff)
  next
    fix n assume "map_of errorCodeTable a = None" "map_of errorCodeTable b = Some n"
    with eq known unknown show ?thesis by (metis RequestErrorCodeName_table option.simps(4,5))
  next
    fix n assume "map_of errorCodeTable a = Some n" "map_of errorCodeTable b = None"
    with eq known unknown show ?thesis by (metis RequestErrorCodeName_table option.simps(4,5))
  next
    fix m n assume "map_of errorCodeTable a = Some m" "map_of errorCodeTable b = Some n"
    with eq show ?thesis
      by (intro map_of_injective [OF errorCodeTable_names(1)]) (simp_all add: RequestErrorCodeName_table)
  qed
qed simp

end
