(* ===== verification/Registry.thy ===== *)
theory Registry
  imports WireTypes ErrorNames
begin

text \<open>
  The subscriptions of a session, \<^verbatim>\<open>internal/app/subscriptions.go\<close> lines 17-123: track roles,
  subscriptions, and the registry that finds the subscription a data stream belongs to.

  A \<^verbatim>\<open>*trackSubscription\<close> is a \<open>subref\<close>, an address in the session's store of subscriptions (theory
  Runner), because both maps of the registry and the goroutines share the object; \<open>None\<close> is \<^verbatim>\<open>nil\<close>.
  A buffered channel is the list of the values it holds.  Every method of the registry runs under
  its mutex, so it is one atomic function of the registry.

  The locale \<open>delivery_table\<close> is what the message loops rely on: how registering a request and
  binding an alias change what \<^verbatim>\<open>lookupDelivery\<close> finds.  Its lemma \<open>lookup_history\<close> reads the answer
  off the operations performed so far.
\<close>

subsection \<open>Roles and subscriptions\<close>

datatype trackRole = roleCatalog | roleInit | roleMedia | roleOther int

fun roleString :: "trackRole \<Rightarrow> string" where
  "roleString roleCatalog = ''catalog''"
| "roleString roleInit = ''init''"
| "roleString roleMedia = ''media''"
| "roleString (roleOther i) = sprintf ''unknown(%d)'' [FInt i]"

record subscribeResult =
  resAlias :: u64
  resErr :: "gerr option"

type_synonym subref = nat

record trackSubscription =
  subRequestID :: u64
  subNamespace :: string
  subTrackName :: string
  subRole :: trackRole
  subStream :: "u64 option"
  okCh :: "subscribeResult list"
  firstObjCh :: "bytes list option"
  gotFirst :: bool

definition formatSubscribeRejectError ::
    "string \<Rightarrow> string \<Rightarrow> trackRole \<Rightarrow> RequestErrorMessage \<Rightarrow> gerr" where
  "formatSubscribeRejectError ns track role reqErr =
     Errorf ''subscribe rejected namespace=%q track=%q role=%s code=%d (%s) retry=%d reason=%q''
       [FStr ns, FStr track, FStr (roleString role), FU64 (errCode reqErr),
        FStr (RequestErrorCodeName (errCode reqErr)), FU64 (errRetryInterval reqErr),
        FStr (errReason reqErr)]"

subsection \<open>The registry\<close>

record subscriptionRegistry =
  byRequest :: "u64 \<rightharpoonup> subref"
  byAlias :: "u64 \<rightharpoonup> subref"
  nextID :: u64

definition newSubscriptionRegistry :: subscriptionRegistry where
  "newSubscriptionRegistry = \<lparr>byRequest = Map.empty, byAlias = Map.empty, nextID = 0\<rparr>"

definition allocRequestID :: "subscriptionRegistry \<Rightarrow> u64 \<times> subscriptionRegistry" where
  "allocRequestID reg = (let i = nextID reg in (i, reg\<lparr>nextID := nextID reg + 2\<rparr>))"

definition register :: "subscriptionRegistry \<Rightarrow> u64 \<Rightarrow> subref \<Rightarrow> subscriptionRegistry" where
  "register reg requestID sub = reg\<lparr>byRequest := (byRequest reg)(requestID \<mapsto> sub)\<rparr>"

definition bindAlias :: "subscriptionRegistry \<Rightarrow> subref \<Rightarrow> u64 \<Rightarrow> subscriptionRegistry" where
  "bindAlias reg sub alias = reg\<lparr>byAlias := (byAlias reg)(alias \<mapsto> sub)\<rparr>"

definition lookupAlias :: "subscriptionRegistry \<Rightarrow> u64 \<Rightarrow> subref option" where
  "lookupAlias reg alias = byAlias reg alias"

definition lookupDelivery :: "subscriptionRegistry \<Rightarrow> u64 \<Rightarrow> subref option \<times> bool" where
  "lookupDelivery reg trackAlias =
     (case byAlias reg trackAlias of
        Some sub \<Rightarrow> (Some sub, False)
      | None \<Rightarrow>
          (case byRequest reg trackAlias of
             Some sub \<Rightarrow> (Some sub, True)
           | None \<Rightarrow> (None, False)))"

subsection \<open>The interface of the registry\<close>

text \<open>The operations of a session on its registry, in the order they take the mutex.\<close>

datatype 'sub regop = AllocID | RegisterReq u64 'sub | BindTo 'sub u64

locale delivery_table =
  fixes new :: 'reg
    and alloc :: "'reg \<Rightarrow> u64 \<times> 'reg"
    and reg :: "'reg \<Rightarrow> u64 \<Rightarrow> 'sub \<Rightarrow> 'reg"
    and bind_alias :: "'reg \<Rightarrow> 'sub \<Rightarrow> u64 \<Rightarrow> 'reg"
    and lookup :: "'reg \<Rightarrow> u64 \<Rightarrow> 'sub option \<times> bool"
  assumes lookup_new: "lookup new a = (None, False)"
    and lookup_alloc: "lookup (snd (alloc g)) a = lookup g a"
    and lookup_reg: "lookup (reg g i s) a =
      (if a = i \<and> (snd (lookup g a) \<or> fst (lookup g a) = None) then (Some s, True) else lookup g a)"
    and lookup_bind: "lookup (bind_alias g s b) a = (if a = b then (Some s, False) else lookup g a)"
begin

fun perform :: "'sub regop \<Rightarrow> 'reg \<Rightarrow> 'reg" where
  "perform AllocID g = snd (alloc g)"
| "perform (RegisterReq i s) g = reg g i s"
| "perform (BindTo s a) g = bind_alias g s a"

definition bound :: "u64 \<Rightarrow> 'sub regop list \<Rightarrow> 'sub list" where
  "bound a ops = [s. BindTo s b \<leftarrow> ops, b = a]"

definition registered :: "u64 \<Rightarrow> 'sub regop list \<Rightarrow> 'sub list" where
  "registered a ops = [s. RegisterReq i s \<leftarrow> ops, i = a]"

lemma lookup_history:
  "lookup (fold perform ops new) a =
     (if bound a ops \<noteq> [] then (Some (last (bound a ops)), False)
      else if registered a ops \<noteq> [] then (Some (last (registered a ops)), True)
      else (None, False))"
proof (induction ops rule: rev_induct)
  case Nil
  show ?case by (simp add: bound_def registered_def lookup_new)
next
  case (snoc x ops)
  then show ?case
    by (cases x) (auto simp: bound_def registered_def lookup_alloc lookup_reg lookup_bind)
qed

text \<open>A bound alias stays with its subscription until it is bound again.\<close>

lemma lookup_bound_stays:
  "bound a ops' = [] \<Longrightarrow> lookup (fold perform (ops @ BindTo s a # ops') new) a = (Some s, False)"
  using lookup_history [of "ops @ BindTo s a # ops'" a] by (simp add: bound_def)

end

interpretation deliveries: delivery_table newSubscriptionRegistry allocRequestID register
  bindAlias lookupDelivery
  by unfold_locales
    (auto simp: newSubscriptionRegistry_def allocRequestID_def register_def bindAlias_def
      lookupDelivery_def split: option.splits)

text \<open>The operations on the program's registry, as steps.\<close>

fun regStep :: "subref regop \<Rightarrow> subscriptionRegistry \<Rightarrow> subscriptionRegistry" where
  "regStep AllocID reg = snd (allocRequestID reg)"
| "regStep (RegisterReq i s) reg = register reg i s"
| "regStep (BindTo s a) reg = bindAlias reg s a"

lemma perform_regStep: "deliveries.perform = regStep"
proof (intro ext)
  show "deliveries.perform x reg = regStep x reg" for x reg by (cases x) simp_all
qed

subsection \<open>Request IDs\<close>

text \<open>The identifiers handed out while a list of operations is performed.\<close>

fun idsOf :: "subref regop list \<Rightarrow> subscriptionRegistry \<Rightarrow> u64 list" where
  "idsOf [] reg = []"
| "idsOf (x # ops) reg =
     (case x of AllocID \<Rightarrow> [fst (allocRequestID reg)] | _ \<Rightarrow> []) @ idsOf ops (regStep x reg)"

lemma nextID_perform [simp]:
  "nextID (regStep x reg) = (if x = AllocID then nextID reg + 2 else nextID reg)"
  by (cases x) (simp_all add: allocRequestID_def register_def bindAlias_def Let_def)

abbreviation allocs :: "subref regop list \<Rightarrow> nat" where
  "allocs ops \<equiv> length (filter (\<lambda>x. x = AllocID) ops)"

lemma idsOf_from:
  "idsOf ops reg = map (\<lambda>k. nextID reg + word_of_nat (2 * k)) [0..<allocs ops]"
proof (induction ops arbitrary: reg)
  case (Cons x ops)
  show ?case
  proof (cases "x = AllocID")
    case True
    have "map (\<lambda>k. nextID reg + word_of_nat (2 * k)) [0..<Suc n]
        = nextID reg # map (\<lambda>k. nextID reg + 2 + word_of_nat (2 * k)) [0..<n]" for n
      by (subst upt_conv_Cons) (simp_all add: map_Suc_upt [symmetric] del: upt_Suc add: algebra_simps)
    with True Cons.IH show ?thesis by (simp add: allocRequestID_def Let_def del: upt_Suc)
  next
    case False
    with Cons.IH show ?thesis by (cases x) (simp_all add: register_def bindAlias_def)
  qed
qed simp

subsection \<open>Properties\<close>

text \<open>C17: Which subscription a data stream is delivered to.  After any operations on the registry, an
  alias resolves to the subscription it was last bound to; only when it was never bound, to the
  subscription last registered under the request ID of the same number, marked as pending; otherwise
  to none.  Registering a request never takes a bound alias away.\<close>

theorem lookupDelivery_history:
  fixes ops :: "subref regop list" and a :: u64
  defines "reg \<equiv> fold regStep ops newSubscriptionRegistry"
    and "bs \<equiv> [s. BindTo s b \<leftarrow> ops, b = a]" and "rs \<equiv> [s. RegisterReq i s \<leftarrow> ops, i = a]"
  shows "lookupDelivery reg a =
      (if bs \<noteq> [] then (Some (last bs), False)
       else if rs \<noteq> [] then (Some (last rs), True) else (None, False))
    \<and> lookupAlias reg a = (if bs = [] then None else Some (last bs))"
proof -
  have l: "lookupDelivery reg a =
      (if bs \<noteq> [] then (Some (last bs), False)
       else if rs \<noteq> [] then (Some (last rs), True) else (None, False))"
    unfolding reg_def bs_def rs_def
    by (rule deliveries.lookup_history [unfolded deliveries.bound_def deliveries.registered_def perform_regStep])
  then show ?thesis
    by (auto simp: lookupAlias_def lookupDelivery_def split: option.splits if_splits)
qed

theorem lookupDelivery_history_witness:
  "lookupDelivery (fold regStep
     [RegisterReq 0 10, RegisterReq 2 11, BindTo 10 2] newSubscriptionRegistry) 2 = (Some 10, False)
   \<and> lookupDelivery (fold regStep
     [RegisterReq 0 10, RegisterReq 2 11] newSubscriptionRegistry) 2 = (Some 11, True)"
  using lookupDelivery_history [of "[RegisterReq 0 10, RegisterReq 2 11, BindTo 10 2]" 2]
    lookupDelivery_history [of "[RegisterReq 0 10, RegisterReq 2 11]" 2] by simp

text \<open>Request IDs.  However the operations on the registry interleave, the request IDs handed out
  are 0, 2, 4, ... in order; they are all different as long as there are at most \<open>2 ^ 63\<close> of them,
  and the next one after that is 0 again.\<close>

theorem request_ids:
  fixes ops :: "subref regop list"
  defines "n \<equiv> length (filter (\<lambda>x. x = AllocID) ops)"
  shows "idsOf ops newSubscriptionRegistry = map (\<lambda>k. word_of_nat (2 * k)) [0..<n]
    \<and> (distinct (idsOf ops newSubscriptionRegistry) \<longleftrightarrow> n \<le> 2 ^ 63)"
proof -
  have ids: "idsOf ops newSubscriptionRegistry = map (\<lambda>k. word_of_nat (2 * k)) [0..<n]"
    unfolding n_def by (subst idsOf_from) (simp add: newSubscriptionRegistry_def)
  have inj: "(word_of_nat (2 * i) :: u64) = word_of_nat (2 * j) \<longleftrightarrow> i = j"
    if "i < 2 ^ 63" "j < 2 ^ 63" for i j
    using that by (simp add: word_of_nat_eq_iff take_bit_nat_eq_self del: of_nat_mult)
  have "distinct (map (\<lambda>k. word_of_nat (2 * k) :: u64) [0..<n]) \<longleftrightarrow> n \<le> 2 ^ 63"
  proof
    assume d: "distinct (map (\<lambda>k. word_of_nat (2 * k) :: u64) [0..<n])"
    show "n \<le> 2 ^ 63"
    proof (rule ccontr)
      assume "\<not> n \<le> 2 ^ 63"
      then have "0 \<in> set [0..<n]" "2 ^ 63 \<in> set [0..<n]" by simp_all
      moreover from d have "inj_on (\<lambda>k. word_of_nat (2 * k) :: u64) (set [0..<n])"
        by (simp add: distinct_map del: of_nat_mult)
      ultimately have "(word_of_nat (2 * 0) :: u64) \<noteq> word_of_nat (2 * 2 ^ 63)"
        using inj_on_contraD [of "\<lambda>k. word_of_nat (2 * k) :: u64" "set [0..<n]" 0 "2 ^ 63"] by simp
      moreover have "(word_of_nat (2 * 0) :: u64) = word_of_nat (2 * 2 ^ 63)"
        by (simp add: word_of_nat_eq_iff del: of_nat_mult)
      ultimately show False by contradiction
    qed
  next
    assume "n \<le> 2 ^ 63"
    then show "distinct (map (\<lambda>k. word_of_nat (2 * k) :: u64) [0..<n])"
      by (simp add: distinct_map inj_on_def inj del: of_nat_mult)
  qed
  with ids show ?thesis by simp
qed

theorem request_ids_witness:
  "idsOf [AllocID, RegisterReq 0 7, AllocID, AllocID] newSubscriptionRegistry = [0, 2, 4]
   \<and> distinct (idsOf [AllocID, RegisterReq 0 7, AllocID, AllocID] newSubscriptionRegistry)"
  using request_ids [of "[AllocID, RegisterReq 0 7, AllocID, AllocID]"] by (simp add: upt_rec)

end
