(* ===== verification/MediaOutput.thy ===== *)
theory MediaOutput
  imports Prelude
begin

text \<open>
  \<^verbatim>\<open>internal/media/output.go\<close>: the output sink.  Starting a process is the operating system's:
  \<open>stdinPipe\<close> and \<open>start cmd\<close> are the errors of \<^verbatim>\<open>cmd.StdinPipe\<close> and \<^verbatim>\<open>cmd.Start\<close>.  A sink that is
  in use is a state \<open>'o\<close> of the outside world with the calls \<open>closeW\<close> (closing the writer) and
  \<open>waitCmd\<close> (\<^verbatim>\<open>cmd.Wait\<close>).
\<close>

type_synonym Mode = string

definition ModeStdout :: Mode where "ModeStdout = ''stdout''"
definition ModeFFmpeg :: Mode where "ModeFFmpeg = ''ffmpeg''"
definition ModeFFplay :: Mode where "ModeFFplay = ''ffplay''"
definition ModeCommand :: Mode where "ModeCommand = ''command''"

lemmas mode_names = ModeStdout_def ModeFFmpeg_def ModeFFplay_def ModeCommand_def

record MediaConfig =
  mcMode :: Mode
  mcFFmpegCmd :: string
  mcFFplayCmd :: string
  mcPipeCmd :: string

text \<open>The writer of a sink: \<^verbatim>\<open>nopCloser{os.Stdout}\<close>, or the standard input of a shell command.\<close>

datatype sinkWriter = StdoutNopCloser | CommandStdin string

record Sink =
  skMode :: Mode
  skW :: "sinkWriter option"
  skCmd :: "string option"
  skWaited :: bool
  skWaitE :: "gerr option"

definition chooseStr :: "string \<Rightarrow> string \<Rightarrow> string" where
  "chooseStr v fallback = (if v \<noteq> [] then v else fallback)"

definition startCommandSink ::
    "gerr option \<Rightarrow> (string \<Rightarrow> gerr option) \<Rightarrow> Mode \<Rightarrow> string \<Rightarrow> Sink outcome" where
  "startCommandSink stdinPipe start m command =
     (case stdinPipe of
        Some e \<Rightarrow> Err e
      | None \<Rightarrow>
          (case start command of
             Some e \<Rightarrow> Err e
           | None \<Rightarrow> Ok \<lparr>skMode = m, skW = Some (CommandStdin command), skCmd = Some command,
                          skWaited = False, skWaitE = None\<rparr>))"

definition ffmpegDefault :: string where
  "ffmpegDefault = ''ffmpeg -hide_banner -loglevel warning -i pipe:0 -f null -''"

definition ffplayDefault :: string where
  "ffplayDefault = ''ffplay -hide_banner -fflags nobuffer -flags low_delay -framedrop -i pipe:0''"

definition NewSink ::
    "gerr option \<Rightarrow> (string \<Rightarrow> gerr option) \<Rightarrow> MediaConfig \<Rightarrow> Sink outcome" where
  "NewSink stdinPipe start cfg =
     (let m = mcMode cfg in
      if m = ModeStdout then
        Ok \<lparr>skMode = m, skW = Some StdoutNopCloser, skCmd = None, skWaited = False, skWaitE = None\<rparr>
      else if m = ModeFFmpeg then
        startCommandSink stdinPipe start m (chooseStr (mcFFmpegCmd cfg) ffmpegDefault)
      else if m = ModeFFplay then
        startCommandSink stdinPipe start m (chooseStr (mcFFplayCmd cfg) ffplayDefault)
      else if m = ModeCommand then
        (if mcPipeCmd cfg = [] then Err (Errorf ''pipe command is required when mode=command'' [])
         else startCommandSink stdinPipe start m (mcPipeCmd cfg))
      else Err (Errorf ''unknown output mode: %q'' [FStr m]))"

text \<open>\<^verbatim>\<open>Sink.Write\<close> is the writer's; \<open>write\<close> gives the count and the error of \<^verbatim>\<open>os.Stdout\<close> and of the pipe to a
  command.  A sink without a writer makes it panic; \<open>NewSink\<close> makes none.\<close>

definition writeSink ::
    "(sinkWriter \<Rightarrow> bytes \<Rightarrow> 'o \<Rightarrow> (nat \<times> gerr option) \<times> 'o) \<Rightarrow> Sink \<Rightarrow> bytes \<Rightarrow> 'o
      \<Rightarrow> (nat \<times> gerr option) outcome \<times> 'o" where
  "writeSink write s p os =
     (case skW s of
        None \<Rightarrow> (Panic, os)
      | Some w \<Rightarrow> (case write w p os of (r, os') \<Rightarrow> (Ok r, os')))"

text \<open>\<^verbatim>\<open>nopCloser.Close\<close> returns nil.\<close>

definition closeWriter ::
    "('o \<Rightarrow> gerr option \<times> 'o) \<Rightarrow> sinkWriter \<Rightarrow> 'o \<Rightarrow> gerr option \<times> 'o" where
  "closeWriter closeW w os = (case w of StdoutNopCloser \<Rightarrow> (None, os) | CommandStdin c \<Rightarrow> closeW os)"

definition closeSink ::
    "('o \<Rightarrow> gerr option \<times> 'o) \<Rightarrow> ('o \<Rightarrow> gerr option \<times> 'o) \<Rightarrow> Sink option \<Rightarrow> 'o
      \<Rightarrow> gerr option \<times> Sink option \<times> 'o" where
  "closeSink closeW waitCmd sink os =
     (case sink of
        None \<Rightarrow> (None, sink, os)
      | Some s \<Rightarrow>
          (case skW s of
             None \<Rightarrow> (None, sink, os)
           | Some w \<Rightarrow>
               (case closeWriter closeW w os of
                  (Some e, os) \<Rightarrow> (Some e, sink, os)
                | (None, os) \<Rightarrow>
                    if skCmd s \<noteq> None then
                      if skWaited s then (skWaitE s, sink, os)
                      else (let (e, os) = waitCmd os
                            in (e, Some (s\<lparr>skWaited := True, skWaitE := e\<rparr>), os))
                    else (None, sink, os))))"

subsection \<open>Lemmas\<close>

lemma startCommandSink_Ok:
  "startCommandSink p st m c = Ok s \<longleftrightarrow> p = None \<and> st c = None \<and>
     s = \<lparr>skMode = m, skW = Some (CommandStdin c), skCmd = Some c, skWaited = False, skWaitE = None\<rparr>"
  by (auto simp: startCommandSink_def split: option.splits)

lemma NewSink_Ok_writer:
  "NewSink p st cfg = Ok s \<Longrightarrow> skMode s = mcMode cfg \<and> \<not> skWaited s
     \<and> (case skCmd s of
          None \<Rightarrow> skW s = Some StdoutNopCloser
        | Some c \<Rightarrow> skW s = Some (CommandStdin c) \<and> c \<noteq> [] \<and> p = None \<and> st c = None)"
  by (auto simp: NewSink_def Let_def startCommandSink_Ok chooseStr_def ffmpegDefault_def
      ffplayDefault_def split: if_splits)

text \<open>How often \<^verbatim>\<open>cmd.Wait\<close> is called: the world counts the calls.\<close>

definition closeCount ::
    "('o \<Rightarrow> gerr option) \<Rightarrow> ('o \<Rightarrow> gerr option) \<Rightarrow> Sink option \<Rightarrow> 'o \<times> nat
      \<Rightarrow> gerr option \<times> Sink option \<times> 'o \<times> nat" where
  "closeCount closeR waitR =
     closeSink (\<lambda>(s, n). (closeR s, s, n)) (\<lambda>(s, n). (waitR s, s, Suc n))"

fun closes :: "('o \<Rightarrow> gerr option) \<Rightarrow> ('o \<Rightarrow> gerr option) \<Rightarrow> nat \<Rightarrow> Sink option \<Rightarrow> 'o \<times> nat
      \<Rightarrow> gerr option list \<times> Sink option \<times> 'o \<times> nat" where
  "closes closeR waitR 0 sink os = ([], sink, os)"
| "closes closeR waitR (Suc k) sink os =
     (let (e, sink, os) = closeCount closeR waitR sink os;
          (es, sink, os) = closes closeR waitR k sink os
      in (e # es, sink, os))"

lemma closes_waited:
  "skWaited s \<Longrightarrow> skW s = Some (CommandStdin c) \<Longrightarrow> skCmd s \<noteq> None \<Longrightarrow> closeR w = None \<Longrightarrow>
   closes closeR waitR k (Some s) (w, n) = (replicate k (skWaitE s), Some s, (w, n))"
  by (induction k) (simp_all add: closeCount_def closeSink_def closeWriter_def Let_def)

subsection \<open>Properties\<close>

text \<open>A sink is closed safely any number of times.  While closing the writer succeeds, every
  \<^verbatim>\<open>Close\<close> of a command's sink returns the result of the command, and the command is waited for
  exactly once; the standard output is never waited for.\<close>

theorem closeSink_idempotent:
  assumes "NewSink p st cfg = Ok s" and "closeR os = None"
  shows "fst (closes closeR waitR k (Some s) (os, 0))
      = replicate k (if mcMode cfg = ''stdout'' then None else waitR os)
    \<and> snd (snd (snd (closes closeR waitR k (Some s) (os, 0))))
      = (if mcMode cfg = ''stdout'' \<or> k = 0 then 0 else 1)"
proof (cases "mcMode cfg = ''stdout''")
  case True
  with assms(1) have s: "skW s = Some StdoutNopCloser" "skCmd s = None"
    by (auto simp: NewSink_def mode_names)
  have "closes closeR waitR k (Some s) (os, 0) = (replicate k None, Some s, (os, 0))"
    by (induction k) (simp_all add: closeCount_def closeSink_def closeWriter_def s Let_def)
  with True show ?thesis by simp
next
  case False
  with assms(1) obtain c where s: "skW s = Some (CommandStdin c)" "skCmd s = Some c" "\<not> skWaited s"
    by (auto simp: NewSink_def mode_names Let_def startCommandSink_Ok split: if_splits)
  let ?s = "s\<lparr>skWaited := True, skWaitE := waitR os\<rparr>"
  have w: "closes closeR waitR j (Some ?s) (os, n) = (replicate j (waitR os), Some ?s, (os, n))" for j n
    using closes_waited [of ?s c closeR os waitR j n] s assms(2) by simp
  show ?thesis
  proof (cases k)
    case (Suc j)
    have "closes closeR waitR k (Some s) (os, 0) = (replicate k (waitR os), Some ?s, (os, 1))"
      using s assms(2) w [of j 1] unfolding Suc
      by (simp add: closeCount_def closeSink_def closeWriter_def Let_def)
    with False Suc show ?thesis by simp
  qed simp
qed

theorem closeSink_idempotent_witness:
  "fst (closes (\<lambda>_. None) (\<lambda>_. Some (ErrExternal 1)) 2
     (Some \<lparr>skMode = ''command'', skW = Some (CommandStdin ''cat''), skCmd = Some ''cat'',
            skWaited = False, skWaitE = None\<rparr>) ((), 0)) = [Some (ErrExternal 1), Some (ErrExternal 1)]"
proof -
  have n: "NewSink None (\<lambda>_. None) \<lparr>mcMode = ''command'', mcFFmpegCmd = [], mcFFplayCmd = [], mcPipeCmd = ''cat''\<rparr>
      = Ok \<lparr>skMode = ''command'', skW = Some (CommandStdin ''cat''), skCmd = Some ''cat'',
            skWaited = False, skWaitE = None\<rparr>"
    by (simp add: NewSink_def mode_names startCommandSink_def)
  show ?thesis
    using closeSink_idempotent [OF n, of "\<lambda>_. None" "()" "\<lambda>_. Some (ErrExternal 1)" 2]
    by (simp add: numeral_2_eq_2)
qed

end
