(* ===== verification/Url.thy ===== *)
theory Url
  imports Chars "HOL-Library.Sublist"
begin

text \<open>
  \<^verbatim>\<open>url.Parse\<close> of Go's \<^verbatim>\<open>net/url\<close> (Go 1.23), with \<^verbatim>\<open>URL.EscapedPath\<close>, \<^verbatim>\<open>URL.Hostname\<close> and \<^verbatim>\<open>URL.Port\<close>.  A URL is kept
  as far as the program reads it: the user, the fragment and the flags that only matter for printing
  are checked and dropped.  The result is \<open>None\<close> where \<^verbatim>\<open>url.Parse\<close> returns an error.
\<close>

record URL =
  urlScheme :: string
  urlOpaque :: string
  urlHost :: string
  urlPath :: string
  urlRawPath :: string
  urlRawQuery :: string

subsection \<open>Percent encoding\<close>

datatype encoding = EncodePath | EncodeHost | EncodeZone | EncodeUserPassword | EncodeFragment

definition shouldEscape :: "char \<Rightarrow> encoding \<Rightarrow> bool" where
  "shouldEscape c mode =
     (if isAlnum c then False
      else if mode \<in> {EncodeHost, EncodeZone} \<and> c \<in> set (quote # CHR 0x27 # ''!$&()*+,;=:[]<>'') then False
      else if c \<in> set ''-_.~'' then False
      else if c \<in> set ''$&+,/:;=?@'' \<and> mode = EncodePath then c = CHR ''?''
      else if c \<in> set ''$&+,/:;=?@'' \<and> mode = EncodeUserPassword then c \<in> set ''@/?:''
      else if c \<in> set ''$&+,/:;=?@'' \<and> mode = EncodeFragment then False
      else if mode = EncodeFragment \<and> c \<in> set ''!()*'' then False
      else True)"

definition hexByte :: "char \<Rightarrow> char \<Rightarrow> char" where
  "hexByte a b = char_of (hexVal a * 16 + hexVal b)"

text \<open>The escapes a host may have: bytes that are not ASCII, and the percent sign; a zone also those it could write.\<close>

definition escapeAllowed :: "encoding \<Rightarrow> char \<Rightarrow> char \<Rightarrow> bool" where
  "escapeAllowed mode a b =
     ((mode = EncodeHost \<longrightarrow> 8 \<le> hexVal a \<or> [a, b] = ''25'')
      \<and> (mode = EncodeZone \<longrightarrow> [a, b] = ''25'' \<or> hexByte a b = CHR '' '' \<or> \<not> shouldEscape (hexByte a b) EncodeHost))"

fun unescape :: "encoding \<Rightarrow> string \<Rightarrow> string option" where
  "unescape mode [] = Some []"
| "unescape mode (c # s) =
     (if c = CHR ''%'' then
        (case s of
           a # b # t \<Rightarrow>
             if isHex a \<and> isHex b \<and> escapeAllowed mode a b
             then map_option (Cons (hexByte a b)) (unescape mode t) else None
         | _ \<Rightarrow> None)
      else if mode \<in> {EncodeHost, EncodeZone} \<and> (of_char c :: nat) < 0x80 \<and> shouldEscape c mode then None
      else map_option (Cons c) (unescape mode s))"

definition upperHex :: "nat \<Rightarrow> char" where
  "upperHex n = char_of (if n < 10 then 48 + n else 55 + n)"

definition escapeText :: "encoding \<Rightarrow> string \<Rightarrow> string" where
  "escapeText mode s = concat (map (\<lambda>c.
     if shouldEscape c mode then [CHR ''%'', upperHex (of_char c div 16), upperHex (of_char c mod 16)] else [c]) s)"

definition validEncoded :: "string \<Rightarrow> bool" where
  "validEncoded s = list_all (\<lambda>c. c \<in> set (CHR 0x27 # ''!$&()*+,;=:@[]%'') \<or> \<not> shouldEscape c EncodePath) s"

subsection \<open>The path\<close>

definition setPath :: "URL \<Rightarrow> string \<Rightarrow> URL option" where
  "setPath u p =
     map_option (\<lambda>path. u\<lparr>urlPath := path, urlRawPath := (if p = escapeText EncodePath path then [] else p)\<rparr>)
       (unescape EncodePath p)"

definition EscapedPath :: "URL \<Rightarrow> string" where
  "EscapedPath u =
     (if urlRawPath u \<noteq> [] \<and> validEncoded (urlRawPath u)
         \<and> unescape EncodePath (urlRawPath u) = Some (urlPath u) then urlRawPath u
      else if urlPath u = ''*'' then ''*''
      else escapeText EncodePath (urlPath u))"

subsection \<open>The authority\<close>

text \<open>What is before and after the last occurrence of a character.\<close>

definition cutLast :: "char \<Rightarrow> string \<Rightarrow> (string \<times> string) option" where
  "cutLast c s =
     (if c \<in> set s then
        (let t = rev (takeWhile (\<lambda>x. x \<noteq> c) (rev s)) in Some (take (length s - length t - 1) s, t))
      else None)"

fun validOptionalPort :: "string \<Rightarrow> bool" where
  "validOptionalPort [] = True"
| "validOptionalPort (c # s) = (c = CHR '':'' \<and> list_all isDigit s)"

text \<open>The text from the first \<^verbatim>\<open>%25\<close> on.\<close>

fun cutZone :: "string \<Rightarrow> (string \<times> string) option" where
  "cutZone [] = None"
| "cutZone (c # s) =
     (if prefix ''%25'' (c # s) then Some ([], c # s) else map_option (\<lambda>(a, z). (c # a, z)) (cutZone s))"

definition parseHost :: "string \<Rightarrow> string option" where
  "parseHost host =
     (if prefix ''['' host then
        (case cutLast (CHR '']'') host of
           None \<Rightarrow> None
         | Some (inner, colonPort) \<Rightarrow>
             if \<not> validOptionalPort colonPort then None
             else (case cutZone inner of
                None \<Rightarrow> unescape EncodeHost host
              | Some (addr, zone) \<Rightarrow>
                  Option.bind (unescape EncodeHost addr) (\<lambda>host1.
                  Option.bind (unescape EncodeZone zone) (\<lambda>host2.
                  map_option (\<lambda>host3. host1 @ host2 @ host3) (unescape EncodeHost (CHR '']'' # colonPort))))))
      else (case cutLast (CHR '':'') host of
              Some (_, port) \<Rightarrow> if list_all isDigit port then unescape EncodeHost host else None
            | None \<Rightarrow> unescape EncodeHost host))"

definition validUserinfo :: "string \<Rightarrow> bool" where
  "validUserinfo s = list_all (\<lambda>c. isAlnum c \<or> c \<in> set (CHR 0x27 # ''-._:~!$&()*+,;=%@'')) s"

text \<open>The user and the password are checked and not kept.\<close>

definition parseAuthority :: "string \<Rightarrow> string option" where
  "parseAuthority authority =
     (case cutLast (CHR ''@'') authority of
        None \<Rightarrow> parseHost authority
      | Some (userinfo, host) \<Rightarrow>
          Option.bind (parseHost host) (\<lambda>h.
            if \<not> validUserinfo userinfo then None
            else (case cutAt (CHR '':'') userinfo of
                (user, None) \<Rightarrow> map_option (\<lambda>_. h) (unescape EncodeUserPassword user)
              | (user, Some password) \<Rightarrow>
                  Option.bind (unescape EncodeUserPassword user) (\<lambda>_.
                    map_option (\<lambda>_. h) (unescape EncodeUserPassword password)))))"

subsection \<open>The whole URL\<close>

text \<open>The scheme and the rest; \<open>taken\<close> is what has been read of \<open>raw\<close>.\<close>

fun schemeFrom :: "string \<Rightarrow> string \<Rightarrow> string \<Rightarrow> (string \<times> string) option" where
  "schemeFrom raw taken [] = Some ([], raw)"
| "schemeFrom raw taken (c # s) =
     (if isUpper c \<or> isLower c then schemeFrom raw (taken @ [c]) s
      else if isDigit c \<or> c \<in> set ''+-.'' then
        (if taken = [] then Some ([], raw) else schemeFrom raw (taken @ [c]) s)
      else if c = CHR '':'' then (if taken = [] then None else Some (taken, s))
      else Some ([], raw))"

definition getScheme :: "string \<Rightarrow> (string \<times> string) option" where
  "getScheme raw = schemeFrom raw [] raw"

definition ctlByte :: "char \<Rightarrow> bool" where
  "ctlByte c \<longleftrightarrow> (of_char c :: nat) < 0x20 \<or> c = CHR 0x7F"

definition theText :: "string option \<Rightarrow> string" where
  "theText t = (case t of None \<Rightarrow> [] | Some s \<Rightarrow> s)"

definition emptyURL :: URL where
  "emptyURL = \<lparr>urlScheme = [], urlOpaque = [], urlHost = [], urlPath = [], urlRawPath = [], urlRawQuery = []\<rparr>"

definition parseReference :: "string \<Rightarrow> URL option" where
  "parseReference raw =
     (if list_ex ctlByte raw then None
      else if raw = ''*'' then Some (emptyURL\<lparr>urlPath := ''*''\<rparr>)
      else Option.bind (getScheme raw) (\<lambda>(scheme, rest).
        let (rest, query) = cutAt (CHR ''?'') rest;
            u = emptyURL\<lparr>urlScheme := toLower scheme, urlRawQuery := theText query\<rparr>
        in if \<not> prefix ''/'' rest \<and> scheme \<noteq> [] then Some (u\<lparr>urlOpaque := rest\<rparr>)
           else if \<not> prefix ''/'' rest \<and> CHR '':'' \<in> set (fst (cutAt (CHR ''/'') rest)) then None
           else if (scheme \<noteq> [] \<or> \<not> prefix ''///'' rest) \<and> prefix ''//'' rest then
             Option.bind (parseAuthority (takeWhile (\<lambda>c. c \<noteq> CHR ''/'') (drop 2 rest))) (\<lambda>host.
               setPath (u\<lparr>urlHost := host\<rparr>) (dropWhile (\<lambda>c. c \<noteq> CHR ''/'') (drop 2 rest)))
           else setPath u rest))"

text \<open>\<^verbatim>\<open>url.Parse\<close>: the fragment is checked and not kept.\<close>

definition urlParse :: "string \<Rightarrow> URL option" where
  "urlParse raw =
     (case cutAt (CHR ''#'') raw of
        (u, frag) \<Rightarrow>
          Option.bind (parseReference u) (\<lambda>url. map_option (\<lambda>_. url) (unescape EncodeFragment (theText frag))))"

subsection \<open>Hosts and ports\<close>

text \<open>\<^verbatim>\<open>splitHostPort\<close>: the port is what follows the last colon when it is all digits.\<close>

definition splitHostPort :: "string \<Rightarrow> string \<times> string" where
  "splitHostPort hostPort =
     (let (host, port) =
            (case cutLast (CHR '':'') hostPort of
               Some (h, p) \<Rightarrow> if list_all isDigit p then (h, p) else (hostPort, [])
             | None \<Rightarrow> (hostPort, []))
      in (if host \<noteq> [] \<and> hd host = CHR ''['' \<and> last host = CHR '']'' then butlast (drop 1 host) else host, port))"

definition Hostname :: "URL \<Rightarrow> string" where
  "Hostname u = fst (splitHostPort (urlHost u))"

definition Port :: "URL \<Rightarrow> string" where
  "Port u = snd (splitHostPort (urlHost u))"

text \<open>\<^verbatim>\<open>net.JoinHostPort\<close>.\<close>

definition JoinHostPort :: "string \<Rightarrow> string \<Rightarrow> string" where
  "JoinHostPort host port =
     (if CHR '':'' \<in> set host then ''['' @ host @ '']:'' @ port else host @ '':'' @ port)"

subsection \<open>Lemmas\<close>

lemma cutLast_none: "c \<notin> set s \<Longrightarrow> cutLast c s = None"
  by (simp add: cutLast_def)

lemma cutLast_some: "c \<notin> set t \<Longrightarrow> cutLast c (s @ c # t) = Some (s, t)"
proof -
  assume "c \<notin> set t"
  then have "takeWhile (\<lambda>x. x \<noteq> c) (rev t) = rev t" "takeWhile (\<lambda>x. x \<noteq> c) (rev t @ c # rev s) = rev t"
    by (auto simp: takeWhile_eq_all_conv takeWhile_append)
  then show ?thesis by (simp add: cutLast_def)
qed

text \<open>A character that need not be escaped is visible, and none of the marks that divide a URL.\<close>

lemma ctlByte_code: "ctlByte c \<Longrightarrow> c \<in> set (map char_of ([0..<32] @ [127 :: nat]))"
proof -
  assume "ctlByte c"
  then have "c = char_of (of_char c :: nat)" "of_char c \<in> set ([0..<32] @ [127 :: nat])"
    by (auto simp: ctlByte_def)
  then show ?thesis unfolding set_map by (rule image_eqI)
qed

lemma marks_escaped_always:
  "list_all (\<lambda>c. shouldEscape c mode) (''%#'' @ map char_of ([0..<32] @ [127 :: nat]))"
  by (induction mode) code_simp+

lemma marks_escaped:
  "list_all (\<lambda>c. shouldEscape c EncodeHost) ''/?@''"
  "list_all (\<lambda>c. shouldEscape c EncodePath) ''?''"
  by code_simp+

lemma unescaped_char:
  assumes "\<not> shouldEscape c mode"
  shows "\<not> ctlByte c" and "c \<noteq> CHR ''%''" and "c \<noteq> CHR ''#''"
  using assms ctlByte_code [of c] marks_escaped_always [of mode]
  unfolding list_all_iff by (auto simp del: upt_conv_Cons)

lemma unescaped_host_char:
  assumes "\<not> shouldEscape c EncodeHost"
  shows "c \<noteq> CHR ''/''" and "c \<noteq> CHR ''?''" and "c \<noteq> CHR ''@''"
  using assms marks_escaped(1) by auto

lemma valid_path_char:
  assumes "validEncoded p" and "c \<in> set p"
  shows "\<not> ctlByte c" and "c \<noteq> CHR ''?''" and "c \<noteq> CHR ''#''"
proof -
  have c: "c \<in> set (CHR 0x27 # ''!$&()*+,;=:@[]%'') \<or> \<not> shouldEscape c EncodePath"
    using assms by (simp add: validEncoded_def list_all_iff)
  have marks: "\<forall>c\<in>set (CHR 0x27 # ''!$&()*+,;=:@[]%''). \<not> ctlByte c \<and> c \<noteq> CHR ''?'' \<and> c \<noteq> CHR ''#''"
    by code_simp
  have "\<not> ctlByte c \<and> c \<noteq> CHR ''?'' \<and> c \<noteq> CHR ''#''"
  proof (rule disjE [OF c])
    assume "\<not> shouldEscape c EncodePath"
    with unescaped_char [of c EncodePath] marks_escaped(2) show ?thesis by auto
  qed (rule bspec [OF marks])
  then show "\<not> ctlByte c" and "c \<noteq> CHR ''?''" and "c \<noteq> CHR ''#''" by simp_all
qed

lemma unescape_plain:
  "list_all (\<lambda>c. \<not> shouldEscape c mode) s \<Longrightarrow> unescape mode s = Some s"
  by (induction s) (use unescaped_char(2) in auto)

lemma cutZone_none: "CHR ''%'' \<notin> set s \<Longrightarrow> cutZone s = None"
  by (induction s) auto

text \<open>A path that is encoded correctly is what \<open>EscapedPath\<close> returns.\<close>

lemma EscapedPath_setPath:
  assumes "validEncoded p" and "setPath u p = Some v" and "p = [] \<or> prefix ''/'' p"
  shows "EscapedPath v = p \<and> urlScheme v = urlScheme u \<and> urlHost v = urlHost u \<and> urlRawQuery v = urlRawQuery u"
proof -
  obtain path where path: "unescape EncodePath p = Some path"
      and v: "v = u\<lparr>urlPath := path, urlRawPath := (if p = escapeText EncodePath path then [] else p)\<rparr>"
    using assms(2) by (auto simp: setPath_def)
  have star: "path \<noteq> ''*''"
    using assms(3) path by (cases p) auto
  show ?thesis
  proof (cases "p = escapeText EncodePath path")
    case True
    with star show ?thesis by (auto simp: v EscapedPath_def)
  next
    case False
    then have "p \<noteq> []" using path by (auto simp: escapeText_def)
    with False assms(1) path show ?thesis by (simp add: v EscapedPath_def)
  qed
qed

lemma splitHostPort_plain:
  "CHR '':'' \<notin> set h \<Longrightarrow> CHR ''['' \<notin> set h \<Longrightarrow> splitHostPort h = (h, [])"
  by (cases h) (auto simp: splitHostPort_def cutLast_none)

lemma isDigit_not_colon: "list_all isDigit p \<Longrightarrow> CHR '':'' \<notin> set p"
  by (auto simp: list_all_iff isDigit_def)

lemma splitHostPort_port:
  "list_all isDigit p \<Longrightarrow> splitHostPort (h @ CHR '':'' # p)
    = (if h \<noteq> [] \<and> hd h = CHR ''['' \<and> last h = CHR '']'' then butlast (drop 1 h) else h, p)"
  by (simp add: splitHostPort_def cutLast_some isDigit_not_colon)

lemma splitHostPort_bracket: "splitHostPort (''['' @ h @ '']'') = (h, [])"
proof (cases "CHR '':'' \<in> set h")
  case True
  then obtain a b where "h = a @ CHR '':'' # b" "CHR '':'' \<notin> set b" by (metis split_list_last)
  then have "cutLast (CHR '':'') (''['' @ h @ '']'') = Some (CHR ''['' # a, b @ '']'')"
    using cutLast_some [of "CHR '':''" "b @ '']''" "CHR ''['' # a"] by simp
  moreover have "\<not> list_all isDigit (b @ '']'')" by (simp add: isDigit_def)
  ultimately show ?thesis by (simp add: splitHostPort_def del: list_all_append)
qed (simp add: splitHostPort_def cutLast_none)

text \<open>Texts that a host is written with as they are.\<close>

abbreviation hostText :: "string \<Rightarrow> bool" where
  "hostText \<equiv> list_all (\<lambda>c. \<not> shouldEscape c EncodeHost)"

lemma getScheme_moqt: "getScheme (''moqt:'' @ s) = Some (''moqt'', s)"
  by (simp add: getScheme_def isUpper_def isLower_def isDigit_def within_def)

lemma hostText_digits: "list_all isDigit p \<Longrightarrow> hostText p"
  by (induction p) (simp_all add: shouldEscape_def isAlnum_def)

lemma parseHost_plain:
  assumes "hostText h" and "CHR ''['' \<notin> set h" and "CHR '':'' \<notin> set h" and "list_all isDigit port"
  shows "parseHost h = Some h" and "parseHost (h @ '':'' @ port) = Some (h @ '':'' @ port)"
proof -
  have b: "\<not> prefix ''['' (h @ t)" if "t = [] \<or> hd t = CHR '':''" for t
    using assms(2) that by (cases h; cases t) auto
  have "hostText '':''" by code_simp
  then have "hostText (h @ '':'' @ port)"
    using assms(1) hostText_digits [OF assms(4)] by simp
  then have "unescape EncodeHost (h @ '':'' @ port) = Some (h @ '':'' @ port)"
    by (rule unescape_plain)
  then show "parseHost (h @ '':'' @ port) = Some (h @ '':'' @ port)"
    using b [of "'':'' @ port"] assms(4) cutLast_some [OF isDigit_not_colon [OF assms(4)], of h]
    by (simp add: parseHost_def)
  show "parseHost h = Some h"
    using b [of "[]"] assms(3) by (simp add: parseHost_def cutLast_none unescape_plain [OF assms(1)])
qed

lemma parseHost_bracket:
  assumes "hostText h" and "list_all isDigit port" and "colonPort \<in> {[], '':'' @ port}"
  shows "parseHost (''['' @ h @ '']'' @ colonPort) = Some (''['' @ h @ '']'' @ colonPort)"
proof -
  have "CHR '']'' \<notin> set port" using assms(2) by (auto simp: list_all_iff isDigit_def)
  then have "cutLast (CHR '']'') ((''['' @ h) @ CHR '']'' # colonPort) = Some (''['' @ h, colonPort)"
    using assms(3) by (intro cutLast_some) auto
  moreover have "validOptionalPort colonPort" using assms(2,3) by auto
  moreover have "hostText ''[''" "hostText '']''" "hostText '':''" by code_simp+
  then have all: "hostText (''['' @ h @ '']'' @ colonPort)"
    using assms(1,3) hostText_digits [OF assms(2)] by auto
  then have "CHR ''%'' \<notin> set (''['' @ h)"
    using unescaped_char(2) by (fastforce simp: list_all_iff)
  ultimately show ?thesis
    using unescape_plain [OF all] by (simp add: parseHost_def cutZone_none)
qed

lemma toLower_moqt: "toLower ''moqt'' = ''moqt''"
  by code_simp

lemma urlParse_relay:
  assumes "parseHost h = Some h" and "hostText h"
    and "p = [] \<or> prefix ''/'' p" and "validEncoded p" and "unescape EncodePath p \<noteq> None"
    and "list_all (\<lambda>c. \<not> ctlByte c \<and> c \<noteq> CHR ''#'') q"
  obtains u where "urlParse (''moqt://'' @ h @ p @ (if q = [] then [] else ''?'' @ q)) = Some u"
    and "urlScheme u = ''moqt''" and "urlHost u = h" and "EscapedPath u = p" and "urlRawQuery u = q"
proof -
  define Q where "Q = (if q = [] then [] else ''?'' @ q)"
  let ?u = "emptyURL\<lparr>urlScheme := ''moqt'', urlRawQuery := q, urlHost := h\<rparr>"
  have host: "\<not> ctlByte c" "c \<noteq> CHR ''#''" "c \<noteq> CHR ''/''" "c \<noteq> CHR ''?''" "c \<noteq> CHR ''@''" if "c \<in> set h" for c
    using assms(2) that unescaped_char [of c EncodeHost] unescaped_host_char [of c] by (auto simp: list_all_iff)
  have path: "\<not> ctlByte c" "c \<noteq> CHR ''#''" "c \<noteq> CHR ''?''" if "c \<in> set p" for c
    using valid_path_char [OF assms(4) that] by simp_all
  have ctl: "\<not> list_ex ctlByte ''moqt://?''" by code_simp
  obtain u where u: "setPath ?u p = Some u" using assms(5) by (auto simp: setPath_def)
  have "CHR ''#'' \<notin> set (''moqt://'' @ h @ p @ Q)"
    using host(2) path(2) assms(6) by (auto simp: list_all_iff Q_def)
  then have frag: "cutAt (CHR ''#'') (''moqt://'' @ h @ p @ Q) = (''moqt://'' @ h @ p @ Q, None)"
    by (rule cutAt_none)
  have noctl: "\<not> list_ex ctlByte (''moqt://'' @ h @ p @ Q)"
    using host(1) path(1) assms(6) ctl by (auto simp: list_ex_iff list_all_iff Q_def)
  have "CHR ''?'' \<notin> set (''//'' @ h @ p)" using host(4) path(3) by auto
  then obtain t where query: "cutAt (CHR ''?'') (''//'' @ h @ p @ Q) = (''//'' @ h @ p, t)" "theText t = q"
    using cutAt_none [of "CHR ''?''" "''//'' @ h @ p"] cutAt_some [of "CHR ''?''" "''//'' @ h @ p" q]
    by (cases "q = []") (auto simp: Q_def theText_def)
  have split: "takeWhile (\<lambda>c. c \<noteq> CHR ''/'') (h @ p) = h" "dropWhile (\<lambda>c. c \<noteq> CHR ''/'') (h @ p) = p"
    using host(3) assms(3) by (auto simp: takeWhile_append dropWhile_append prefix_def)
  have "CHR ''@'' \<notin> set h" using host(5) by blast
  then have "parseAuthority h = Some h" using assms(1) by (simp add: parseAuthority_def cutLast_none)
  then have "urlParse (''moqt://'' @ h @ p @ Q) = Some u"
    using frag noctl split query u getScheme_moqt [of "''//'' @ h @ p @ Q"] toLower_moqt
    by (simp add: urlParse_def parseReference_def theText_def [of None])
  moreover have "urlScheme u = ''moqt''" "urlHost u = h" "EscapedPath u = p" "urlRawQuery u = q"
    using EscapedPath_setPath [OF assms(4) u assms(3)] by (simp_all add: emptyURL_def)
  ultimately show thesis unfolding Q_def by (rule that)
qed

text \<open>Where the scheme of a URL comes from.\<close>

lemma schemeFrom_splits:
  "schemeFrom raw taken s = Some (scheme, rest) \<Longrightarrow> scheme = [] \<or> taken @ s = scheme @ CHR '':'' # rest"
  by (induction raw taken s rule: schemeFrom.induct) (auto split: if_splits)

lemma setPath_scheme: "setPath u p = Some v \<Longrightarrow> urlScheme v = urlScheme u"
  by (auto simp: setPath_def)

lemma urlParse_scheme:
  assumes "urlParse s = Some u" and "urlScheme u \<noteq> []"
  obtains scheme rest where "s = scheme @ CHR '':'' # rest" and "urlScheme u = toLower scheme"
proof -
  define raw where "raw = takeWhile (\<lambda>c. c \<noteq> CHR ''#'') s"
  have p: "parseReference raw = Some u"
    using assms(1) by (auto simp: urlParse_def cutAt_def raw_def bind_eq_Some_conv)
  then have star: "raw \<noteq> ''*''" "\<not> list_ex ctlByte raw"
    using assms(2) by (auto simp: parseReference_def emptyURL_def split: if_splits)
  with p obtain scheme rest where g: "getScheme raw = Some (scheme, rest)"
    by (auto simp: parseReference_def bind_eq_Some_conv)
  moreover obtain path query where c: "cutAt (CHR ''?'') rest = (path, query)" by force
  have u: "urlScheme u = toLower scheme"
    using p star g c
    by (auto simp: parseReference_def bind_eq_Some_conv Let_def emptyURL_def dest!: setPath_scheme split: if_splits)
  moreover have "scheme \<noteq> []" using assms(2) u by (auto simp: toLower_def)
  ultimately have "raw = scheme @ CHR '':'' # rest"
    using schemeFrom_splits [of raw "[]" raw] by (auto simp: getScheme_def)
  moreover have "s = raw @ dropWhile (\<lambda>c. c \<noteq> CHR ''#'') s" by (simp add: raw_def)
  ultimately have "s = scheme @ CHR '':'' # (rest @ dropWhile (\<lambda>c. c \<noteq> CHR ''#'') s)"
    by (metis append.assoc append_Cons)
  with u show thesis by (rule that [rotated])
qed

lemma urlParse_opaque:
  assumes "list_all (\<lambda>c. \<not> ctlByte c \<and> c \<noteq> CHR ''#'' \<and> c \<noteq> CHR ''?'') rest" and "\<not> prefix ''/'' rest"
  shows "urlParse (''moqt:'' @ rest) = Some (emptyURL\<lparr>urlScheme := ''moqt'', urlOpaque := rest\<rparr>)"
proof -
  have "\<not> list_ex ctlByte ''moqt:''" by code_simp
  then have "\<not> list_ex ctlByte (''moqt:'' @ rest)"
    using assms(1) by (auto simp: list_ex_iff list_all_iff)
  moreover have "CHR ''#'' \<notin> set (''moqt:'' @ rest)" "CHR ''?'' \<notin> set rest"
    using assms(1) by (auto simp: list_all_iff)
  ultimately show ?thesis
    using cutAt_none [of "CHR ''#''" "''moqt:'' @ rest"] cutAt_none [of "CHR ''?''" rest] assms(2)
      getScheme_moqt [of rest] toLower_moqt
    by (simp add: urlParse_def parseReference_def theText_def emptyURL_def)
qed

end
