(* ===== verification/Client.thy ===== *)
theory Client
  imports MediaOutput Url
begin

text \<open>
  \<^verbatim>\<open>internal/quicclient/client.go\<close>: dialing the relay, and the configuration of \<^verbatim>\<open>internal/app/run.go\<close>.

  \<^verbatim>\<open>quic.DialAddr\<close> is a parameter of \<open>Dial\<close>; it gets the address and the TLS settings.
\<close>

subsection \<open>Dialing\<close>

definition Draft18ALPN :: string where
  "Draft18ALPN = ''moqt-18''"

record ClientConfig =
  ccRelayURI :: string
  ccInsecureSkipTLS :: bool
  ccALPN :: string
  ccHandshakeTimeout :: int

record DialArgs =
  daAddr :: string
  daNextProtos :: "string list"
  daServerName :: string
  daInsecureSkipVerify :: bool
  daEnableDatagrams :: bool
  daTimeout :: "int option"

definition Dial ::
    "(DialArgs \<Rightarrow> 'conn outcome) \<Rightarrow> ClientConfig \<Rightarrow> ('conn \<times> URL) outcome" where
  "Dial dialAddr cfg =
     obind (owrap ''parse relay uri: %w'' []
         (case urlParse (ccRelayURI cfg) of Some u \<Rightarrow> Ok u | None \<Rightarrow> Err ErrURL)) (\<lambda>relayURL.
       if urlScheme relayURL \<noteq> ''moqt''
       then Err (Errorf ''unsupported relay scheme %q (expected moqt)'' [FStr (urlScheme relayURL)])
       else
         let host = Hostname relayURL;
             port = Port relayURL;
             port = (if port = [] then ''443'' else port);
             addr = JoinHostPort host port;
             args = \<lparr>daAddr = addr, daNextProtos = [chooseStr (ccALPN cfg) Draft18ALPN],
                     daServerName = host, daInsecureSkipVerify = ccInsecureSkipTLS cfg,
                     daEnableDatagrams = True,
                     daTimeout = (if 0 < ccHandshakeTimeout cfg then Some (ccHandshakeTimeout cfg) else None)\<rparr>
         in obind (owrap ''quic dial: %w'' [] (dialAddr args)) (\<lambda>conn. Ok (conn, relayURL)))"

subsection \<open>The configuration of a run\<close>

record Config =
  cfgRelayURI :: string
  cfgNamespace :: string
  cfgOutput :: MediaConfig
  cfgClient :: ClientConfig
  cfgRichLogPath :: string

subsection \<open>Lemmas\<close>

abbreviation dialArgs :: "ClientConfig \<Rightarrow> string \<Rightarrow> string \<Rightarrow> DialArgs" where
  "dialArgs cfg addr host \<equiv>
     \<lparr>daAddr = addr, daNextProtos = [if ccALPN cfg = [] then ''moqt-18'' else ccALPN cfg], daServerName = host,
      daInsecureSkipVerify = ccInsecureSkipTLS cfg, daEnableDatagrams = True,
      daTimeout = (if 0 < ccHandshakeTimeout cfg then Some (ccHandshakeTimeout cfg) else None)\<rparr>"

lemma Dial_moqt:
  assumes "urlParse (ccRelayURI cfg) = Some u" and "urlScheme u = ''moqt''" and "Hostname u = host"
    and "JoinHostPort host (if Port u = [] then ''443'' else Port u) = addr"
  shows "Dial dialAddr cfg
    = obind (owrap ''quic dial: %w'' [] (dialAddr (dialArgs cfg addr host))) (\<lambda>conn. Ok (conn, u))"
  using assms(3,4) by (simp add: Dial_def assms(1,2) Let_def chooseStr_def Draft18ALPN_def)

text \<open>The four ways to write the host of a relay: with its address and its name for TLS.\<close>

lemma host_forms:
  assumes "hostText name" and "CHR '':'' \<notin> set name" and "CHR ''['' \<notin> set name"
    and "hostText v6" and "CHR '':'' \<in> set v6" and "list_all isDigit port"
    and "(hp, host, addr) \<in>
       {(name, name, name @ '':443''),
        (name @ '':'' @ port, name, name @ '':'' @ (if port = [] then ''443'' else port)),
        (''['' @ v6 @ '']'', v6, ''['' @ v6 @ '']:443''),
        (''['' @ v6 @ '']:'' @ port, v6, ''['' @ v6 @ '']:'' @ (if port = [] then ''443'' else port))}"
  shows "parseHost hp = Some hp" and "hostText hp" and "fst (splitHostPort hp) = host"
    and "JoinHostPort host (if snd (splitHostPort hp) = [] then ''443'' else snd (splitHostPort hp)) = addr"
proof -
  have name: "hd name \<noteq> CHR ''[''" if "name \<noteq> []" using assms(3) that by (metis hd_in_set)
  have v6: "splitHostPort (''['' @ v6 @ '']:'' @ port) = (v6, port)"
    using splitHostPort_port [OF assms(6), of "''['' @ v6 @ '']''"] by (simp add: butlast_append)
  have nm: "splitHostPort (name @ '':'' @ port) = (name, port)"
    using splitHostPort_port [OF assms(6), of name] name by auto
  note split = splitHostPort_plain [OF assms(2,3)] splitHostPort_bracket [of v6] v6 nm
  show "fst (splitHostPort hp) = host"
    using assms(7) split by auto
  show "JoinHostPort host (if snd (splitHostPort hp) = [] then ''443'' else snd (splitHostPort hp)) = addr"
    using assms(7) split assms(2,5) by (elim insertE; auto simp: JoinHostPort_def)
  have marks: "hostText ''[''" "hostText '']''" "hostText '':''" by code_simp+
  then show "hostText hp"
    using assms(7) assms(1,4) hostText_digits [OF assms(6)] by (elim insertE; auto)
  note plain = parseHost_plain [OF assms(1,3,2,6)] and bracket = parseHost_bracket [OF assms(4,6)]
  show "parseHost hp = Some hp"
    using assms(7) plain bracket [of "[]"] bracket [of "'':'' @ port"] by (elim insertE; auto)
qed

subsection \<open>Properties\<close>

text \<open>C36: Only \<^verbatim>\<open>moqt\<close> URLs are dialed: with any other text the client fails before it dials.  But a relay without
  its slashes is taken for a URL without a host: \<^verbatim>\<open>moqt:relay\<close> is not refused, it dials port 443 of the machine
  the program runs on, with an empty server name.\<close>

theorem Dial_scheme:
  "(toLower (take 5 (ccRelayURI cfg)) \<noteq> ''moqt:'' \<longrightarrow> (\<exists>e. \<forall>dialAddr. Dial dialAddr cfg = Err e))
   \<and> (ccRelayURI cfg = ''moqt:'' @ rest \<and> \<not> prefix ''/'' rest
      \<and> list_all (\<lambda>c. \<not> ctlByte c \<and> c \<noteq> CHR ''#'' \<and> c \<noteq> CHR ''?'') rest \<longrightarrow>
      (\<exists>u. \<forall>dialAddr. Dial dialAddr cfg
         = obind (owrap ''quic dial: %w'' [] (dialAddr (dialArgs cfg '':443'' []))) (\<lambda>conn. Ok (conn, u))))"
proof (intro conjI impI)
  assume other: "toLower (take 5 (ccRelayURI cfg)) \<noteq> ''moqt:''"
  show "\<exists>e. \<forall>dialAddr. Dial dialAddr cfg = Err e"
  proof (cases "urlParse (ccRelayURI cfg)")
    case (Some u)
    have "urlScheme u \<noteq> ''moqt''"
    proof
      assume m: "urlScheme u = ''moqt''"
      then have "urlScheme u \<noteq> []" by simp
      with Some obtain scheme r where s: "ccRelayURI cfg = scheme @ CHR '':'' # r" "urlScheme u = toLower scheme"
        by (rule urlParse_scheme)
      with m have "length (toLower scheme) = 4" by simp
      then have "length scheme = 4" by (simp add: toLower_def)
      then have "take 5 (ccRelayURI cfg) = scheme @ '':''" by (simp add: s(1))
      moreover have "toLower '':'' = '':''" by code_simp
      ultimately show False using other s(2) m by (simp add: toLower_def)
    qed
    with Some show ?thesis by (simp add: Dial_def)
  qed (simp add: Dial_def)
next
  assume r: "ccRelayURI cfg = ''moqt:'' @ rest \<and> \<not> prefix ''/'' rest
      \<and> list_all (\<lambda>c. \<not> ctlByte c \<and> c \<noteq> CHR ''#'' \<and> c \<noteq> CHR ''?'') rest"
  then have u: "urlParse (ccRelayURI cfg) = Some (emptyURL\<lparr>urlScheme := ''moqt'', urlOpaque := rest\<rparr>)"
    using urlParse_opaque [of rest] by simp
  show "\<exists>u. \<forall>dialAddr. Dial dialAddr cfg
         = obind (owrap ''quic dial: %w'' [] (dialAddr (dialArgs cfg '':443'' []))) (\<lambda>conn. Ok (conn, u))"
    by (intro exI [where x = "emptyURL\<lparr>urlScheme := ''moqt'', urlOpaque := rest\<rparr>"] allI Dial_moqt [OF u])
      (simp_all add: emptyURL_def Hostname_def Port_def splitHostPort_def cutLast_none JoinHostPort_def)
qed

theorem Dial_scheme_witness:
  "(\<exists>e. Dial (\<lambda>a. Ok (daAddr a)) \<lparr>ccRelayURI = ''https://h'', ccInsecureSkipTLS = True, ccALPN = [],
        ccHandshakeTimeout = 0\<rparr> = Err e)
   \<and> (\<exists>u. Dial (\<lambda>a. Ok (daAddr a)) \<lparr>ccRelayURI = ''moqt:relay'', ccInsecureSkipTLS = True, ccALPN = [],
        ccHandshakeTimeout = 0\<rparr> = Ok ('':443'', u))"
proof -
  let ?cfg = "\<lambda>s. \<lparr>ccRelayURI = s, ccInsecureSkipTLS = True, ccALPN = [], ccHandshakeTimeout = 0\<rparr>"
  have "toLower ''https'' \<noteq> ''moqt:''" by code_simp
  then have "\<exists>e. Dial (\<lambda>a. Ok (daAddr a)) (?cfg ''https://h'') = Err e"
    using Dial_scheme [where cfg = "?cfg ''https://h''" and rest = "[]"] by auto
  moreover have "list_all (\<lambda>c. \<not> ctlByte c \<and> c \<noteq> CHR ''#'' \<and> c \<noteq> CHR ''?'') ''relay''" by code_simp
  then have "ccRelayURI (?cfg ''moqt:relay'') = ''moqt:'' @ ''relay'' \<and> \<not> prefix ''/'' ''relay''
      \<and> list_all (\<lambda>c. \<not> ctlByte c \<and> c \<noteq> CHR ''#'' \<and> c \<noteq> CHR ''?'') ''relay''" by simp
  from mp [OF conjunct2 [OF Dial_scheme] this]
  obtain u where "\<forall>dialAddr :: DialArgs \<Rightarrow> string outcome. Dial dialAddr (?cfg ''moqt:relay'')
      = obind (owrap ''quic dial: %w'' [] (dialAddr (dialArgs (?cfg ''moqt:relay'') '':443'' []))) (\<lambda>conn. Ok (conn, u))"
    by (rule exE)
  from spec [OF this, of "\<lambda>a. Ok (daAddr a)"]
  have "Dial (\<lambda>a. Ok (daAddr a)) (?cfg ''moqt:relay'') = Ok ('':443'', u)" by simp
  ultimately show ?thesis by blast
qed

end
