(* ===== verification/GoTime.thy ===== *)
theory GoTime
  imports Format
begin

text \<open>
  The part of Go's \<^verbatim>\<open>time\<close> package the program formats and reads times with.  An instant is the
  number of nanoseconds since 1970 in UTC, a duration a number of nanoseconds.  \<open>zone\<close> is the local
  time zone: the seconds by which its clocks are ahead of UTC at an instant.
\<close>

subsection \<open>Clock and calendar\<close>

definition twoDigits :: "nat \<Rightarrow> string" where
  "twoDigits n = [digitChar (n div 10 mod 10), digitChar (n mod 10)]"

definition localNanos :: "(int \<Rightarrow> int) \<Rightarrow> int \<Rightarrow> int" where
  "localNanos zone t = t + zone t * 10 ^ 9"

text \<open>\<^verbatim>\<open>Format("15:04:05")\<close>, and with \<^verbatim>\<open>.000\<close>, which cuts the digits it does not print.\<close>

definition clockText :: "(int \<Rightarrow> int) \<Rightarrow> int \<Rightarrow> string" where
  "clockText zone t =
     (let s = nat (localNanos zone t div 10 ^ 9 mod 86400)
      in twoDigits (s div 3600) @ '':'' @ twoDigits (s div 60 mod 60) @ '':'' @ twoDigits (s mod 60))"

definition clockMillis :: "(int \<Rightarrow> int) \<Rightarrow> int \<Rightarrow> string" where
  "clockMillis zone t =
     (let ms = nat (localNanos zone t mod 10 ^ 9 div 10 ^ 6)
      in clockText zone t @ ''.'' @ digitChar (ms div 100) # twoDigits (ms mod 100))"

text \<open>
  The proleptic Gregorian date of a day, counted from 1970-01-01: eras of 400 years of 146097 days,
  years from 1 March, so that a leap day ends its year.
\<close>

definition dateOfDay :: "int \<Rightarrow> int \<times> nat \<times> nat" where
  "dateOfDay day =
     (let z = day + 719468; era = z div 146097; doe = z mod 146097;
          yoe = (doe - doe div 1460 + doe div 36524 - doe div 146096) div 365;
          doy = doe - (365 * yoe + yoe div 4 - yoe div 100);
          mp = (5 * doy + 2) div 153;
          month = (if mp < 10 then mp + 3 else mp - 9)
      in (yoe + era * 400 + (if month \<le> 2 then 1 else 0), nat month, nat (doy - (153 * mp + 2) div 5 + 1)))"

text \<open>\<^verbatim>\<open>Format("2006-01-02 15:04:05")\<close>, for a year of our era; a year is padded to four digits.\<close>

definition dateText :: "(int \<Rightarrow> int) \<Rightarrow> int \<Rightarrow> string" where
  "dateText zone t =
     (let (y, m, d) = dateOfDay (localNanos zone t div 10 ^ 9 div 86400); ys = showBase 10 (nat y)
      in replicate (4 - length ys) (CHR ''0'') @ ys @ ''-'' @ twoDigits m @ ''-'' @ twoDigits d
         @ '' '' @ clockText zone t)"

subsection \<open>Durations\<close>

text \<open>\<^verbatim>\<open>Duration.Round\<close>: to the nearest multiple, halves away from zero.\<close>

definition durationRound :: "int \<Rightarrow> int \<Rightarrow> int" where
  "durationRound d m =
     (let x = \<bar>d\<bar> mod m; y = (if 2 * x < m then \<bar>d\<bar> - x else \<bar>d\<bar> + m - x) in if d < 0 then - y else y)"

text \<open>\<^verbatim>\<open>fmtFrac\<close>: the fraction of \<open>v / 10 ^ prec\<close> without trailing zeros, and without a point when it is 0.\<close>

definition fracText :: "nat \<Rightarrow> nat \<Rightarrow> string" where
  "fracText prec v =
     (let ds = map (\<lambda>i. digitChar (v div 10 ^ (prec - 1 - i) mod 10)) [0..<prec];
          ds = rev (dropWhile (\<lambda>c. c = CHR ''0'') (rev ds))
      in if ds = [] then [] else CHR ''.'' # ds)"

definition micro :: string where
  "micro = [CHR 0xC2, CHR 0xB5]"

text \<open>\<^verbatim>\<open>Duration.String\<close>.\<close>

definition durationText :: "int \<Rightarrow> string" where
  "durationText d =
     (let u = nat \<bar>d\<bar>;
          text = (if u = 0 then ''0s''
            else if u < 10 ^ 3 then showBase 10 u @ ''ns''
            else if u < 10 ^ 6 then showBase 10 (u div 10 ^ 3) @ fracText 3 u @ micro @ ''s''
            else if u < 10 ^ 9 then showBase 10 (u div 10 ^ 6) @ fracText 6 u @ ''ms''
            else (let s = u div 10 ^ 9; m = s div 60; h = m div 60
                  in (if 0 < h then showBase 10 h @ ''h'' else [])
                     @ (if 0 < m then showBase 10 (m mod 60) @ ''m'' else [])
                     @ showBase 10 (s mod 60) @ fracText 9 u @ ''s''))
      in if d < 0 then CHR ''-'' # text else text)"

end
