(* ===== verification/RichLog.thy ===== *)
theory RichLog
  imports GoTime "HOL-Library.AList" "HOL-Library.List_Lexorder" "HOL-Library.Char_ord"
    "HOL-Library.Log_Nat"
begin

text \<open>
  \<^verbatim>\<open>internal/richlog\<close>: the recorder of protocol events (\<^verbatim>\<open>richlog.go\<close>) and the functions
  of \<^verbatim>\<open>html.go\<close> the page calls.

  A \<^verbatim>\<open>*Recorder\<close> is \<open>None\<close> when it is \<^verbatim>\<open>nil\<close>.  A \<^verbatim>\<open>*objectGroup\<close> is shared by the event that
  shows it and the map that finds it, so groups live in a store of their own and both hold the
  index.  \<^verbatim>\<open>time.Now()\<close> is an argument, in nanoseconds, with 0 for the zero time.  A text built by
  \<^verbatim>\<open>fmt.Sprintf\<close> is kept as the call, its format and its arguments; \<open>render\<close> evaluates it.
  The page itself is in theory \<open>Page\<close>.
\<close>

type_synonym ftext = "string \<times> fmt_arg list"

definition render :: "(string \<Rightarrow> string) \<Rightarrow> ftext \<Rightarrow> string" where
  "render quoted x = sprintfWith quoted (fst x) (snd x)"

definition lit :: "string \<Rightarrow> ftext" where
  "lit s = (''%s'', [FStr s])"

definition specBase :: string where
  "specBase = ''https://datatracker.ietf.org/doc/html/draft-ietf-moq-transport-18''"

datatype Direction = DirSent | DirRecv | DirLocal

fun dirString :: "Direction \<Rightarrow> string" where
  "dirString DirSent = ''sent''"
| "dirString DirRecv = ''received''"
| "dirString DirLocal = ''local''"

record Field =
  fieldKey :: ftext
  fieldValue :: ftext

record SpecRef =
  specLabel :: string
  specSection :: string

definition specURL :: "SpecRef \<Rightarrow> string" where
  "specURL s = (if specSection s = [] then [] else specBase @ ''#section-'' @ specSection s)"

record objectRow =
  rowTime :: int
  rowObjectID :: u64
  rowBytes :: int

text \<open>\<open>grpTotalBytes\<close> is an \<^verbatim>\<open>int64\<close>, read by \<open>sint\<close>.\<close>

record objectGroup =
  grpStreamID :: int
  grpTrack :: string
  grpTrackAlias :: u64
  grpGroupID :: u64
  grpRows :: "objectRow list"
  grpTotalBytes :: u64

record Event =
  evTime :: int
  evDir :: Direction
  evChannel :: ftext
  evName :: string
  evSummary :: ftext
  evFields :: "Field list"
  evExplain :: string
  evSpec :: SpecRef
  evBody :: string
  evObjects :: "nat option"

definition noSpec :: SpecRef where
  "noSpec = \<lparr>specLabel = [], specSection = []\<rparr>"

record Recorder =
  recMeta :: "(string \<times> string) list"
  recEvents :: "Event list"
  recGroups :: "string \<rightharpoonup> nat"
  recStore :: "objectGroup list"
  recStart :: int

definition newRecorder :: "int \<Rightarrow> Recorder" where
  "newRecorder now =
     \<lparr>recMeta = [], recEvents = [], recGroups = Map.empty, recStore = [], recStart = now\<rparr>"

fun SetMeta :: "string \<Rightarrow> string \<Rightarrow> Recorder option \<Rightarrow> Recorder option" where
  "SetMeta key v None = None"
| "SetMeta key v (Some r) = Some (r\<lparr>recMeta := AList.update key v (recMeta r)\<rparr>)"

fun Add :: "int \<Rightarrow> Event \<Rightarrow> Recorder option \<Rightarrow> Recorder option" where
  "Add now ev None = None"
| "Add now ev (Some r) =
     Some (r\<lparr>recEvents := recEvents r @ [if evTime ev = 0 then ev\<lparr>evTime := now\<rparr> else ev]\<rparr>)"

definition explainObjects :: string where
  "explainObjects = ''Media objects delivered on this subgroup stream. Each object is one payload (here, a CMAF moof+mdat fragment or part of one). Object IDs are delta-encoded on the wire and increase within the subgroup.''"

definition groupKey :: "int \<Rightarrow> u64 \<Rightarrow> string" where
  "groupKey streamID groupID = sprintf ''%d/%d'' [FInt streamID, FU64 groupID]"

text \<open>The group of an object: the one on record, or a new one with its event.\<close>

definition objectGroupFor ::
    "int \<Rightarrow> int \<Rightarrow> string \<Rightarrow> u64 \<Rightarrow> u64 \<Rightarrow> Recorder \<Rightarrow> nat \<times> Recorder" where
  "objectGroupFor now streamID track trackAlias groupID r =
     (case recGroups r (groupKey streamID groupID) of
        Some grp \<Rightarrow> (grp, r)
      | None \<Rightarrow>
          let grp = length (recStore r) in
          (grp, r\<lparr>recStore := recStore r @ [\<lparr>grpStreamID = streamID, grpTrack = track,
                     grpTrackAlias = trackAlias, grpGroupID = groupID, grpRows = [],
                     grpTotalBytes = 0\<rparr>],
                  recGroups := (recGroups r)(groupKey streamID groupID \<mapsto> grp),
                  recEvents := recEvents r @
                    [\<lparr>evTime = now, evDir = DirRecv,
                      evChannel = (''subgroup stream %d'', [FInt streamID]),
                      evName = ''OBJECTS'', evSummary = lit [], evFields = [],
                      evExplain = explainObjects,
                      evSpec = \<lparr>specLabel = ''Objects'', specSection = ''11.2''\<rparr>,
                      evBody = [], evObjects = Some grp\<rparr>]\<rparr>))"

fun AddObject ::
    "int \<Rightarrow> int \<Rightarrow> string \<Rightarrow> u64 \<Rightarrow> u64 \<Rightarrow> u64 \<Rightarrow> int \<Rightarrow> Recorder option \<Rightarrow> Recorder option" where
  "AddObject now streamID track trackAlias groupID objectID payloadBytes None = None"
| "AddObject now streamID track trackAlias groupID objectID payloadBytes (Some r) =
     (let (grp, r') = objectGroupFor now streamID track trackAlias groupID r;
          g = recStore r' ! grp;
          g' = g\<lparr>grpRows := grpRows g @ [\<lparr>rowTime = now, rowObjectID = objectID, rowBytes = payloadBytes\<rparr>],
                 grpTotalBytes := grpTotalBytes g + word_of_int payloadBytes\<rparr>
      in Some (r'\<lparr>recStore := (recStore r')[grp := g']\<rparr>))"

subsection \<open>What the page shows\<close>

text \<open>
  \<^verbatim>\<open>%.1f\<close> of \<^verbatim>\<open>float64(n) / (1 << k)\<close> for a non-negative \<^verbatim>\<open>n\<close>: the conversion rounds to 53 bits, the
  division is exact, the formatting rounds the exact value to one decimal, ties to even both times.
\<close>

definition divRound :: "nat \<Rightarrow> nat \<Rightarrow> nat" where
  "divRound a b = (let q = a div b; m = a mod b in
     if 2 * m < b \<or> (2 * m = b \<and> even q) then q else q + 1)"

definition toFloat64 :: "nat \<Rightarrow> nat" where
  "toFloat64 n = (let k = floorlog 2 n - 53 in divRound n (2 ^ k) * 2 ^ k)"

definition showTenths :: "nat \<Rightarrow> string" where
  "showTenths t = showBase 10 (t div 10) @ ''.'' @ showBase 10 (t mod 10)"

definition humanBytes :: "int \<Rightarrow> string" where
  "humanBytes n =
     (if 2 ^ 20 \<le> n then showTenths (divRound (10 * toFloat64 (nat n)) (2 ^ 20)) @ '' MB''
      else if 2 ^ 10 \<le> n then showTenths (divRound (10 * toFloat64 (nat n)) (2 ^ 10)) @ '' KB''
      else sprintf ''%d B'' [FInt n])"

definition middot :: string where "middot = [CHR 0xC2, CHR 0xB7]"
definition enDash :: string where "enDash = [CHR 0xE2, CHR 0x80, CHR 0x93]"
definition emDash :: string where "emDash = [CHR 0xE2, CHR 0x80, CHR 0x94]"

definition summaryLine :: "objectGroup list \<Rightarrow> Event \<Rightarrow> ftext" where
  "summaryLine store ev =
     (case evObjects ev of
        Some i \<Rightarrow>
          let g = store ! i;
              (first, final) = (if grpRows g \<noteq> []
                then (rowObjectID (hd (grpRows g)), rowObjectID (last (grpRows g))) else (0, 0))
          in (''track %s '' @ middot @ '' group %d '' @ middot @ '' %d objects (ids %d'' @ enDash
                @ ''%d) '' @ middot @ '' %s'',
              [FStr (grpTrack g), FU64 (grpGroupID g), FInt (int (length (grpRows g))),
               FU64 first, FU64 final, FStr (humanBytes (sint (grpTotalBytes g)))])
      | None \<Rightarrow> evSummary ev)"

definition dirClass :: "Direction \<Rightarrow> string" where
  "dirClass d = ''dir-'' @ dirString d"

fun dirLabel :: "Direction \<Rightarrow> string" where
  "dirLabel DirSent = [CHR 0xE2, CHR 0x86, CHR 0x92] @ '' sent''"
| "dirLabel DirRecv = [CHR 0xE2, CHR 0x86, CHR 0x90] @ '' recv''"
| "dirLabel DirLocal = middot @ '' local''"

subsection \<open>Groups: lemmas\<close>

text \<open>Two streams, or two groups of a stream, never share a key.\<close>

lemma groupKey_eq: "groupKey s g = showInt s @ CHR ''/'' # showBase 10 (unat g)"
  by (simp add: groupKey_def)

lemma groupKey_inj [simp]: "groupKey s g = groupKey s' g' \<longleftrightarrow> s = s' \<and> g = g'"
proof
  assume eq: "groupKey s g = groupKey s' g'"
  have tw: "takeWhile (\<lambda>c. c \<noteq> CHR ''/'') (groupKey a b) = showInt a" for a b
    using showInt_no_slash [of a] by (auto simp: groupKey_eq takeWhile_tail)
  have "showInt s = showInt s'" using tw eq by metis
  moreover from this have "showBase 10 (unat g) = showBase 10 (unat g')" using eq by (simp add: groupKey_eq)
  ultimately show "s = s' \<and> g = g'" using showInt_inj showBase_inj [of 10 "unat g" "unat g'"]
    by (simp add: word_unat_eq_iff)
qed simp

text \<open>The operations on a recorder, and what was recorded for one stream and group.\<close>

datatype recop =
    OpMeta string string
  | OpAdd int Event
  | OpObject int int string u64 u64 u64 int

fun recStep :: "recop \<Rightarrow> Recorder option \<Rightarrow> Recorder option" where
  "recStep (OpMeta k v) r = SetMeta k v r"
| "recStep (OpAdd now ev) r = Add now ev r"
| "recStep (OpObject now s t a g i n) r = AddObject now s t a g i n r"

definition rowsOf :: "int \<Rightarrow> u64 \<Rightarrow> recop list \<Rightarrow> objectRow list" where
  "rowsOf s g ops =
     [\<lparr>rowTime = now, rowObjectID = i, rowBytes = n\<rparr>. OpObject now s' t a g' i n \<leftarrow> ops, s' = s \<and> g' = g]"

text \<open>Callers outside the package cannot set the private field of an event.\<close>

fun plainOp :: "recop \<Rightarrow> bool" where
  "plainOp (OpAdd now ev) = (evObjects ev = None)"
| "plainOp _ = True"

abbreviation shownGroups :: "Recorder \<Rightarrow> nat list" where
  "shownGroups r \<equiv> List.map_filter evObjects (recEvents r)"

definition recorded :: "recop list \<Rightarrow> Recorder \<Rightarrow> bool" where
  "recorded ops r \<longleftrightarrow>
     (\<forall>s g. case recGroups r (groupKey s g) of
        None \<Rightarrow> rowsOf s g ops = []
      | Some i \<Rightarrow> i < length (recStore r) \<and> rowsOf s g ops \<noteq> []
          \<and> grpStreamID (recStore r ! i) = s \<and> grpGroupID (recStore r ! i) = g
          \<and> grpRows (recStore r ! i) = rowsOf s g ops
          \<and> grpTotalBytes (recStore r ! i) = (\<Sum>x\<leftarrow>rowsOf s g ops. word_of_int (rowBytes x)))
     \<and> shownGroups r = [0..<length (recStore r)]"

lemma map_filter_append: "List.map_filter f (xs @ ys) = List.map_filter f xs @ List.map_filter f ys"
  by (simp add: List.map_filter_def)

lemma map_filter_one: "List.map_filter f [x] = (case f x of None \<Rightarrow> [] | Some y \<Rightarrow> [y])"
  by (simp add: List.map_filter_def split: option.splits)

lemma rowsOf_snoc [simp]:
  "rowsOf s g (ops @ [OpMeta k v]) = rowsOf s g ops"
  "rowsOf s g (ops @ [OpAdd now ev]) = rowsOf s g ops"
  "rowsOf s g (ops @ [OpObject now s' t a g' i n]) = rowsOf s g ops @
     (if s' = s \<and> g' = g then [\<lparr>rowTime = now, rowObjectID = i, rowBytes = n\<rparr>] else [])"
  by (auto simp: rowsOf_def)

lemma recorded_new: "recorded [] (newRecorder now)"
  by (simp add: recorded_def newRecorder_def rowsOf_def List.map_filter_def)

lemma recordedD:
  assumes "recorded ops r"
  shows "recGroups r (groupKey s g) = None \<Longrightarrow> rowsOf s g ops = []"
    and "recGroups r (groupKey s g) = Some i \<Longrightarrow>
      i < length (recStore r) \<and> rowsOf s g ops \<noteq> []
          \<and> grpStreamID (recStore r ! i) = s \<and> grpGroupID (recStore r ! i) = g
          \<and> grpRows (recStore r ! i) = rowsOf s g ops
          \<and> grpTotalBytes (recStore r ! i) = (\<Sum>x\<leftarrow>rowsOf s g ops. word_of_int (rowBytes x))"
    and "shownGroups r = [0..<length (recStore r)]"
proof -
  have c: "case recGroups r (groupKey s g) of
        None \<Rightarrow> rowsOf s g ops = []
      | Some i \<Rightarrow> i < length (recStore r) \<and> rowsOf s g ops \<noteq> []
          \<and> grpStreamID (recStore r ! i) = s \<and> grpGroupID (recStore r ! i) = g
          \<and> grpRows (recStore r ! i) = rowsOf s g ops
          \<and> grpTotalBytes (recStore r ! i) = (\<Sum>x\<leftarrow>rowsOf s g ops. word_of_int (rowBytes x))"
    using assms unfolding recorded_def by blast
  then show "recGroups r (groupKey s g) = None \<Longrightarrow> rowsOf s g ops = []" by simp
  show "shownGroups r = [0..<length (recStore r)]" using assms unfolding recorded_def by blast
  assume "recGroups r (groupKey s g) = Some i"
  with c show "i < length (recStore r) \<and> rowsOf s g ops \<noteq> []
          \<and> grpStreamID (recStore r ! i) = s \<and> grpGroupID (recStore r ! i) = g
          \<and> grpRows (recStore r ! i) = rowsOf s g ops
          \<and> grpTotalBytes (recStore r ! i) = (\<Sum>x\<leftarrow>rowsOf s g ops. word_of_int (rowBytes x))"
    by simp
qed

text \<open>A group that is on record is the same for no other stream or group.\<close>

lemma recorded_other:
  assumes "recorded ops r" and "recGroups r (groupKey s g) = Some i"
    and "recGroups r (groupKey s' g') = Some j" and "(s', g') \<noteq> (s, g)"
  shows "i \<noteq> j"
  using recordedD(2) [OF assms(1,2)] recordedD(2) [OF assms(1,3)] assms(4) by auto

text \<open>Making the group changes nothing that is recorded.\<close>

definition groupReady :: "recop list \<Rightarrow> int \<Rightarrow> u64 \<Rightarrow> nat \<Rightarrow> Recorder \<Rightarrow> bool" where
  "groupReady ops s g i r \<longleftrightarrow>
     (\<forall>s' g'. case recGroups r (groupKey s' g') of
        None \<Rightarrow> rowsOf s' g' ops = [] \<and> (s', g') \<noteq> (s, g)
      | Some j \<Rightarrow> j < length (recStore r) \<and> (rowsOf s' g' ops \<noteq> [] \<or> (s', g') = (s, g))
          \<and> ((s', g') = (s, g) \<longleftrightarrow> j = i)
          \<and> grpStreamID (recStore r ! j) = s' \<and> grpGroupID (recStore r ! j) = g'
          \<and> grpRows (recStore r ! j) = rowsOf s' g' ops
          \<and> grpTotalBytes (recStore r ! j) = (\<Sum>x\<leftarrow>rowsOf s' g' ops. word_of_int (rowBytes x)))
     \<and> shownGroups r = [0..<length (recStore r)]"

lemma objectGroupFor_ready:
  assumes rec: "recorded ops r" and o: "objectGroupFor now s t a g r = (i, r')"
  shows "groupReady ops s g i r'"
proof (cases "recGroups r (groupKey s g)")
  case (Some k)
  with o have "r' = r" "k = i" by (simp_all add: objectGroupFor_def)
  then show ?thesis
    using Some recordedD [OF rec] recorded_other [OF rec Some]
    unfolding groupReady_def by (auto split: option.splits) metis+
next
  case None
  let ?new = "\<lparr>grpStreamID = s, grpTrack = t, grpTrackAlias = a, grpGroupID = g, grpRows = [],
    grpTotalBytes = 0\<rparr>"
  from None o have r': "recStore r' = recStore r @ [?new]" "i = length (recStore r)"
    "recGroups r' = (recGroups r)(groupKey s g \<mapsto> i)" "shownGroups r' = shownGroups r @ [i]"
    by (auto simp: objectGroupFor_def Let_def map_filter_append map_filter_one)
  show ?thesis
    unfolding groupReady_def
  proof (intro conjI allI)
    show "shownGroups r' = [0..<length (recStore r')]" using r' recordedD(3) [OF rec] by simp
    fix s' g'
    show "case recGroups r' (groupKey s' g') of
        None \<Rightarrow> rowsOf s' g' ops = [] \<and> (s', g') \<noteq> (s, g)
      | Some j \<Rightarrow> j < length (recStore r') \<and> (rowsOf s' g' ops \<noteq> [] \<or> (s', g') = (s, g))
          \<and> ((s', g') = (s, g) \<longleftrightarrow> j = i)
          \<and> grpStreamID (recStore r' ! j) = s' \<and> grpGroupID (recStore r' ! j) = g'
          \<and> grpRows (recStore r' ! j) = rowsOf s' g' ops
          \<and> grpTotalBytes (recStore r' ! j) = (\<Sum>x\<leftarrow>rowsOf s' g' ops. word_of_int (rowBytes x))"
    proof (cases "(s', g') = (s, g)")
      case True
      with r' recordedD(1) [OF rec None] show ?thesis by simp
    next
      case False
      with r' have k: "recGroups r' (groupKey s' g') = recGroups r (groupKey s' g')" by auto
      show ?thesis
      proof (cases "recGroups r (groupKey s' g')")
        case None
        with False k recordedD(1) [OF rec None] show ?thesis by simp
      next
        case (Some j)
        with False k r' recordedD(2) [OF rec Some] show ?thesis by (auto simp: nth_append)
      qed
    qed
  qed
qed

lemma recorded_AddObject:
  assumes "recorded ops r" and "AddObject now s t a g i n (Some r) = Some r'"
  shows "recorded (ops @ [OpObject now s t a g i n]) r'"
proof -
  obtain k q where q: "objectGroupFor now s t a g r = (k, q)" by fastforce
  note ready = objectGroupFor_ready [OF assms(1) q]
  from assms(2) q have r': "r' = q\<lparr>recStore := (recStore q)[k := (recStore q ! k)
      \<lparr>grpRows := grpRows (recStore q ! k) @ [\<lparr>rowTime = now, rowObjectID = i, rowBytes = n\<rparr>],
       grpTotalBytes := grpTotalBytes (recStore q ! k) + word_of_int n\<rparr>]\<rparr>"
    by (simp add: Let_def)
  show ?thesis
    unfolding recorded_def
  proof (intro conjI allI)
    fix s' g'
    from ready have "case recGroups q (groupKey s' g') of
        None \<Rightarrow> rowsOf s' g' ops = [] \<and> (s', g') \<noteq> (s, g)
      | Some j \<Rightarrow> j < length (recStore q) \<and> (rowsOf s' g' ops \<noteq> [] \<or> (s', g') = (s, g))
          \<and> ((s', g') = (s, g) \<longleftrightarrow> j = k)
          \<and> grpStreamID (recStore q ! j) = s' \<and> grpGroupID (recStore q ! j) = g'
          \<and> grpRows (recStore q ! j) = rowsOf s' g' ops
          \<and> grpTotalBytes (recStore q ! j) = (\<Sum>x\<leftarrow>rowsOf s' g' ops. word_of_int (rowBytes x))"
      unfolding groupReady_def by blast
    then show "case recGroups r' (groupKey s' g') of
        None \<Rightarrow> rowsOf s' g' (ops @ [OpObject now s t a g i n]) = []
      | Some j \<Rightarrow> j < length (recStore r') \<and> rowsOf s' g' (ops @ [OpObject now s t a g i n]) \<noteq> []
          \<and> grpStreamID (recStore r' ! j) = s' \<and> grpGroupID (recStore r' ! j) = g'
          \<and> grpRows (recStore r' ! j) = rowsOf s' g' (ops @ [OpObject now s t a g i n])
          \<and> grpTotalBytes (recStore r' ! j)
            = (\<Sum>x\<leftarrow>rowsOf s' g' (ops @ [OpObject now s t a g i n]). word_of_int (rowBytes x))"
      unfolding r' by (cases "(s', g') = (s, g)") (auto split: option.splits)
  next
    show "shownGroups r' = [0..<length (recStore r')]"
      using ready unfolding groupReady_def r' by simp
  qed
qed

lemma recorded_cong:
  assumes "recorded ops r" and "recGroups r' = recGroups r" and "recStore r' = recStore r"
    and "shownGroups r' = shownGroups r" and "\<And>s g. rowsOf s g ops' = rowsOf s g ops"
  shows "recorded ops' r'"
  using assms(1) unfolding recorded_def assms(2-5) .

lemma recorded_step:
  assumes "recorded ops r" and "recStep x (Some r) = Some r'" and "plainOp x"
  shows "recorded (ops @ [x]) r'"
proof (cases x)
  case (OpMeta k v)
  with assms show ?thesis by (auto intro: recorded_cong)
next
  case (OpAdd now ev)
  with assms show ?thesis
    by (auto intro!: recorded_cong [OF assms(1)] simp: map_filter_append map_filter_one)
next
  case (OpObject now s t a g i n)
  with assms show ?thesis using recorded_AddObject by simp
qed

lemma recStep_Some: "\<exists>r'. recStep x (Some r) = Some r'"
  by (cases x) (auto simp: Let_def split: prod.splits)

lemma recorded_run:
  "\<forall>x\<in>set ops. plainOp x \<Longrightarrow> \<exists>r. fold recStep ops (Some (newRecorder now)) = Some r \<and> recorded ops r"
proof (induction ops rule: rev_induct)
  case Nil
  show ?case by (simp add: recorded_new)
next
  case (snoc x ops)
  then obtain r where "fold recStep ops (Some (newRecorder now)) = Some r" "recorded ops r" by auto
  with snoc.prems show ?case using recorded_step [of ops r x] recStep_Some [of x r] by auto
qed

lemma recStep_None: "fold recStep ops None = None"
proof (induction ops)
  case (Cons x ops)
  then show ?case by (cases x) simp_all
qed simp

subsection \<open>One event per group, in the order of first delivery\<close>

definition objPairs :: "recop list \<Rightarrow> (int \<times> u64) list" where
  "objPairs ops = [(s, g). OpObject now s t a g i n \<leftarrow> ops]"

definition firstsOf :: "'a list \<Rightarrow> 'a list" where
  "firstsOf xs = rev (remdups (rev xs))"

abbreviation storePairs :: "Recorder \<Rightarrow> (int \<times> u64) list" where
  "storePairs r \<equiv> map (\<lambda>g. (grpStreamID g, grpGroupID g)) (recStore r)"

lemma firstsOf_snoc: "firstsOf (xs @ [x]) = (if x \<in> set xs then firstsOf xs else firstsOf xs @ [x])"
  by (simp add: firstsOf_def)

lemma objPairs_snoc [simp]:
  "objPairs (ops @ [OpMeta k v]) = objPairs ops"
  "objPairs (ops @ [OpAdd now ev]) = objPairs ops"
  "objPairs (ops @ [OpObject now s t a g i n]) = objPairs ops @ [(s, g)]"
  by (simp_all add: objPairs_def)

lemma rowsOf_Nil_iff: "rowsOf s g ops = [] \<longleftrightarrow> (s, g) \<notin> set (objPairs ops)"
proof (induction ops rule: rev_induct)
  case (snoc x ops)
  then show ?case by (cases x) auto
qed (simp add: rowsOf_def objPairs_def)

lemma storePairs_for:
  assumes "recorded ops r" and "objectGroupFor now s t a g r = (i, r')"
    and "storePairs r = firstsOf (objPairs ops)"
  shows "storePairs r' = firstsOf (objPairs ops @ [(s, g)])"
proof (cases "recGroups r (groupKey s g)")
  case None
  with assms recordedD(1) [OF assms(1) None] show ?thesis
    by (auto simp: objectGroupFor_def Let_def firstsOf_snoc rowsOf_Nil_iff)
next
  case (Some k)
  with assms recordedD(2) [OF assms(1) Some] show ?thesis
    by (auto simp: objectGroupFor_def firstsOf_snoc rowsOf_Nil_iff)
qed

lemma map_update_same: "f y = f (xs ! i) \<Longrightarrow> map f (xs[i := y]) = map f xs"
  by (metis list_update_id map_update)

lemma storePairs_step:
  assumes "recorded ops r" and "recStep x (Some r) = Some r'"
    and "storePairs r = firstsOf (objPairs ops)"
  shows "storePairs r' = firstsOf (objPairs (ops @ [x]))"
proof (cases x)
  case (OpObject now s t a g i n)
  obtain k q where "objectGroupFor now s t a g r = (k, q)" by fastforce
  with assms OpObject storePairs_for [OF assms(1) this assms(3)] show ?thesis
    by (auto simp: Let_def map_update_same)
qed (use assms in auto)

lemma storePairs_run:
  "\<forall>x\<in>set ops. plainOp x \<Longrightarrow> fold recStep ops (Some (newRecorder now)) = Some r \<Longrightarrow>
   storePairs r = firstsOf (objPairs ops)"
proof (induction ops arbitrary: r rule: rev_induct)
  case Nil
  then show ?case by (auto simp: newRecorder_def firstsOf_def objPairs_def)
next
  case (snoc x ops)
  then have plain: "\<forall>x\<in>set ops. plainOp x" by simp
  from recorded_run [OF this] obtain q where
    "fold recStep ops (Some (newRecorder now)) = Some q" "recorded ops q" by blast
  with snoc.prems(2) snoc.IH [OF plain] storePairs_step [of ops q x r] show ?case by simp
qed

subsection \<open>Properties\<close>

text \<open>C31: The rich log aggregates objects.  After any calls on a recorder by its users, the OBJECTS
  events show one group for each pair of stream and group ID that had a delivery, in the order of
  their first delivery, and the group found for a pair holds exactly the objects delivered for it, in
  order, with their total size as an \<^verbatim>\<open>int64\<close>.  On a nil recorder every call does nothing.\<close>

theorem AddObject_aggregates:
  assumes "\<forall>x\<in>set ops. plainOp x"
  shows "\<exists>r. fold recStep ops (Some (newRecorder now)) = Some r
    \<and> List.map_filter evObjects (recEvents r) = [0..<length (recStore r)]
    \<and> map (\<lambda>g. (grpStreamID g, grpGroupID g)) (recStore r) = firstsOf (objPairs ops)
    \<and> (\<forall>grp\<in>set (recStore r).
         grpRows grp = rowsOf (grpStreamID grp) (grpGroupID grp) ops
         \<and> grpTotalBytes grp = (\<Sum>x\<leftarrow>grpRows grp. word_of_int (rowBytes x)))
    \<and> fold recStep ops None = None"
proof -
  obtain r where r: "fold recStep ops (Some (newRecorder now)) = Some r" "recorded ops r"
    using recorded_run [OF assms] by blast
  note pairs = storePairs_run [OF assms r(1)]
  have "grpRows grp = rowsOf (grpStreamID grp) (grpGroupID grp) ops
      \<and> grpTotalBytes grp = (\<Sum>x\<leftarrow>grpRows grp. word_of_int (rowBytes x))"
    if grp: "grp \<in> set (recStore r)" for grp
  proof -
    let ?s = "grpStreamID grp" and ?g = "grpGroupID grp"
    have "(?s, ?g) \<in> set (storePairs r)" using grp by force
    then have "rowsOf ?s ?g ops \<noteq> []" by (simp add: pairs firstsOf_def rowsOf_Nil_iff)
    with recordedD(1) [OF r(2)] obtain i where i: "recGroups r (groupKey ?s ?g) = Some i" by fastforce
    obtain j where j: "j < length (recStore r)" "recStore r ! j = grp" using grp by (auto simp: in_set_conv_nth)
    have "distinct (storePairs r)" by (simp add: pairs firstsOf_def)
    with i j recordedD(2) [OF r(2) i] have "i = j"
      by (auto simp: nth_eq_iff_index_eq [of "storePairs r", symmetric])
    with i j recordedD(2) [OF r(2) i] show ?thesis by simp
  qed
  with r recordedD(3) [OF r(2)] pairs recStep_None show ?thesis by blast
qed

theorem AddObject_aggregates_witness:
  "\<exists>r. fold recStep [OpObject 5 3 ''v'' 2 7 0 10, OpObject 6 4 ''v'' 2 7 0 1, OpObject 7 3 ''v'' 2 7 1 20]
         (Some (newRecorder 0)) = Some r
     \<and> map (\<lambda>g. (grpStreamID g, grpGroupID g)) (recStore r) = [(3, 7), (4, 7)]"
  using AddObject_aggregates [of "[OpObject 5 3 ''v'' 2 7 0 10, OpObject 6 4 ''v'' 2 7 0 1,
    OpObject 7 3 ''v'' 2 7 1 20]" 0] by (auto simp: objPairs_def firstsOf_def)

lemma divRound_close:
  assumes "0 < b"
  shows "2 * \<bar>int (divRound a b) * int b - int a\<bar> \<le> int b"
proof -
  have a: "int a = int (a div b) * int b + int (a mod b)"
    by (metis div_mult_mod_eq of_nat_add of_nat_mult)
  have "a mod b < b" using assms by simp
  with a show ?thesis
    by (auto simp: divRound_def Let_def abs_le_iff distrib_right)
qed

lemma toFloat64_exact: "n < 2 ^ 53 \<Longrightarrow> toFloat64 n = n"
proof -
  assume "n < 2 ^ 53"
  then have "floorlog 2 n \<le> 53" by (simp add: floorlog_leI)
  then show ?thesis by (simp add: toFloat64_def divRound_def)
qed

text \<open>C39: Sizes on the page.  For a size below \<open>2 ^ 53\<close> bytes, \<^verbatim>\<open>humanBytes\<close> prints the bytes below 1024,
  and from there a number of tenths of a KB, from \<open>2 ^ 20\<close> on of a MB, that is off by at most half a
  tenth.\<close>

theorem humanBytes_accuracy:
  assumes "n < 2 ^ 53"
  shows "if n < 2 ^ 10 then humanBytes (int n) = showBase 10 n @ '' B''
    else let (k, suf) = (if n < 2 ^ 20 then (10, '' KB'') else (20, '' MB'')) in
      \<exists>t. humanBytes (int n) = showBase 10 (t div 10) @ ''.'' @ showBase 10 (t mod 10) @ suf
        \<and> 2 * \<bar>int t * 2 ^ k - 10 * int n\<bar> \<le> 2 ^ k"
proof -
  have close: "2 * \<bar>int (divRound (10 * n) (2 ^ k)) * 2 ^ k - 10 * int n\<bar> \<le> 2 ^ k" for k
    using divRound_close [of "2 ^ k" "10 * n"] by simp
  consider "n < 2 ^ 10" | "2 ^ 10 \<le> n" "n < 2 ^ 20" | "2 ^ 20 \<le> n" by linarith
  then show ?thesis
  proof cases
    case 1
    then show ?thesis by (simp add: humanBytes_def showInt_def)
  next
    case 2
    with close [of 10] show ?thesis
      by (simp add: humanBytes_def showTenths_def toFloat64_exact [OF assms])
        (intro exI [of _ "divRound (10 * n) 1024"], simp)
  next
    case 3
    with close [of 20] show ?thesis
      by (simp add: humanBytes_def showTenths_def toFloat64_exact [OF assms])
        (intro exI [of _ "divRound (10 * n) 1048576"], simp)
  qed
qed

text \<open>The instance behind the finding: one byte less than a MB is shown as 1024.0 KB.\<close>

theorem humanBytes_accuracy_witness:
  "humanBytes 1048575 = ''1024.0 KB'' \<and> humanBytes 1023 = ''1023 B''"
proof -
  have "divRound 10485750 1024 = 10240" by (simp add: divRound_def)
  moreover have "toFloat64 1048575 = 1048575" by (rule toFloat64_exact) simp
  ultimately have "humanBytes 1048575 = ''1024.0 KB''"
    by (simp add: humanBytes_def showTenths_def showBase.simps digitChar_def char_of_def bit_Suc_0_iff bit_iff_odd)
  with humanBytes_accuracy [of 1023] show ?thesis
    by (simp add: showBase.simps digitChar_def char_of_def bit_Suc_0_iff bit_iff_odd)
qed

end
