(* ===== verification/Texts.thy ===== *)
theory Texts
  imports RichLog
begin

text \<open>
  The explanations that accompany the events of the rich log, the constant texts of
  \<^verbatim>\<open>internal/app/run.go\<close> and \<^verbatim>\<open>internal/app/subscriptions.go\<close>, as UTF-8.
\<close>

definition explainConnected :: string where
  "explainConnected = ''MoQ Transport runs directly over a raw QUIC connection here (not WebTransport). The TLS handshake negotiated the moqt-18 ALPN token, so both endpoints agree on the draft-18 wire format before any MoQ message is sent.''"

definition explainSetupSent :: string where
  "explainSetupSent = ''Each peer opens one unidirectional control stream that begins with a SETUP message; the stream-type varint 0x2F00 doubles as the message type. SETUP carries key-value setup parameters that scope the session (authority, path, implementation identifier).''"

definition explainSetupReceived :: string where
  "explainSetupReceived = ''The relay's own control stream mirrors ours: it begins with the relay's SETUP. Once both SETUPs are exchanged the MoQ session is established and requests can flow.''"

definition explainGoAway :: string where
  "explainGoAway = ''The relay asks us to migrate to a new session, typically ahead of maintenance or shutdown.''"

definition explainSubgroupHeader :: string where
  "explainSubgroupHeader = ''The publisher opens a new unidirectional stream per subgroup. Its header binds the stream to a track (via the compact track alias from SUBSCRIBE_OK) and a group, then a sequence of objects follows on the same stream. Stream type 0x15 means the subgroup ID is explicit and objects may carry extension headers.''"

definition explainRequestError :: string where
  "explainRequestError = ''The publisher rejected the request. Exactly one SUBSCRIBE_OK or REQUEST_ERROR is sent in response to a SUBSCRIBE, on the same request stream; the request is implied by the stream so no request ID appears on the wire. DOES_NOT_EXIST (0x10) means no publisher is serving this namespace/track.''"

definition explainCatalog :: string where
  "explainCatalog = ''The first object on the .catalog track is a JSON document (MoQ catalog format) describing the broadcast: which media tracks exist, their codecs, and which init track pairs with each. The catalog itself is not part of the transport draft '' @ emDash @ '' it rides on a regular track with a well-known name.''"

definition explainInitSegment :: string where
  "explainInitSegment = ''The init track's single object holds the fMP4 initialization section (ftyp + moov: codec configuration, track metadata). It is written to the output pipe before any media fragment so the player can decode the moof+mdat fragments that follow.''"

definition explainSubscribe :: string where
  "explainSubscribe = ''SUBSCRIBE asks the publisher to deliver a track's objects as they are produced. It must be the first message on a new bidirectional request stream; the response (SUBSCRIBE_OK or REQUEST_ERROR) comes back on this same stream. Request IDs are client-chosen and increase by two.''"

definition explainSubscribeOK :: string where
  "explainSubscribeOK = ''The publisher accepted the subscription. It assigns a track alias '' @ emDash @ '' a compact integer that stands in for the full namespace + track name on every subgroup stream that follows. No request ID appears on the wire: the request is implied by the stream this arrives on.''"

end
