(* ===== verification/Runner.thy ===== *)
theory Runner
  imports Subgroup Namespace Catalog Registry Client Texts
begin

text \<open>
  The state of a session and the operations on it, \<^verbatim>\<open>internal/app/run.go\<close> and
  \<^verbatim>\<open>internal/app/subscriptions.go\<close>.

  \<open>Runner\<close> is the shared state of the goroutines.  Its subscriptions live in the store \<open>rnStore\<close>,
  where a \<open>subref\<close> points; \<open>rnWrites\<close> is the history of the calls of the sink's \<^verbatim>\<open>Write\<close> with their
  errors; \<open>rnSent\<close> is what was written to the streams the session opened, newest last.  What the
  outside world answers is an argument: \<open>now\<close> is the clock, \<open>opened\<close> the result of opening a stream
  (\<open>Inl\<close> the error, \<open>Inr\<close> the stream ID), \<open>werr\<close> the error of a \<^verbatim>\<open>Write\<close>.  The structured log
  (\<^verbatim>\<open>slog\<close>) is output only and is left out.

  The encoders and decoders called here never panic (\<open>EncodeSetup_accepts\<close>, \<open>EncodeSubscribe_faithful\<close>,
  \<open>control_decoders_total\<close>): their \<open>Panic\<close> branches below only make the case distinctions total.
\<close>

subsection \<open>The state\<close>

record Stats =
  startedAt :: int
  bytesWritten :: u64
  objectsSeen :: u64
  groupsSeen :: u64
  gapHints :: u64
  statusObjects :: u64
  streamResets :: u64
  firstObjectNanos :: int

record Runner =
  rnCfg :: Config
  rnControlStream :: "u64 option"
  rnWrites :: "(bytes \<times> gerr option) list"
  rnStats :: Stats
  rnPeerSetupSeen :: bool
  rnSubs :: subscriptionRegistry
  rnStore :: "trackSubscription list"
  rnRich :: "Recorder option"
  rnSent :: "(u64 \<times> bytes) list"

definition newRunner :: "Config \<Rightarrow> int \<Rightarrow> Runner" where
  "newRunner cfg now =
     \<lparr>rnCfg = cfg, rnControlStream = None, rnWrites = [],
      rnStats = \<lparr>startedAt = 0, bytesWritten = 0, objectsSeen = 0, groupsSeen = 0, gapHints = 0,
                 statusObjects = 0, streamResets = 0, firstObjectNanos = 0\<rparr>,
      rnPeerSetupSeen = False, rnSubs = newSubscriptionRegistry, rnStore = [],
      rnRich = (if cfgRichLogPath cfg \<noteq> [] then Some (newRecorder now) else None), rnSent = []\<rparr>"

definition updStats :: "(Stats \<Rightarrow> Stats) \<Rightarrow> Runner \<Rightarrow> Runner" where
  "updStats f r = r\<lparr>rnStats := f (rnStats r)\<rparr>"

definition updSub :: "subref \<Rightarrow> (trackSubscription \<Rightarrow> trackSubscription) \<Rightarrow> Runner \<Rightarrow> Runner" where
  "updSub s f r = r\<lparr>rnStore := (rnStore r)[s := f (rnStore r ! s)]\<rparr>"

definition richAdd :: "int \<Rightarrow> Event \<Rightarrow> Runner \<Rightarrow> Runner" where
  "richAdd now ev r = r\<lparr>rnRich := Add now ev (rnRich r)\<rparr>"

definition richAddObject ::
    "int \<Rightarrow> int \<Rightarrow> string \<Rightarrow> u64 \<Rightarrow> u64 \<Rightarrow> u64 \<Rightarrow> int \<Rightarrow> Runner \<Rightarrow> Runner" where
  "richAddObject now sid track trackAlias gid oid n r =
     r\<lparr>rnRich := AddObject now sid track trackAlias gid oid n (rnRich r)\<rparr>"

text \<open>An event literal: the fields it does not name are zero.\<close>

definition event ::
    "Direction \<Rightarrow> ftext \<Rightarrow> string \<Rightarrow> ftext \<Rightarrow> Field list \<Rightarrow> string \<Rightarrow> SpecRef \<Rightarrow> Event" where
  "event d channel name summary fs explain spec =
     \<lparr>evTime = 0, evDir = d, evChannel = channel, evName = name, evSummary = summary,
      evFields = fs, evExplain = explain, evSpec = spec, evBody = [], evObjects = None\<rparr>"

definition fld :: "string \<Rightarrow> string \<Rightarrow> Field" where
  "fld k v = \<lparr>fieldKey = lit k, fieldValue = lit v\<rparr>"

definition fldNum :: "string \<Rightarrow> u64 \<Rightarrow> Field" where
  "fldNum k v = \<lparr>fieldKey = lit k, fieldValue = (''%d'', [FU64 v])\<rparr>"

definition fldInt :: "string \<Rightarrow> int \<Rightarrow> Field" where
  "fldInt k v = \<lparr>fieldKey = lit k, fieldValue = (''%d'', [FInt v])\<rparr>"

definition fldBool :: "string \<Rightarrow> bool \<Rightarrow> Field" where
  "fldBool k v = fld k (if v then ''true'' else ''false'')"

text \<open>\<^verbatim>\<open>fmt.Sprintf("%v", ss)\<close> of a slice of strings.\<close>

fun spaced :: "string list \<Rightarrow> string" where
  "spaced [] = []"
| "spaced [s] = s"
| "spaced (s # t # ss) = s @ '' '' @ spaced (t # ss)"

definition showStrings :: "string list \<Rightarrow> string" where
  "showStrings ss = ''['' @ spaced ss @ '']''"

subsection \<open>The output\<close>

definition writePayload :: "gerr option \<Rightarrow> bytes \<Rightarrow> Runner \<Rightarrow> gerr option \<times> Runner" where
  "writePayload werr payload r = (werr, r\<lparr>rnWrites := rnWrites r @ [(payload, werr)]\<rparr>)"

definition countBytes :: "bytes \<Rightarrow> Runner \<Rightarrow> Runner" where
  "countBytes payload = updStats (\<lambda>s. s\<lparr>bytesWritten := bytesWritten s + word_of_nat (length payload)\<rparr>)"

text \<open>The load and the compare-and-swap from 0 together set the field only when it is 0.\<close>

definition recordFirstObject :: "int \<Rightarrow> Runner \<Rightarrow> Runner" where
  "recordFirstObject now = updStats (\<lambda>s.
     if firstObjectNanos s \<noteq> 0 then s else s\<lparr>firstObjectNanos := now - startedAt s\<rparr>)"

text \<open>
  \<^verbatim>\<open>printSummary\<close>: the numbers it logs; the duration is in nanoseconds here, where the log prints it in seconds.
\<close>

record Summary =
  smDuration :: int
  smBytesWritten :: u64
  smObjectsSeen :: u64
  smGroupsSeen :: u64
  smStatusObjects :: u64
  smGapHints :: u64
  smStreamResets :: u64
  smFirstObjectMs :: int

definition printSummary :: "int \<Rightarrow> Runner \<Rightarrow> Summary" where
  "printSummary now r =
     (let s = rnStats r; firstObjNs = firstObjectNanos s;
          firstObjMs = (if 0 < firstObjNs then firstObjNs div 10 ^ 6 else 0)
      in \<lparr>smDuration = durationRound (now - startedAt s) (10 ^ 6), smBytesWritten = bytesWritten s,
          smObjectsSeen = objectsSeen s, smGroupsSeen = groupsSeen s, smStatusObjects = statusObjects s,
          smGapHints = gapHints s, smStreamResets = streamResets s, smFirstObjectMs = firstObjMs\<rparr>)"

subsection \<open>SETUP\<close>

text \<open>A \<^verbatim>\<open>Write\<close> to a stream of the session, for \<open>WriteFrame\<close>.\<close>

definition streamWrite :: "gerr option \<Rightarrow> bytes \<Rightarrow> bytes \<Rightarrow> gerr option \<times> bytes" where
  "streamWrite werr b w = (case werr of None \<Rightarrow> (None, w @ b) | Some e \<Rightarrow> (Some e, w))"

definition setupPath :: "URL \<Rightarrow> string" where
  "setupPath u =
     (let path = (if EscapedPath u = [] then ''/'' else EscapedPath u)
      in if urlRawQuery u \<noteq> [] then path @ ''?'' @ urlRawQuery u else path)"

definition setupOptions :: "URL \<Rightarrow> SetupOption list" where
  "setupOptions u =
     (let path = setupPath u;
          options = [\<lparr>optType = SetupOptionAuthority, optRaw = bytes_of (urlHost u)\<rparr>,
                     \<lparr>optType = SetupOptionImplementation, optRaw = bytes_of ''moqsub-go/0.1.0''\<rparr>]
      in if path \<noteq> ''/'' then \<lparr>optType = SetupOptionPath, optRaw = bytes_of path\<rparr> # options
         else options)"

definition setupSentEvent :: "u64 \<Rightarrow> URL \<Rightarrow> Event" where
  "setupSentEvent sid u =
     event DirSent (lit ''control stream'') ''SETUP''
       (''authority=%s path=%s'', [FStr (urlHost u), FStr (setupPath u)])
       [fldNum ''stream_id'' sid, fld ''AUTHORITY (0x05)'' (urlHost u),
        fld ''PATH (0x01)'' (setupPath u @ '' (omitted on wire when '' @ [CHR 0x22] @ ''/'' @ [CHR 0x22] @ '')''),
        fld ''IMPLEMENTATION (0x07)'' ''moqsub-go/0.1.0'']
       explainSetupSent \<lparr>specLabel = ''SETUP'', specSection = ''10.3''\<rparr>"

definition sendClientSetup ::
    "gerr + u64 \<Rightarrow> gerr option \<Rightarrow> int \<Rightarrow> URL \<Rightarrow> Runner \<Rightarrow> gerr option \<times> Runner" where
  "sendClientSetup opened werr now relayURL r =
     (case opened of
        Inl e \<Rightarrow> (Some (Wrapf ''open control stream: %w'' [] e), r)
      | Inr sid \<Rightarrow>
          let r = r\<lparr>rnControlStream := Some sid\<rparr> in
          (case EncodeSetup \<lparr>Options = setupOptions relayURL\<rparr> of
             Ok payload \<Rightarrow>
               (case WriteFrame (streamWrite werr) [] MsgSetup payload of
                  (Some e, sent) \<Rightarrow>
                    (Some (Wrapf ''write setup frame: %w'' [] e), r\<lparr>rnSent := rnSent r @ [(sid, sent)]\<rparr>)
                | (None, sent) \<Rightarrow>
                    (None, richAdd now (setupSentEvent sid relayURL)
                             (r\<lparr>rnSent := rnSent r @ [(sid, sent)]\<rparr>)))
           | Err e \<Rightarrow> (Some (Wrapf ''encode setup: %w'' [] e), r)
           | Panic \<Rightarrow> (Some (Errorf ''panic'' []), r)))"

subsection \<open>Control messages of the relay\<close>

definition setupReceivedEvent :: "SetupMessage \<Rightarrow> Event" where
  "setupReceivedEvent setup =
     event DirRecv (lit ''control stream'') ''SETUP''
       (''relay setup with %d option(s) '' @ emDash @ '' session established'',
        [FInt (int (length (Options setup)))])
       (fldInt ''num_options'' (int (length (Options setup)))
        # map (\<lambda>opt. \<lparr>fieldKey = (''option 0x%02x'', [FU64 (optType opt)]),
                      fieldValue = (''%q'', [FBytes (optRaw opt)])\<rparr>) (Options setup))
       explainSetupReceived \<lparr>specLabel = ''SETUP'', specSection = ''10.3''\<rparr>"

definition goAwayEvent :: "bytes \<Rightarrow> Event" where
  "goAwayEvent payload =
     event DirRecv (lit ''control stream'') ''GOAWAY''
       (''%d payload bytes'', [FInt (int (length payload))]) [] explainGoAway
       \<lparr>specLabel = ''GOAWAY'', specSection = ''10.4''\<rparr>"

definition dispatchControlMessage :: "int \<Rightarrow> u64 \<Rightarrow> bytes \<Rightarrow> Runner \<Rightarrow> gerr option \<times> Runner" where
  "dispatchControlMessage now msgType payload r =
     (if msgType = MsgSetup then
        (case DecodeSetup payload of
           Ok setup \<Rightarrow> (None, richAdd now (setupReceivedEvent setup) r\<lparr>rnPeerSetupSeen := True\<rparr>)
         | Err e \<Rightarrow> (Some (Wrapf ''decode setup: %w'' [] e), r)
         | Panic \<Rightarrow> (Some (Errorf ''panic'' []), r))
      else if msgType = MsgGoAway then (None, richAdd now (goAwayEvent payload) r)
      else (None, r))"

subsection \<open>Subscribing\<close>

definition newTrackSubscription :: "string \<Rightarrow> trackRole \<Rightarrow> Runner \<Rightarrow> subref \<times> Runner" where
  "newTrackSubscription trackName role r =
     (let (rid, reg) = allocRequestID (rnSubs r);
          sub = \<lparr>subRequestID = rid, subNamespace = cfgNamespace (rnCfg r), subTrackName = trackName,
                 subRole = role, subStream = None, okCh = [],
                 firstObjCh = (if role = roleCatalog \<or> role = roleInit then Some [] else None),
                 gotFirst = False\<rparr>;
          s = length (rnStore r)
      in (s, r\<lparr>rnStore := rnStore r @ [sub], rnSubs := register reg rid s\<rparr>))"

definition subscribeSentEvent :: "u64 \<Rightarrow> trackSubscription \<Rightarrow> Runner \<Rightarrow> Event" where
  "subscribeSentEvent sid sub r =
     event DirSent (''request stream %d'', [FU64 sid]) ''SUBSCRIBE''
       (''track %s/%s (%s) '' @ middot @ '' request %d'',
        [FStr (cfgNamespace (rnCfg r)), FStr (subTrackName sub), FStr (roleString (subRole sub)),
         FU64 (subRequestID sub)])
       [fldNum ''request_id'' (subRequestID sub),
        fld ''track_namespace'' (showStrings (splitNamespace (cfgNamespace (rnCfg r)))),
        fld ''track_name'' (subTrackName sub), fld ''role (local)'' (roleString (subRole sub)),
        fldNum ''stream_id'' sid]
       explainSubscribe \<lparr>specLabel = ''SUBSCRIBE'', specSection = ''10.7''\<rparr>"

text \<open>
  On success the result holds the ID of the request stream, whose reading goroutine is started.
\<close>

definition sendSubscribeMessage ::
    "gerr + u64 \<Rightarrow> gerr option \<Rightarrow> int \<Rightarrow> subref \<Rightarrow> Runner \<Rightarrow> (gerr + u64) \<times> Runner" where
  "sendSubscribeMessage opened werr now s r =
     (let sub = rnStore r ! s in
      case trackNamespace (cfgNamespace (rnCfg r)) of
        Err e \<Rightarrow> (Inl e, r)
      | Panic \<Rightarrow> (Inl (Errorf ''panic'' []), r)
      | Ok ns \<Rightarrow>
          (case EncodeSubscribe \<lparr>RequestID = subRequestID sub, TrackNamespace = ns,
                                 TrackName = bytes_of (subTrackName sub), ParametersRaw = []\<rparr> of
             Err e \<Rightarrow> (Inl (Wrapf ''encode subscribe: %w'' [] e), r)
           | Panic \<Rightarrow> (Inl (Errorf ''panic'' []), r)
           | Ok payload \<Rightarrow>
               (case opened of
                  Inl e \<Rightarrow> (Inl (Wrapf ''open request stream: %w'' [] e), r)
                | Inr sid \<Rightarrow>
                    let r = updSub s (\<lambda>x. x\<lparr>subStream := Some sid\<rparr>) r in
                    (case WriteFrame (streamWrite werr) [] MsgSubscribe payload of
                       (Some e, sent) \<Rightarrow>
                         (Inl (Wrapf ''write subscribe: %w'' [] e), r\<lparr>rnSent := rnSent r @ [(sid, sent)]\<rparr>)
                     | (None, sent) \<Rightarrow>
                         (Inr sid, richAdd now (subscribeSentEvent sid sub r)
                                     (r\<lparr>rnSent := rnSent r @ [(sid, sent)]\<rparr>))))))"

subsection \<open>Responses to SUBSCRIBE\<close>

text \<open>
  A send in a \<^verbatim>\<open>select\<close> with a default case: the value is dropped when the buffer of capacity 1 is
  full, and on the nil channel.
\<close>

definition trySend :: "'a \<Rightarrow> 'a list \<Rightarrow> 'a list" where
  "trySend x buf = (if length buf < 1 then buf @ [x] else buf)"

definition sendOk :: "subref \<Rightarrow> subscribeResult \<Rightarrow> Runner \<Rightarrow> Runner" where
  "sendOk s res = updSub s (\<lambda>x. x\<lparr>okCh := trySend res (okCh x)\<rparr>)"

definition sendFirst :: "subref \<Rightarrow> bytes \<Rightarrow> Runner \<Rightarrow> Runner" where
  "sendFirst s payload = updSub s (\<lambda>x. x\<lparr>firstObjCh := map_option (trySend payload) (firstObjCh x)\<rparr>)"

definition subscribeOKEvent :: "u64 \<Rightarrow> trackSubscription \<Rightarrow> SubscribeOKMessage \<Rightarrow> Event" where
  "subscribeOKEvent sid sub ok =
     event DirRecv (''request stream %d'', [FU64 sid]) ''SUBSCRIBE_OK''
       (''track %s accepted '' @ middot @ '' alias %d'', [FStr (subTrackName sub), FU64 (okTrackAlias ok)])
       [fld ''track (from request)'' (subTrackName sub), fldNum ''track_alias'' (okTrackAlias ok),
        fldNum ''num_parameters'' (okNumParams ok),
        fldInt ''track_properties_bytes'' (int (length (okTrackProperties ok)))]
       explainSubscribeOK \<lparr>specLabel = ''SUBSCRIBE_OK / Track Alias'', specSection = ''10.8''\<rparr>"

text \<open>The event of \<^verbatim>\<open>logSubscribeRejected\<close>, for a subscription or for none.\<close>

definition logSubscribeRejected ::
    "int \<Rightarrow> RequestErrorMessage \<Rightarrow> trackSubscription option \<Rightarrow> Runner \<Rightarrow> Runner" where
  "logSubscribeRejected now reqErr sub =
     (let codeName = (''%d (%s)'', [FU64 (errCode reqErr), FStr (RequestErrorCodeName (errCode reqErr))]);
          ev = event DirRecv (lit []) ''REQUEST_ERROR''
            (''code %d (%s): %s'', [FU64 (errCode reqErr), FStr (RequestErrorCodeName (errCode reqErr)),
                                   FStr (errReason reqErr)])
            [\<lparr>fieldKey = lit ''error_code'', fieldValue = codeName\<rparr>,
             fldNum ''retry_interval'' (errRetryInterval reqErr), fld ''reason'' (errReason reqErr)]
            explainRequestError \<lparr>specLabel = ''REQUEST_ERROR'', specSection = ''10.6''\<rparr>;
          ev = (case sub of
                  None \<Rightarrow> ev
                | Some x \<Rightarrow> ev\<lparr>evChannel := (''request stream (request %d)'', [FU64 (subRequestID x)]),
                               evFields := evFields ev @
                                 [fld ''track'' (subNamespace x @ ''/'' @ subTrackName x),
                                  fld ''role'' (roleString (subRole x))]\<rparr>)
      in richAdd now ev)"

subsection \<open>Subgroup streams\<close>

definition subgroupHeaderEvent :: "u64 \<Rightarrow> string \<Rightarrow> SubgroupHeader \<Rightarrow> Event" where
  "subgroupHeaderEvent sid trackName h =
     event DirRecv (''subgroup stream %d'', [FU64 sid]) ''SUBGROUP_HEADER''
       (''track %s '' @ middot @ '' alias %d '' @ middot @ '' group %d '' @ middot @ '' priority %d'',
        [FStr trackName, FU64 (hdrTrackAlias h), FU64 (hdrGroupID h), FInt (uint (hdrPublisherPriority h))])
       [fldNum ''stream_id'' sid,
        \<lparr>fieldKey = lit ''stream_type'', fieldValue = (''0x%x'', [FU64 (hdrType h)])\<rparr>,
        fldNum ''track_alias'' (hdrTrackAlias h), fldNum ''group_id'' (hdrGroupID h),
        fldNum ''subgroup_id'' (hdrSubgroupID h), fldBool ''has_extensions'' (hdrHasExtensions h),
        fldBool ''end_of_group'' (hdrEndOfGroup h),
        fldInt ''publisher_priority'' (uint (hdrPublisherPriority h))]
       explainSubgroupHeader \<lparr>specLabel = ''Subgroup Header'', specSection = ''11.4.2''\<rparr>"

text \<open>What \<^verbatim>\<open>handleSubgroupStream\<close> does once the header is parsed, before its loop.\<close>

definition beginSubgroup :: "int \<Rightarrow> u64 \<Rightarrow> SubgroupHeader \<Rightarrow> Runner \<Rightarrow> subref option \<times> Runner" where
  "beginSubgroup now sid h r =
     (let r = updStats (\<lambda>s. s\<lparr>groupsSeen := groupsSeen s + 1\<rparr>) r;
          (sub, aliasPending) = lookupDelivery (rnSubs r) (hdrTrackAlias h);
          trackName = (case sub of Some s \<Rightarrow> subTrackName (rnStore r ! s) | None \<Rightarrow> ''(unknown)'')
      in (sub, richAdd now (subgroupHeaderEvent sid trackName h) r))"

text \<open>The counters of one object.\<close>

definition countObject :: "SubgroupObject \<Rightarrow> Runner \<Rightarrow> Runner" where
  "countObject obj = updStats (\<lambda>s.
     let s = s\<lparr>objectsSeen := objectsSeen s + 1\<rparr>;
         s = (if 0 < ObjectIDDelta obj then s\<lparr>gapHints := gapHints s + 1\<rparr> else s)
     in if IsStatusObject obj then s\<lparr>statusObjects := statusObjects s + 1\<rparr> else s)"

definition logObject :: "int \<Rightarrow> u64 \<Rightarrow> subref \<Rightarrow> SubgroupHeader \<Rightarrow> SubgroupObject \<Rightarrow> Runner \<Rightarrow> Runner" where
  "logObject now sid s h obj r =
     richAddObject now (uint sid) (subTrackName (rnStore r ! s)) (hdrTrackAlias h) (hdrGroupID h)
       (ObjectID obj) (int (length (Payload obj))) r"

end
