(* ===== verification/Streams.thy ===== *)
theory Streams
  imports Runner
begin

text \<open>
  The goroutines that read streams: \<^verbatim>\<open>handleUniStream\<close> with the control and the subgroup handler
  (\<^verbatim>\<open>internal/app/run.go\<close>), and \<^verbatim>\<open>readRequestStream\<close> (\<^verbatim>\<open>internal/app/subscriptions.go\<close>).

  A goroutine is its stream, what is left to read of it, and the place in its code, \<open>uniPC\<close> or
  \<open>reqPC\<close>.  One step runs from a place to the next; between two places lies at most one access to
  state that another goroutine reads back (the registry, a subscription, a channel, the sink).
  Counters are updated by atomic additions nobody reads before the summary, and the log is only
  written, so they belong to the step they stand next to; \<^verbatim>\<open>bytesWritten\<close> keeps its own step, because
  a summary can be printed between a write and its count.  The races of the code are kept: the test
  of \<^verbatim>\<open>gotFirst\<close>, its assignment and the send are three steps.
\<close>

subsection \<open>Unidirectional streams\<close>

datatype uniPC =
    UStart
  | UCtlFirst u64
  | UCtlLoop
  | UHeader u64
  | UNext SubgroupHeader "subref option" SubgroupObjectReader
  | UDeliver SubgroupHeader subref SubgroupObjectReader SubgroupObject
  | USetFirst SubgroupHeader subref SubgroupObjectReader SubgroupObject
  | USendFirst SubgroupHeader subref SubgroupObjectReader SubgroupObject
  | UWrite SubgroupHeader subref SubgroupObjectReader SubgroupObject
  | UCount SubgroupHeader subref SubgroupObjectReader SubgroupObject
  | UReturn "gerr option"
  | UDone
  | UPanic

record uniStream =
  usID :: u64
  usReader :: reader
  usPC :: uniPC

definition goto :: "uniPC \<Rightarrow> reader \<Rightarrow> uniStream \<Rightarrow> uniStream" where
  "goto pc rd t = t\<lparr>usPC := pc, usReader := rd\<rparr>"

text \<open>\<^verbatim>\<open>handleUniStream\<close>: the stream type decides the handler.\<close>

definition stepStart :: "uniStream \<Rightarrow> uniStream" where
  "stepStart t =
     (case ReadVarint (usReader t) of
        (Ok streamType, rd) \<Rightarrow>
          goto (if streamType = StreamTypeSetup then UCtlFirst streamType
                else if IsSubgroupStreamType streamType then UHeader streamType
                else if streamType = StreamTypeFetchHeader then UReturn None
                else UReturn None) rd t
      | (Err e, rd) \<Rightarrow> goto (UReturn (Some (Wrapf ''read uni stream type: %w'' [] e))) rd t
      | (Panic, rd) \<Rightarrow> goto UPanic rd t)"

text \<open>\<^verbatim>\<open>handleControlStream\<close>: the body of the first message, then a loop over frames.\<close>

definition stepControl :: "int \<Rightarrow> u64 \<Rightarrow> bytes \<Rightarrow> reader \<Rightarrow> uniStream \<Rightarrow> Runner \<Rightarrow> uniStream \<times> Runner" where
  "stepControl now msgType payload rd t r =
     (case dispatchControlMessage now msgType payload r of
        (Some e, r') \<Rightarrow> (goto (UReturn (Some e)) rd t, r')
      | (None, r') \<Rightarrow> (goto UCtlLoop rd t, r'))"

definition stepCtlFirst :: "int \<Rightarrow> u64 \<Rightarrow> uniStream \<Rightarrow> Runner \<Rightarrow> uniStream \<times> Runner" where
  "stepCtlFirst now firstMsgType t r =
     (case ReadFrameBody (usReader t) of
        (Ok firstBody, rd) \<Rightarrow> stepControl now firstMsgType firstBody rd t r
      | (Err e, rd) \<Rightarrow> (goto (UReturn (Some (Wrapf ''read first control message body: %w'' [] e))) rd t, r)
      | (Panic, rd) \<Rightarrow> (goto UPanic rd t, r))"

definition stepCtlLoop :: "int \<Rightarrow> uniStream \<Rightarrow> Runner \<Rightarrow> uniStream \<times> Runner" where
  "stepCtlLoop now t r =
     (case ReadFrame (usReader t) of
        (Ok (msgType, payload), rd) \<Rightarrow> stepControl now msgType payload rd t r
      | (Err e, rd) \<Rightarrow>
          (goto (UReturn (if errorsIs e ErrEOF then None
                          else Some (Wrapf ''control stream read: %w'' [] e))) rd t, r)
      | (Panic, rd) \<Rightarrow> (goto UPanic rd t, r))"

text \<open>\<^verbatim>\<open>handleSubgroupStream\<close>: the header, then a loop over objects.\<close>

definition stepHeader :: "int \<Rightarrow> u64 \<Rightarrow> uniStream \<Rightarrow> Runner \<Rightarrow> uniStream \<times> Runner" where
  "stepHeader now streamType t r =
     (case ParseSubgroupHeader streamType (usReader t) of
        (Ok header, rd) \<Rightarrow>
          (let (sub, r') = beginSubgroup now (usID t) header r
           in (goto (UNext header sub (NewSubgroupObjectReader header)) rd t, r'))
      | (Err e, rd) \<Rightarrow> (goto (UReturn (Some (Wrapf ''parse subgroup header: %w'' [] e))) rd t, r)
      | (Panic, rd) \<Rightarrow> (goto UPanic rd t, r))"

definition stepNext ::
    "SubgroupHeader \<Rightarrow> subref option \<Rightarrow> SubgroupObjectReader \<Rightarrow> uniStream \<Rightarrow> Runner \<Rightarrow> uniStream \<times> Runner" where
  "stepNext h sub s t r =
     (case Next s (usReader t) of
        (Ok (obj, s'), rd) \<Rightarrow>
          (case sub of
             Some m \<Rightarrow> (goto (if IsStatusObject obj then UNext h sub s' else UDeliver h m s' obj) rd t,
                        countObject obj r)
           | None \<Rightarrow> (goto (UNext h sub s') rd t, countObject obj r))
      | (Err e, rd) \<Rightarrow> (goto (UReturn (if errorsIs e ErrEOF then None else Some e)) rd t, r)
      | (Panic, rd) \<Rightarrow> (goto UPanic rd t, r))"

text \<open>
  \<^verbatim>\<open>deliverSubgroupObject\<close> up to its first access to shared state; \<open>stepDelivered\<close> is the end of the
  loop body once it has returned nil.
\<close>

definition stepDelivered ::
    "int \<Rightarrow> SubgroupHeader \<Rightarrow> subref \<Rightarrow> SubgroupObjectReader \<Rightarrow> SubgroupObject \<Rightarrow> uniStream \<Rightarrow> Runner
      \<Rightarrow> uniStream \<times> Runner" where
  "stepDelivered now h m s obj t r =
     (goto (UNext h (Some m) s) (usReader t) t, logObject now (usID t) m h obj r)"

definition stepDeliver ::
    "int \<Rightarrow> SubgroupHeader \<Rightarrow> subref \<Rightarrow> SubgroupObjectReader \<Rightarrow> SubgroupObject \<Rightarrow> uniStream \<Rightarrow> Runner
      \<Rightarrow> uniStream \<times> Runner" where
  "stepDeliver now h m s obj t r =
     (case subRole (rnStore r ! m) of
        roleMedia \<Rightarrow> (goto (UWrite h m s obj) (usReader t) t, recordFirstObject now r)
      | roleOther i \<Rightarrow> stepDelivered now h m s obj t r
      | _ \<Rightarrow> if \<not> gotFirst (rnStore r ! m) then (goto (USetFirst h m s obj) (usReader t) t, r)
             else stepDelivered now h m s obj t r)"

definition uniStep :: "int \<Rightarrow> gerr option \<Rightarrow> uniStream \<Rightarrow> Runner \<Rightarrow> uniStream \<times> Runner" where
  "uniStep now werr t r =
     (case usPC t of
        UStart \<Rightarrow> (stepStart t, r)
      | UCtlFirst ty \<Rightarrow> stepCtlFirst now ty t r
      | UCtlLoop \<Rightarrow> stepCtlLoop now t r
      | UHeader ty \<Rightarrow> stepHeader now ty t r
      | UNext h sub s \<Rightarrow> stepNext h sub s t r
      | UDeliver h m s obj \<Rightarrow> stepDeliver now h m s obj t r
      | USetFirst h m s obj \<Rightarrow>
          (goto (USendFirst h m s obj) (usReader t) t, updSub m (\<lambda>x. x\<lparr>gotFirst := True\<rparr>) r)
      | USendFirst h m s obj \<Rightarrow> stepDelivered now h m s obj t (sendFirst m (Payload obj) r)
      | UWrite h m s obj \<Rightarrow>
          (case writePayload werr (Payload obj) r of
             (Some e, r') \<Rightarrow> (goto (UReturn (Some (Wrapf ''deliver object: %w'' [] e))) (usReader t) t, r')
           | (None, r') \<Rightarrow> (goto (UCount h m s obj) (usReader t) t, r'))
      | UCount h m s obj \<Rightarrow> stepDelivered now h m s obj t (countBytes (Payload obj) r)
      | _ \<Rightarrow> (t, r))"

subsection \<open>Request streams\<close>

datatype reqPC =
    RLoop
  | RBind SubscribeOKMessage
  | RSendOK SubscribeOKMessage
  | RSendErr gerr
  | RDone
  | RPanic

record reqStream =
  rqSub :: subref
  rqID :: u64
  rqReader :: reader
  rqPC :: reqPC

definition rgoto :: "reqPC \<Rightarrow> reader \<Rightarrow> reqStream \<Rightarrow> reqStream" where
  "rgoto pc rd t = t\<lparr>rqPC := pc, rqReader := rd\<rparr>"

definition stepRequest :: "int \<Rightarrow> reqStream \<Rightarrow> Runner \<Rightarrow> reqStream \<times> Runner" where
  "stepRequest now t r =
     (let sub = rnStore r ! rqSub t in
      case ReadFrame (rqReader t) of
        (Ok (msgType, payload), rd) \<Rightarrow>
          if msgType = MsgSubscribeOK then
            (case DecodeSubscribeOK payload of
               Ok ok \<Rightarrow> (rgoto (RBind ok) rd t, richAdd now (subscribeOKEvent (rqID t) sub ok) r)
             | Err e \<Rightarrow> (rgoto RDone rd t, r)
             | Panic \<Rightarrow> (rgoto RPanic rd t, r))
          else if msgType = MsgRequestError then
            (case DecodeRequestError payload of
               Ok reqErr \<Rightarrow>
                 (rgoto (RSendErr (formatSubscribeRejectError (subNamespace sub) (subTrackName sub)
                            (subRole sub) reqErr)) rd t,
                  logSubscribeRejected now reqErr (Some sub) r)
             | Err e \<Rightarrow> (rgoto RDone rd t, r)
             | Panic \<Rightarrow> (rgoto RPanic rd t, r))
          else (rgoto RLoop rd t, r)
      | (Err e, rd) \<Rightarrow> (rgoto RDone rd t, r)
      | (Panic, rd) \<Rightarrow> (rgoto RPanic rd t, r))"

definition reqStep :: "int \<Rightarrow> reqStream \<Rightarrow> Runner \<Rightarrow> reqStream \<times> Runner" where
  "reqStep now t r =
     (case rqPC t of
        RLoop \<Rightarrow> stepRequest now t r
      | RBind ok \<Rightarrow> (rgoto (RSendOK ok) (rqReader t) t,
                    r\<lparr>rnSubs := bindAlias (rnSubs r) (rqSub t) (okTrackAlias ok)\<rparr>)
      | RSendOK ok \<Rightarrow> (rgoto RLoop (rqReader t) t,
                      sendOk (rqSub t) \<lparr>resAlias = okTrackAlias ok, resErr = None\<rparr> r)
      | RSendErr e \<Rightarrow> (rgoto RDone (rqReader t) t,
                      sendOk (rqSub t) \<lparr>resAlias = 0, resErr = Some e\<rparr> r)
      | _ \<Rightarrow> (t, r))"

text \<open>
  \<^verbatim>\<open>acceptPeerBidiStreams\<close> reads one frame of a stream the peer opened and logs it: the entry is the
  warning or the message it prints.
\<close>

datatype bidiLog = BidiWarn gerr | BidiMessage u64 nat | BidiPanic

definition handlePeerBidi :: "reader \<Rightarrow> bidiLog" where
  "handlePeerBidi rd =
     (case ReadFrame rd of
        (Ok (msgType, payload), _) \<Rightarrow> BidiMessage msgType (length payload)
      | (Err e, _) \<Rightarrow> if errorsIs e ErrEOF then BidiMessage 0 0 else BidiWarn e
      | (Panic, _) \<Rightarrow> BidiPanic)"

subsection \<open>A goroutine running alone\<close>

text \<open>The answers of the world at each step: the clock, and the error of a write.\<close>

fun uniRun :: "(nat \<Rightarrow> int) \<Rightarrow> (nat \<Rightarrow> gerr option) \<Rightarrow> nat \<Rightarrow> uniStream \<times> Runner \<Rightarrow> uniStream \<times> Runner" where
  "uniRun clock werr 0 x = x"
| "uniRun clock werr (Suc n) (t, r) =
     uniRun (\<lambda>i. clock (Suc i)) (\<lambda>i. werr (Suc i)) n (uniStep (clock 0) (werr 0) t r)"

fun reqRun :: "(nat \<Rightarrow> int) \<Rightarrow> nat \<Rightarrow> reqStream \<times> Runner \<Rightarrow> reqStream \<times> Runner" where
  "reqRun clock 0 x = x"
| "reqRun clock (Suc n) (t, r) = reqRun (\<lambda>i. clock (Suc i)) n (reqStep (clock 0) t r)"

end
