(* ===== verification/Session.thy ===== *)
theory Session
  imports Streams
begin

text \<open>
  A session: \<^verbatim>\<open>Runner.Run\<close> and \<^verbatim>\<open>bootstrapFromCatalog\<close> as the steps of the main goroutine, and the
  interleaving of all goroutines as the relation \<open>step\<close>.

  \<open>mainPC\<close> is the place of the main goroutine; its steps take the world's answers (\<open>world\<close>) and,
  where the code selects, what woke it (\<open>wake\<close>); a step that is not possible (it waits, or a function outside the code
  has panicked) is \<open>None\<close>.  The bootstrap treats the three tracks alike, in three phases.  A session is the shared state with the
  goroutines; \<open>ssPending\<close> are the goroutines blocked in \<^verbatim>\<open>errCh <- err\<close>, \<open>ssErrCh\<close> the channel of
  capacity 8.  A goroutine that panics ends the process, so nothing steps after it.
\<close>

subsection \<open>The main goroutine\<close>

datatype phase = PhCatalog | PhInit string string | PhMedia string

fun phaseTrack :: "phase \<Rightarrow> string" where
  "phaseTrack PhCatalog = catalogTrackName"
| "phaseTrack (PhInit initTrack mediaTrack) = initTrack"
| "phaseTrack (PhMedia mediaTrack) = mediaTrack"

fun phaseRole :: "phase \<Rightarrow> trackRole" where
  "phaseRole PhCatalog = roleCatalog"
| "phaseRole (PhInit initTrack mediaTrack) = roleInit"
| "phaseRole (PhMedia mediaTrack) = roleMedia"

datatype mainPC =
    MDial
  | MSink URL
  | MSetup URL
  | MWaitPeer
  | MNew phase
  | MSend phase subref
  | MWaitOK phase subref
  | MWaitObj phase subref
  | MWriteInit bytes string string
  | MCountInit bytes string string
  | MLoop
  | MReturn "gerr option"

datatype wake = WakeValue | WakeCtx gerr | WakeTimer | WakeErr gerr

record world =
  wNow :: int
  wDialAddr :: "DialArgs \<Rightarrow> string outcome"
  wStdin :: "gerr option"
  wStart :: "string \<Rightarrow> gerr option"
  wOpened :: "gerr + u64"
  wWerr :: "gerr option"
  wReader :: reader

definition connectedEvent :: "string \<Rightarrow> Runner \<Rightarrow> Event" where
  "connectedEvent remote r =
     event DirLocal (lit ''quic connection'') ''CONNECTED''
       (''QUIC connection to %s established'', [FStr remote])
       [fld ''remote'' remote, fld ''alpn'' (ccALPN (cfgClient (rnCfg r)))]
       explainConnected \<lparr>specLabel = ''Session initialization'', specSection = ''3.3''\<rparr>"

definition catalogEvent :: "bytes \<Rightarrow> catalogRoot \<Rightarrow> string \<Rightarrow> string \<Rightarrow> Event" where
  "catalogEvent payload catalog initTrack mediaTrack =
     (event DirLocal (lit ''catalog'') ''CATALOG PARSED''
        (''%d track(s) '' @ middot @ '' init %s '' @ middot @ '' media %s'',
         [FInt (int (length (Tracks catalog))), FStr initTrack, FStr mediaTrack])
        [fldInt ''catalog_bytes'' (int (length payload)),
         fld ''namespace'' (ccNamespace (CommonTrackFields catalog)),
         fld ''packaging'' (ccPackaging (CommonTrackFields catalog)),
         fld ''init_track'' initTrack, fld ''media_track'' mediaTrack]
        explainCatalog noSpec)\<lparr>evBody := formatCatalogJSON payload\<rparr>"

definition initWrittenEvent :: "string \<Rightarrow> bytes \<Rightarrow> Event" where
  "initWrittenEvent initTrack payload =
     event DirLocal (lit ''output sink'') ''INIT SEGMENT WRITTEN''
       (''track %s '' @ middot @ '' %d bytes to output'', [FStr initTrack, FInt (int (length payload))])
       [fld ''track'' initTrack, fldInt ''bytes'' (int (length payload))] explainInitSegment noSpec"

text \<open>\<^verbatim>\<open>waitSubscribeOK\<close>: the result, or \<open>None\<close> while it waits.\<close>

definition waitSubscribeOK :: "wake \<Rightarrow> subref \<Rightarrow> Runner \<Rightarrow> (gerr option \<times> Runner) option" where
  "waitSubscribeOK k s r =
     (case k of
        WakeValue \<Rightarrow>
          (case okCh (rnStore r ! s) of
             [] \<Rightarrow> None
           | res # buf \<Rightarrow> Some (resErr res, updSub s (\<lambda>x. x\<lparr>okCh := buf\<rparr>) r))
      | WakeCtx e \<Rightarrow> Some (Some e, r)
      | WakeTimer \<Rightarrow>
          Some (Some (Errorf ''timeout waiting subscribe_ok for %q'' [FStr (subTrackName (rnStore r ! s))]), r)
      | WakeErr e \<Rightarrow> None)"

text \<open>\<^verbatim>\<open>waitFirstObject\<close>; receiving from a nil channel waits forever.\<close>

definition waitFirstObject :: "wake \<Rightarrow> subref \<Rightarrow> Runner \<Rightarrow> ((gerr + bytes) \<times> Runner) option" where
  "waitFirstObject k s r =
     (case k of
        WakeValue \<Rightarrow>
          (case firstObjCh (rnStore r ! s) of
             Some (payload # buf) \<Rightarrow> Some (Inr payload, updSub s (\<lambda>x. x\<lparr>firstObjCh := Some buf\<rparr>) r)
           | _ \<Rightarrow> None)
      | WakeCtx e \<Rightarrow> Some (Inl e, r)
      | WakeTimer \<Rightarrow>
          Some (Inl (Errorf ''timeout waiting first object for %q'' [FStr (subTrackName (rnStore r ! s))]), r)
      | WakeErr e \<Rightarrow> None)"

fun phaseName :: "phase \<Rightarrow> string" where
  "phaseName PhCatalog = ''catalog''"
| "phaseName (PhInit initTrack mediaTrack) = ''init''"
| "phaseName (PhMedia mediaTrack) = ''media''"

text \<open>What the bootstrap does with the first object of the catalog and of the init track.\<close>

definition afterObject :: "world \<Rightarrow> phase \<Rightarrow> bytes \<Rightarrow> Runner \<Rightarrow> (mainPC \<times> Runner) option" where
  "afterObject w ph payload r =
     (case ph of
        PhCatalog \<Rightarrow>
          (case parseCatalog payload of
             Ok catalog \<Rightarrow>
               (case resolveMediaTrack catalog [] of
                  Ok mediaTrack \<Rightarrow>
                    (let initTrack = initTrackName catalog mediaTrack
                     in Some (MNew (PhInit initTrack mediaTrack),
                          richAdd (wNow w) (catalogEvent payload catalog initTrack mediaTrack) r))
                | Err e \<Rightarrow> Some (MReturn (Some e), r)
                | Panic \<Rightarrow> None)
           | Err e \<Rightarrow> Some (MReturn (Some e), r)
           | Panic \<Rightarrow> None)
      | PhInit initTrack mediaTrack \<Rightarrow> Some (MWriteInit payload initTrack mediaTrack, r)
      | PhMedia mediaTrack \<Rightarrow> Some (MLoop, r))"

text \<open>The receive loop of \<^verbatim>\<open>Run\<close> with an error from the channel.\<close>

definition loopError :: "gerr \<Rightarrow> Runner \<Rightarrow> mainPC \<times> Runner" where
  "loopError err r =
     (if errorsIs err ErrCanceled then (MReturn None, r)
      else if asStreamError err \<noteq> None
      then (MLoop, updStats (\<lambda>s. s\<lparr>streamResets := streamResets s + 1\<rparr>) r)
      else (MReturn (Some err), r))"

definition waitOKPC :: "phase \<Rightarrow> subref \<Rightarrow> gerr option \<Rightarrow> mainPC" where
  "waitOKPC ph s res =
     (case res of
        Some e \<Rightarrow> MReturn (Some (Wrapf (phaseName ph @ '' subscribe: %w'') [] e))
      | None \<Rightarrow> (case ph of PhMedia mediaTrack \<Rightarrow> MLoop | _ \<Rightarrow> MWaitObj ph s))"

text \<open>\<^verbatim>\<open>bootstrapFromCatalog\<close>.\<close>

definition bootstrapStep ::
    "world \<Rightarrow> wake \<Rightarrow> mainPC \<Rightarrow> Runner \<Rightarrow> (mainPC \<times> Runner \<times> reqStream option) option" where
  "bootstrapStep w k pc r =
     (case pc of
        MNew ph \<Rightarrow>
          (let (s, r') = newTrackSubscription (phaseTrack ph) (phaseRole ph) r
           in Some (MSend ph s, r', None))
      | MSend ph s \<Rightarrow>
          (case sendSubscribeMessage (wOpened w) (wWerr w) (wNow w) s r of
             (Inl e, r') \<Rightarrow> Some (MReturn (Some e), r', None)
           | (Inr sid, r') \<Rightarrow>
               Some (MWaitOK ph s, r',
                     Some \<lparr>rqSub = s, rqID = sid, rqReader = wReader w, rqPC = RLoop\<rparr>))
      | MWaitOK ph s \<Rightarrow>
          (case waitSubscribeOK k s r of
             None \<Rightarrow> None
           | Some (res, r') \<Rightarrow> Some (waitOKPC ph s res, r', None))
      | MWaitObj ph s \<Rightarrow>
          (case waitFirstObject k s r of
             None \<Rightarrow> None
           | Some (Inl e, r') \<Rightarrow>
               Some (MReturn (Some (Wrapf (phaseName ph @ '' object: %w'') [] e)), r', None)
           | Some (Inr payload, r') \<Rightarrow>
               (case afterObject w ph payload r' of
                  None \<Rightarrow> None
                | Some (pc', r'') \<Rightarrow> Some (pc', r'', None)))
      | MWriteInit payload initTrack mediaTrack \<Rightarrow>
          (case writePayload (wWerr w) payload r of
             (Some e, r') \<Rightarrow> Some (MReturn (Some (Wrapf ''write init: %w'' [] e)), r', None)
           | (None, r') \<Rightarrow> Some (MCountInit payload initTrack mediaTrack, r', None))
      | MCountInit payload initTrack mediaTrack \<Rightarrow>
          Some (MNew (PhMedia mediaTrack),
                richAdd (wNow w) (initWrittenEvent initTrack payload) (countBytes payload r), None)
      | _ \<Rightarrow> None)"

text \<open>\<^verbatim>\<open>Run\<close>, from the dial to its return.\<close>

definition mainStep :: "world \<Rightarrow> wake \<Rightarrow> mainPC \<Rightarrow> Runner \<Rightarrow> (mainPC \<times> Runner \<times> reqStream option) option" where
  "mainStep w k pc r =
     (case pc of
        MDial \<Rightarrow>
          (case Dial (wDialAddr w) (cfgClient (rnCfg r)) of
             Ok (remote, u) \<Rightarrow> Some (MSink u, richAdd (wNow w) (connectedEvent remote r) r, None)
           | Err e \<Rightarrow> Some (MReturn (Some e), r, None)
           | Panic \<Rightarrow> None)
      | MSink u \<Rightarrow>
          (case NewSink (wStdin w) (wStart w) (cfgOutput (rnCfg r)) of
             Ok sink \<Rightarrow> Some (MSetup u, r, None)
           | Err e \<Rightarrow> Some (MReturn (Some (Wrapf ''output sink: %w'' [] e)), r, None)
           | Panic \<Rightarrow> None)
      | MSetup u \<Rightarrow>
          (case sendClientSetup (wOpened w) (wWerr w) (wNow w) u r of
             (Some e, r') \<Rightarrow> Some (MReturn (Some e), r', None)
           | (None, r') \<Rightarrow> Some (MWaitPeer, r', None))
      | MWaitPeer \<Rightarrow>
          (case k of
             WakeValue \<Rightarrow> if rnPeerSetupSeen r then Some (MNew PhCatalog, r, None) else None
           | WakeTimer \<Rightarrow> Some (MNew PhCatalog, r, None)
           | WakeCtx e \<Rightarrow> Some (MReturn (Some e), r, None)
           | WakeErr e \<Rightarrow> None)
      | MLoop \<Rightarrow>
          (case k of
             WakeCtx e \<Rightarrow> Some (MReturn None, r, None)
           | WakeErr e \<Rightarrow> (let (pc', r') = loopError e r in Some (pc', r', None))
           | _ \<Rightarrow> None)
      | MReturn e \<Rightarrow> None
      | _ \<Rightarrow> bootstrapStep w k pc r)"

lemmas mainStep_defs = mainStep_def bootstrapStep_def

text \<open>
  What \<^verbatim>\<open>Run\<close> does between deciding to return, at the place \<open>pc\<close>, and returning: the summary of the
  receive loop, and its deferred calls, last deferred first.
\<close>

datatype closing = LogSummary Summary | CloseSink | CloseControl u64 | CloseConn | WriteRichLog string

definition closings :: "int \<Rightarrow> mainPC \<Rightarrow> Runner \<Rightarrow> closing list" where
  "closings now pc r =
     (let richLog = [WriteRichLog (cfgRichLogPath (rnCfg r))];
          conn = (case rnControlStream r of None \<Rightarrow> [] | Some sid \<Rightarrow> [CloseControl sid]) @ [CloseConn]
      in case pc of
           MDial \<Rightarrow> richLog
         | MSink u \<Rightarrow> conn @ richLog
         | MLoop \<Rightarrow> LogSummary (printSummary now r) # CloseSink # conn @ richLog
         | _ \<Rightarrow> CloseSink # conn @ richLog)"

definition closingsAt :: "int \<Rightarrow> mainPC \<Rightarrow> mainPC \<Rightarrow> Runner \<Rightarrow> closing list" where
  "closingsAt now pc pc' r = (case pc' of MReturn e \<Rightarrow> closings now pc r | _ \<Rightarrow> [])"

subsection \<open>The session\<close>

record session =
  ssRunner :: Runner
  ssMain :: mainPC
  ssUni :: "uniStream list"
  ssReq :: "reqStream list"
  ssPending :: "gerr list"
  ssErrCh :: "gerr list"
  ssCtx :: "gerr option"
  ssAcceptUni :: bool
  ssAcceptBidi :: bool
  ssClosing :: "closing list"

text \<open>The beginning of \<^verbatim>\<open>Run\<close>.\<close>

definition startSession :: "Config \<Rightarrow> int \<Rightarrow> int \<Rightarrow> session" where
  "startSession cfg created now =
     (let r = updStats (\<lambda>s. s\<lparr>startedAt := now\<rparr>) (newRunner cfg created);
          rich = SetMeta ''relay'' (cfgRelayURI cfg) (rnRich r);
          rich = SetMeta ''namespace'' (cfgNamespace cfg) rich;
          rich = SetMeta ''output'' (mcMode (cfgOutput cfg)) rich
      in \<lparr>ssRunner = r\<lparr>rnRich := rich\<rparr>, ssMain = MDial, ssUni = [], ssReq = [], ssPending = [],
          ssErrCh = [], ssCtx = None, ssAcceptUni = False, ssAcceptBidi = False,
          ssClosing = []\<rparr>)"

text \<open>What a stream handler reports: nothing for nil and for an error that is \<^verbatim>\<open>io.EOF\<close>.\<close>

definition report :: "gerr option \<Rightarrow> gerr list" where
  "report e = (case e of None \<Rightarrow> [] | Some x \<Rightarrow> if errorsIs x ErrEOF then [] else [x])"

definition uniActive :: "uniPC \<Rightarrow> bool" where
  "uniActive pc \<longleftrightarrow> (case pc of UReturn e \<Rightarrow> False | UDone \<Rightarrow> False | UPanic \<Rightarrow> False | _ \<Rightarrow> True)"

definition crashed :: "session \<Rightarrow> bool" where
  "crashed s \<longleftrightarrow> (\<exists>t\<in>set (ssUni s). usPC t = UPanic)"

inductive step :: "session \<Rightarrow> session \<Rightarrow> bool" where
  step_main:
    "\<not> crashed s \<Longrightarrow> (\<forall>e. k \<noteq> WakeErr e) \<Longrightarrow> (\<forall>e. k = WakeCtx e \<longrightarrow> ssCtx s = Some e) \<Longrightarrow>
     mainStep w k (ssMain s) (ssRunner s) = Some (pc, r, q) \<Longrightarrow>
     step s (s\<lparr>ssMain := pc, ssRunner := r,
               ssReq := ssReq s @ (case q of None \<Rightarrow> [] | Some x \<Rightarrow> [x]),
               ssAcceptUni := ssAcceptUni s \<or> (\<exists>u. pc = MSetup u),
               ssAcceptBidi := ssAcceptBidi s \<or> (\<exists>u. pc = MSetup u),
               ssClosing := closingsAt (wNow w) (ssMain s) pc r\<rparr>)"
| step_receive:
    "\<not> crashed s \<Longrightarrow> ssMain s = MLoop \<Longrightarrow> ssErrCh s = e # es \<Longrightarrow>
     mainStep w (WakeErr e) (ssMain s) (ssRunner s) = Some (pc, r, q) \<Longrightarrow>
     step s (s\<lparr>ssMain := pc, ssRunner := r, ssErrCh := es,
               ssClosing := closingsAt (wNow w) (ssMain s) pc r\<rparr>)"
| step_uni:
    "\<not> crashed s \<Longrightarrow> i < length (ssUni s) \<Longrightarrow> uniActive (usPC (ssUni s ! i)) \<Longrightarrow>
     uniStep now werr (ssUni s ! i) (ssRunner s) = (t, r) \<Longrightarrow>
     step s (s\<lparr>ssUni := (ssUni s)[i := t], ssRunner := r\<rparr>)"
| step_uni_return:
    "\<not> crashed s \<Longrightarrow> i < length (ssUni s) \<Longrightarrow> usPC (ssUni s ! i) = UReturn e \<Longrightarrow>
     step s (s\<lparr>ssUni := (ssUni s)[i := (ssUni s ! i)\<lparr>usPC := UDone\<rparr>],
               ssPending := ssPending s @ report e\<rparr>)"
| step_req:
    "\<not> crashed s \<Longrightarrow> i < length (ssReq s) \<Longrightarrow>
     reqStep now (ssReq s ! i) (ssRunner s) = (t, r) \<Longrightarrow>
     step s (s\<lparr>ssReq := (ssReq s)[i := t], ssRunner := r\<rparr>)"
| step_send:
    "\<not> crashed s \<Longrightarrow> ssPending s = es @ e # es' \<Longrightarrow> length (ssErrCh s) < 8 \<Longrightarrow>
     step s (s\<lparr>ssPending := es @ es', ssErrCh := ssErrCh s @ [e]\<rparr>)"
| step_accept:
    "\<not> crashed s \<Longrightarrow> ssAcceptUni s \<Longrightarrow>
     step s (s\<lparr>ssUni := ssUni s @ [\<lparr>usID = sid, usReader = rd, usPC = UStart\<rparr>]\<rparr>)"
| step_accept_fails:
    "\<not> crashed s \<Longrightarrow> ssAcceptUni s \<Longrightarrow>
     step s (s\<lparr>ssAcceptUni := False, ssPending := ssPending s @ [e]\<rparr>)"
| step_bidi_fails:
    "\<not> crashed s \<Longrightarrow> ssAcceptBidi s \<Longrightarrow>
     step s (s\<lparr>ssAcceptBidi := False, ssPending := ssPending s @ [e]\<rparr>)"
| step_cancel:
    "\<not> crashed s \<Longrightarrow> ssCtx s = None \<Longrightarrow> step s (s\<lparr>ssCtx := Some e\<rparr>)"

inductive reachable :: "Config \<Rightarrow> session \<Rightarrow> bool" for cfg where
  reachable_start: "reachable cfg (startSession cfg created now)"
| reachable_step: "reachable cfg s \<Longrightarrow> step s s' \<Longrightarrow> reachable cfg s'"

inductive_cases stepE: "step s s'"

text \<open>The panic of one goroutine ends the process.\<close>

lemma crashed_stops: "crashed s \<Longrightarrow> \<not> step s s'"
  by (auto elim: stepE)

end
