(* ===== verification/StreamFacts.thy ===== *)
theory StreamFacts
  imports Streams
begin

text \<open>
  What the stream goroutines do when they run to their end: the bytes of a whole subgroup stream
  against the abstract delivery of its objects, the control stream, and the request streams.
\<close>

subsection \<open>Running to a state\<close>

lemma goto_simps [simp]:
  "usPC (goto pc rd t) = pc" "usReader (goto pc rd t) = rd" "usID (goto pc rd t) = usID t"
  by (simp_all add: goto_def)

lemma rgoto_simps [simp]:
  "rqPC (rgoto pc rd t) = pc" "rqReader (rgoto pc rd t) = rd" "rqID (rgoto pc rd t) = rqID t"
  "rqSub (rgoto pc rd t) = rqSub t"
  by (simp_all add: rgoto_def)

text \<open>Alone and with all writes succeeding, whatever the clock says, the goroutine gets to a state with \<open>Q\<close>.\<close>

definition runsTo :: "uniStream \<times> Runner \<Rightarrow> (uniStream \<Rightarrow> Runner \<Rightarrow> bool) \<Rightarrow> bool" where
  "runsTo x Q \<longleftrightarrow> (\<forall>clock. \<exists>n. case_prod Q (uniRun clock (\<lambda>_. None) n x))"

lemma runsTo_here: "Q t r \<Longrightarrow> runsTo (t, r) Q"
  unfolding runsTo_def by (intro allI exI [of _ 0]) simp

lemma runsTo_step:
  assumes "\<And>now. runsTo (uniStep now None t r) Q"
  shows "runsTo (t, r) Q"
  unfolding runsTo_def
proof
  fix clock
  obtain n where "case_prod Q (uniRun (\<lambda>i. clock (Suc i)) (\<lambda>_. None) n (uniStep (clock 0) None t r))"
    using assms [of "clock 0"] unfolding runsTo_def by metis
  then show "\<exists>n. case_prod Q (uniRun clock (\<lambda>_. None) n (t, r))"
    by (intro exI [of _ "Suc n"]) simp
qed

lemma runsTo_mono: "runsTo x Q \<Longrightarrow> (\<And>t r. Q t r \<Longrightarrow> P t r) \<Longrightarrow> runsTo x P"
  unfolding runsTo_def by (fastforce split: prod.splits)

subsection \<open>The abstract delivery of objects\<close>

record delivery =
  dvWrites :: "(bytes \<times> gerr option) list"
  dvStore :: "trackSubscription list"
  dvBytes :: u64
  dvObjects :: u64
  dvGaps :: u64
  dvStatus :: u64

definition deliveryOf :: "Runner \<Rightarrow> delivery" where
  "deliveryOf r = \<lparr>dvWrites = rnWrites r, dvStore = rnStore r, dvBytes = bytesWritten (rnStats r),
     dvObjects = objectsSeen (rnStats r), dvGaps = gapHints (rnStats r),
     dvStatus = statusObjects (rnStats r)\<rparr>"

definition dvCount :: "SubgroupObject \<Rightarrow> delivery \<Rightarrow> delivery" where
  "dvCount ob v = v\<lparr>dvObjects := dvObjects v + 1,
     dvGaps := dvGaps v + (if ObjectIDDelta ob = 0 then 0 else 1),
     dvStatus := dvStatus v + (if IsStatusObject ob then 1 else 0)\<rparr>"

definition dvWrite :: "bytes \<Rightarrow> delivery \<Rightarrow> delivery" where
  "dvWrite p v = v\<lparr>dvWrites := dvWrites v @ [(p, None)], dvBytes := dvBytes v + word_of_nat (length p)\<rparr>"

definition dvFirst :: "subref \<Rightarrow> bytes \<Rightarrow> delivery \<Rightarrow> delivery" where
  "dvFirst m p v =
     (if gotFirst (dvStore v ! m) then v
      else v\<lparr>dvStore := (dvStore v)[m := (dvStore v ! m)
              \<lparr>gotFirst := True, firstObjCh := map_option (trySend p) (firstObjCh (dvStore v ! m))\<rparr>]\<rparr>)"

text \<open>The promise: a payload goes to the output for the media track, and the first one to the waiting
  bootstrap for the catalog and the init track.\<close>

definition deliver :: "subref option \<Rightarrow> SubgroupObject \<Rightarrow> delivery \<Rightarrow> delivery" where
  "deliver sub ob v =
     (let v = dvCount ob v in
      case sub of
        None \<Rightarrow> v
      | Some m \<Rightarrow>
          if IsStatusObject ob then v
          else (case subRole (dvStore v ! m) of
                  roleMedia \<Rightarrow> dvWrite (Payload ob) v
                | roleOther i \<Rightarrow> v
                | _ \<Rightarrow> dvFirst m (Payload ob) v))"

lemma updStats_simps [simp]:
  "rnWrites (updStats f r) = rnWrites r" "rnStore (updStats f r) = rnStore r"
  "rnSubs (updStats f r) = rnSubs r" "rnStats (updStats f r) = f (rnStats r)"
  "rnPeerSetupSeen (updStats f r) = rnPeerSetupSeen r" "rnCfg (updStats f r) = rnCfg r"
  "rnSent (updStats f r) = rnSent r"
  by (simp_all add: updStats_def)

lemma richAdd_simps [simp]:
  "rnWrites (richAdd now ev r) = rnWrites r" "rnStore (richAdd now ev r) = rnStore r"
  "rnSubs (richAdd now ev r) = rnSubs r" "rnStats (richAdd now ev r) = rnStats r"
  "rnPeerSetupSeen (richAdd now ev r) = rnPeerSetupSeen r" "rnCfg (richAdd now ev r) = rnCfg r"
  "rnSent (richAdd now ev r) = rnSent r"
  by (simp_all add: richAdd_def)

lemma logObject_simps [simp]:
  "rnWrites (logObject now i m h ob r) = rnWrites r" "rnStore (logObject now i m h ob r) = rnStore r"
  "rnSubs (logObject now i m h ob r) = rnSubs r" "rnStats (logObject now i m h ob r) = rnStats r"
  "rnPeerSetupSeen (logObject now i m h ob r) = rnPeerSetupSeen r"
  "rnCfg (logObject now i m h ob r) = rnCfg r" "rnSent (logObject now i m h ob r) = rnSent r"
  by (simp_all add: logObject_def richAddObject_def)

lemma updSub_simps [simp]:
  "rnWrites (updSub m f r) = rnWrites r" "rnStore (updSub m f r) = (rnStore r)[m := f (rnStore r ! m)]"
  "rnSubs (updSub m f r) = rnSubs r" "rnStats (updSub m f r) = rnStats r"
  "rnPeerSetupSeen (updSub m f r) = rnPeerSetupSeen r" "rnCfg (updSub m f r) = rnCfg r"
  "rnSent (updSub m f r) = rnSent r"
  by (simp_all add: updSub_def)

lemma deliveryOf_countObject [simp]: "deliveryOf (countObject ob r) = dvCount ob (deliveryOf r)"
  by (simp add: deliveryOf_def countObject_def dvCount_def Let_def word_gt_0)

lemma deliveryOf_logObject [simp]: "deliveryOf (logObject now i m h ob r) = deliveryOf r"
  by (simp add: deliveryOf_def)

lemma deliveryOf_recordFirstObject [simp]: "deliveryOf (recordFirstObject now r) = deliveryOf r"
  by (simp add: deliveryOf_def recordFirstObject_def)

lemma countObject_store [simp]:
  "rnStore (countObject ob r) = rnStore r" "rnSubs (countObject ob r) = rnSubs r"
  "rnWrites (countObject ob r) = rnWrites r"
  by (simp_all add: countObject_def)

lemma recordFirstObject_store [simp]:
  "rnStore (recordFirstObject now r) = rnStore r" "rnSubs (recordFirstObject now r) = rnSubs r"
  "rnWrites (recordFirstObject now r) = rnWrites r"
  by (simp_all add: recordFirstObject_def)

lemma dvStore_deliveryOf [simp]: "dvStore (deliveryOf r) = rnStore r"
  by (simp add: deliveryOf_def)

lemma dvStore_dvCount [simp]: "dvStore (dvCount ob v) = dvStore v"
  by (simp add: dvCount_def)

lemma deliveryOf_write [simp]:
  "deliveryOf (countBytes p (r\<lparr>rnWrites := rnWrites r @ [(p, None)]\<rparr>)) = dvWrite p (deliveryOf r)"
  by (simp add: deliveryOf_def countBytes_def dvWrite_def)

lemma deliveryOf_first [simp]:
  "m < length (rnStore r) \<Longrightarrow> \<not> gotFirst (rnStore r ! m) \<Longrightarrow>
   deliveryOf (sendFirst m p (updSub m (\<lambda>x. x\<lparr>gotFirst := True\<rparr>) r)) = dvFirst m p (deliveryOf r)"
  by (simp add: deliveryOf_def sendFirst_def dvFirst_def)

lemma countBytes_store [simp]: "rnStore (countBytes p r) = rnStore r" "rnSubs (countBytes p r) = rnSubs r"
  "rnWrites (countBytes p r) = rnWrites r"
  by (simp_all add: countBytes_def)

lemma sendFirst_store [simp]: "length (rnStore (sendFirst m p r)) = length (rnStore r)"
  by (simp add: sendFirst_def)

text \<open>The loop body of \<^verbatim>\<open>handleSubgroupStream\<close> refines \<open>deliver\<close>.\<close>

lemma runs_deliver:
  assumes pc: "usPC t = UDeliver h m s ob" and status: "\<not> IsStatusObject ob"
    and store: "m < length (rnStore r)" and v: "deliveryOf r = dvCount ob v"
    and cont: "\<And>t' r'. usPC t' = UNext h (Some m) s \<Longrightarrow> usReader t' = usReader t \<Longrightarrow>
      length (rnStore r') = length (rnStore r) \<Longrightarrow>
      deliveryOf r' = deliver (Some m) ob v \<Longrightarrow> runsTo (t', r') Q"
  shows "runsTo (t, r) Q"
proof -
  have st: "dvStore v = rnStore r" using v by (metis dvStore_dvCount dvStore_deliveryOf)
  note steps = uniStep_def pc stepDeliver_def stepDelivered_def
  have first: "runsTo (t, r) Q" if role: "subRole (rnStore r ! m) \<in> {roleCatalog, roleInit}"
  proof (cases "gotFirst (rnStore r ! m)")
    case True
    show ?thesis
      by (rule runsTo_step, use role in \<open>auto simp: steps True intro!: cont\<close>)
        (simp_all add: v st deliver_def dvFirst_def role status True)
  next
    case False
    have step: "uniStep now None t r = (goto (USetFirst h m s ob) (usReader t) t, r)" for now
      using role by (auto simp: steps False)
    show ?thesis
      by (rule runsTo_step, subst step, rule runsTo_step, simp add: uniStep_def,
          rule runsTo_step, simp add: uniStep_def stepDelivered_def, rule cont)
        (use role in \<open>auto simp: v st deliver_def store False status\<close>)
  qed
  show ?thesis
  proof (cases "subRole (rnStore r ! m)")
    case roleMedia
    show ?thesis
      by (rule runsTo_step, simp add: steps roleMedia,
          rule runsTo_step, simp add: uniStep_def writePayload_def,
          rule runsTo_step, simp add: uniStep_def stepDelivered_def, rule cont)
        (simp_all add: deliveryOf_write [of _ "recordFirstObject now r" for now, simplified] v st roleMedia
          status deliver_def)
  next
    case (roleOther i)
    show ?thesis
      by (rule runsTo_step, simp add: steps roleOther, rule cont)
        (simp_all add: v st roleOther status deliver_def)
  qed (use first in auto)
qed

subsection \<open>A whole subgroup stream\<close>

fun objectsWire :: "bool \<Rightarrow> u64 option \<Rightarrow> SubgroupObject list \<Rightarrow> bytes" where
  "objectsWire ext prev [] = []"
| "objectsWire ext prev (ob # obs) = objectBytes ext prev ob @ objectsWire ext (Some (ObjectID ob)) obs"

fun wfObjects :: "bool \<Rightarrow> u64 option \<Rightarrow> SubgroupObject list \<Rightarrow> bool" where
  "wfObjects ext prev [] = True"
| "wfObjects ext prev (ob # obs) = (wfObject ext prev ob \<and> wfObjects ext (Some (ObjectID ob)) obs)"

definition streamWire :: "SubgroupHeader \<Rightarrow> SubgroupObject list \<Rightarrow> bytes" where
  "streamWire h obs = AppendVarint [] (hdrType h) @ headerBytes h @ objectsWire (hdrHasExtensions h) None obs"

lemma Next_end: "flat rd = [] \<Longrightarrow> fin rd = ErrEOF \<Longrightarrow> \<exists>rd'. Next s rd = (Err ErrEOF, rd')"
proof -
  assume "flat rd = []" "fin rd = ErrEOF"
  moreover have "Next s (mkr [] ErrEOF) = (Err ErrEOF, mkr [] ErrEOF)"
    by (simp add: Next_def wire_simps ReadVarint_Nil)
  ultimately show ?thesis using insens_lift [OF insens_Next] by metis
qed

lemma Next_chunked:
  assumes "wfObject (hasExtensions s) (prevObjectID s) ob"
    and "flat rd = objectBytes (hasExtensions s) (prevObjectID s) ob @ rest"
  shows "\<exists>rd'. Next s rd = (Ok (ob, s\<lparr>prevObjectID := Some (ObjectID ob)\<rparr>), rd') \<and> flat rd' = rest \<and> fin rd' = fin rd"
  by (rule insens_lift [OF insens_Next Next_objectBytes [OF assms(1)] assms(2) refl])

definition validRef :: "subref option \<Rightarrow> Runner \<Rightarrow> bool" where
  "validRef sub r \<longleftrightarrow> (\<forall>m. sub = Some m \<longrightarrow> m < length (rnStore r))"

lemma validRef_length: "validRef sub r \<Longrightarrow> length (rnStore r') = length (rnStore r) \<Longrightarrow> validRef sub r'"
  by (simp add: validRef_def)

text \<open>The object loop, from any point of a well-formed stream, delivers what is left and returns nil.\<close>

lemma runs_loop:
  assumes "usPC t = UNext h sub s" and "validRef sub r"
    and "wfObjects (hasExtensions s) (prevObjectID s) obs"
    and "flat (usReader t) = objectsWire (hasExtensions s) (prevObjectID s) obs"
    and "fin (usReader t) = ErrEOF"
  shows "runsTo (t, r) (\<lambda>t' r'. usPC t' = UReturn None
      \<and> deliveryOf r' = fold (deliver sub) obs (deliveryOf r))"
  using assms
proof (induction obs arbitrary: t r s)
  case Nil
  then obtain rd where "Next s (usReader t) = (Err ErrEOF, rd)" using Next_end by fastforce
  with Nil show ?case
    by (intro runsTo_step) (simp add: uniStep_def stepNext_def runsTo_here)
next
  case (Cons ob obs)
  let ?s = "s\<lparr>prevObjectID := Some (ObjectID ob)\<rparr>"
  from Cons.prems obtain rd where rd: "Next s (usReader t) = (Ok (ob, ?s), rd)"
      "flat rd = objectsWire (hasExtensions s) (Some (ObjectID ob)) obs" "fin rd = ErrEOF"
    using Next_chunked [of s ob "usReader t"] by auto
  have loop: "runsTo (t', r') (\<lambda>t' r'. usPC t' = UReturn None
      \<and> deliveryOf r' = fold (deliver sub) (ob # obs) (deliveryOf r))"
    if "usPC t' = UNext h sub ?s" "usReader t' = rd" "length (rnStore r') = length (rnStore r)"
      "deliveryOf r' = deliver sub ob (deliveryOf r)" for t' r'
    using Cons.IH [of t' ?s r'] that rd Cons.prems validRef_length [of sub r r'] by simp
  show ?case
  proof (cases "sub = None \<or> IsStatusObject ob")
    case True
    then have "uniStep now None t r = (goto (UNext h sub ?s) rd t, countObject ob r)" for now
      using Cons.prems(1) rd(1) by (auto simp: uniStep_def stepNext_def split: option.splits)
    moreover have "deliveryOf (countObject ob r) = deliver sub ob (deliveryOf r)"
      using True by (auto simp: deliver_def Let_def split: option.splits)
    ultimately show ?thesis
      by (intro runsTo_step) (simp only: , rule loop, simp_all)
  next
    case False
    then obtain m where m: "sub = Some m" "\<not> IsStatusObject ob" by auto
    then have "uniStep now None t r = (goto (UDeliver h m ?s ob) rd t, countObject ob r)" for now
      using Cons.prems(1) rd(1) by (simp add: uniStep_def stepNext_def)
    moreover have "runsTo (goto (UDeliver h m ?s ob) rd t, countObject ob r)
        (\<lambda>t' r'. usPC t' = UReturn None \<and> deliveryOf r' = fold (deliver sub) (ob # obs) (deliveryOf r))"
      by (rule runs_deliver [where v = "deliveryOf r" and h = h and m = m and s = ?s and ob = ob])
        (use m Cons.prems(2) loop in \<open>auto simp: validRef_def\<close>)
    ultimately show ?thesis by (intro runsTo_step) simp
  qed
qed

lemma runs_stream:
  assumes "usPC t = UStart" and "wfHeader h" and "wfObjects (hdrHasExtensions h) None obs"
    and "flat (usReader t) = streamWire h obs" and "fin (usReader t) = ErrEOF"
    and "fst (lookupDelivery (rnSubs r) (hdrTrackAlias h)) = sub" and "validRef sub r"
  shows "runsTo (t, r) (\<lambda>t' r'. usPC t' = UReturn None
      \<and> deliveryOf r' = fold (deliver sub) obs (deliveryOf r))"
proof -
  obtain rd where rd: "ReadVarint (usReader t) = (Ok (hdrType h), rd)"
      "flat rd = headerBytes h @ objectsWire (hdrHasExtensions h) None obs" "fin rd = ErrEOF"
    using varint.dec_chunked [where x = "hdrType h" and r = "usReader t"] assms(4,5) by (auto simp: streamWire_def)
  obtain rd' where rd': "ParseSubgroupHeader (hdrType h) rd = (Ok h, rd')"
      "flat rd' = objectsWire (hdrHasExtensions h) None obs" "fin rd' = ErrEOF"
    using header.dec_chunked [where x = h and r = rd and t = "hdrType h"] assms(2) rd(2,3) by auto
  have ty: "IsSubgroupStreamType (hdrType h)" "hdrType h \<noteq> StreamTypeSetup"
    using assms(2) by (auto simp: wfHeader_def IsSubgroupStreamType_def subgroup_codes StreamTypeSetup_def)
  show ?thesis
    by (rule runsTo_step, simp add: uniStep_def assms(1) stepStart_def rd(1) ty,
        rule runsTo_step, simp add: uniStep_def stepHeader_def rd'(1) beginSubgroup_def Let_def
          split_beta, rule runsTo_mono [OF runs_loop [where h = h and sub = sub and obs = obs and
          s = "NewSubgroupObjectReader h"]])
      (use assms rd' validRef_length [OF assms(7)] in \<open>simp_all add: NewSubgroupObjectReader_def deliveryOf_def\<close>)
qed

lemma uniRun_of_runsTo:
  "runsTo (t, r) Q \<Longrightarrow> \<exists>n t' r'. uniRun clock (\<lambda>_. None) n (t, r) = (t', r') \<and> Q t' r'"
  unfolding runsTo_def by (metis case_prodE)

subsection \<open>The abstract delivery, by kind of subscription\<close>

abbreviation payloadsOf :: "SubgroupObject list \<Rightarrow> bytes list" where
  "payloadsOf obs \<equiv> map Payload (filter (\<lambda>ob. \<not> IsStatusObject ob) obs)"

lemma deliver_counts [simp]:
  "dvObjects (deliver sub ob v) = dvObjects v + 1"
  "dvGaps (deliver sub ob v) = dvGaps v + (if ObjectIDDelta ob = 0 then 0 else 1)"
  "dvStatus (deliver sub ob v) = dvStatus v + (if IsStatusObject ob then 1 else 0)"
  by (auto simp: deliver_def dvCount_def dvWrite_def dvFirst_def Let_def
      split: option.splits trackRole.splits)

lemma fold_deliver_counts:
  "dvObjects (fold (deliver sub) obs v) = dvObjects v + word_of_nat (length obs)"
  "dvGaps (fold (deliver sub) obs v)
    = dvGaps v + word_of_nat (length (filter (\<lambda>ob. ObjectIDDelta ob \<noteq> 0) obs))"
  "dvStatus (fold (deliver sub) obs v) = dvStatus v + word_of_nat (length (filter IsStatusObject obs))"
  by (induction obs arbitrary: v) (simp_all add: algebra_simps)

lemma dvCount_simps [simp]: "dvWrites (dvCount ob v) = dvWrites v" "dvBytes (dvCount ob v) = dvBytes v"
  by (simp_all add: dvCount_def)

lemma dvWrite_simps [simp]: "dvStore (dvWrite p v) = dvStore v" "dvWrites (dvWrite p v) = dvWrites v @ [(p, None)]"
  "dvBytes (dvWrite p v) = dvBytes v + word_of_nat (length p)"
  by (simp_all add: dvWrite_def)

lemma dvFirst_simps [simp]: "dvWrites (dvFirst m p v) = dvWrites v" "dvBytes (dvFirst m p v) = dvBytes v"
  by (simp_all add: dvFirst_def)

lemma fold_deliver_media:
  assumes "subRole (dvStore v ! m) = roleMedia"
  shows "dvWrites (fold (deliver (Some m)) obs v) = dvWrites v @ map (\<lambda>p. (p, None)) (payloadsOf obs)
    \<and> dvBytes (fold (deliver (Some m)) obs v) = dvBytes v + word_of_nat (length (concat (payloadsOf obs)))
    \<and> dvStore (fold (deliver (Some m)) obs v) = dvStore v"
  using assms
proof (induction obs arbitrary: v)
  case (Cons ob obs)
  have "dvStore (deliver (Some m) ob v) = dvStore v"
    "dvWrites (deliver (Some m) ob v) = dvWrites v @ (if IsStatusObject ob then [] else [(Payload ob, None)])"
    "dvBytes (deliver (Some m) ob v) = dvBytes v + (if IsStatusObject ob then 0 else word_of_nat (length (Payload ob)))"
    using Cons.prems by (simp_all add: deliver_def Let_def)
  with Cons.IH [of "deliver (Some m) ob v"] Cons.prems show ?case by (simp add: algebra_simps)
qed simp

lemma fold_deliver_None:
  "dvWrites (fold (deliver None) obs v) = dvWrites v \<and> dvBytes (fold (deliver None) obs v) = dvBytes v
   \<and> dvStore (fold (deliver None) obs v) = dvStore v"
  by (induction obs arbitrary: v) (simp_all add: deliver_def)

text \<open>A subscription that has its first object ignores the others.\<close>

lemma fold_deliver_got:
  assumes "subRole (dvStore v ! m) \<in> {roleCatalog, roleInit}" and "gotFirst (dvStore v ! m)"
  shows "dvWrites (fold (deliver (Some m)) obs v) = dvWrites v
    \<and> dvStore (fold (deliver (Some m)) obs v) = dvStore v"
  using assms
proof (induction obs arbitrary: v)
  case (Cons ob obs)
  then have "dvStore (deliver (Some m) ob v) = dvStore v" "dvWrites (deliver (Some m) ob v) = dvWrites v"
    by (auto simp: deliver_def dvFirst_def Let_def)
  with Cons show ?case by simp
qed simp

lemma fold_deliver_first:
  assumes "subRole (dvStore v ! m) \<in> {roleCatalog, roleInit}" and "\<not> gotFirst (dvStore v ! m)"
    and "firstObjCh (dvStore v ! m) = Some []" and "m < length (dvStore v)"
  shows "dvWrites (fold (deliver (Some m)) obs v) = dvWrites v
    \<and> firstObjCh (dvStore (fold (deliver (Some m)) obs v) ! m) = Some (take 1 (payloadsOf obs))"
  using assms
proof (induction obs arbitrary: v)
  case (Cons ob obs)
  show ?case
  proof (cases "IsStatusObject ob")
    case True
    then have d: "dvStore (deliver (Some m) ob v) = dvStore v" "dvWrites (deliver (Some m) ob v) = dvWrites v"
      by (simp_all add: deliver_def)
    show ?thesis using Cons.IH [of "deliver (Some m) ob v"] Cons.prems True by (simp add: d)
  next
    case False
    let ?v = "deliver (Some m) ob v"
    have d: "dvStore ?v ! m = (dvStore v ! m)\<lparr>gotFirst := True, firstObjCh := Some [Payload ob]\<rparr>"
      "dvWrites ?v = dvWrites v"
      using Cons.prems False by (auto simp: deliver_def dvFirst_def trySend_def Let_def)
    then have "dvWrites (fold (deliver (Some m)) obs ?v) = dvWrites ?v
        \<and> dvStore (fold (deliver (Some m)) obs ?v) = dvStore ?v"
      using Cons.prems(1) by (intro fold_deliver_got) auto
    with d False show ?thesis by simp
  qed
qed simp

subsection \<open>Properties of subgroup streams\<close>

text \<open>C3: The subgroup handler, from the bytes of a stream to its effects.  A stream made of a stream
  type, a header and objects, in whatever chunks, is read to its end and the handler returns nil;
  its effect on the output, on the subscriptions and on the counters is the abstract delivery of its
  objects one after the other to the subscription its alias resolved to.\<close>

theorem subgroup_stream_refines:
  assumes "usPC t = UStart" and "flat (usReader t) = streamWire h obs" and "fin (usReader t) = ErrEOF"
    and "wfHeader h" and "wfObjects (hdrHasExtensions h) None obs"
    and "fst (lookupDelivery (rnSubs r) (hdrTrackAlias h)) = sub"
    and "\<forall>m. sub = Some m \<longrightarrow> m < length (rnStore r)"
  shows "\<exists>n t' r'. uniRun clock (\<lambda>_. None) n (t, r) = (t', r') \<and> usPC t' = UReturn None
    \<and> deliveryOf r' = fold (deliver sub) obs (deliveryOf r)"
  by (rule uniRun_of_runsTo, rule runs_stream) (use assms in \<open>simp_all add: validRef_def\<close>)

definition exHeader :: SubgroupHeader where
  "exHeader = \<lparr>hdrType = 0x10, hdrTrackAlias = 2, hdrGroupID = 7, hdrSubgroupID = 0,
     hdrHasSubgroupID = False, hdrHasExtensions = False, hdrUsesFirstObjectID = False,
     hdrEndOfGroup = False, hdrPublisherPriority = 0x80\<rparr>"

definition exObject :: "u64 \<Rightarrow> u64 \<Rightarrow> bytes \<Rightarrow> SubgroupObject" where
  "exObject i d p = \<lparr>ObjectID = i, ObjectIDDelta = d, ObjectStatus = 0, PropertiesRaw = [],
     Payload = p, PayloadLen = word_of_nat (length p), IsStatusObject = (p = [])\<rparr>"

definition exSub :: "trackRole \<Rightarrow> trackSubscription" where
  "exSub role = \<lparr>subRequestID = 2, subNamespace = ''ns'', subTrackName = ''v'', subRole = role,
     subStream = Some 4, okCh = [], firstObjCh = (if role = roleMedia then None else Some []),
     gotFirst = False\<rparr>"

definition exRunner :: "trackRole \<Rightarrow> Runner" where
  "exRunner role = (newRunner \<lparr>cfgRelayURI = [], cfgNamespace = ''ns'', cfgOutput = \<lparr>mcMode = ModeStdout,
       mcFFmpegCmd = [], mcFFplayCmd = [], mcPipeCmd = []\<rparr>, cfgClient = \<lparr>ccRelayURI = [],
       ccInsecureSkipTLS = False, ccALPN = [], ccHandshakeTimeout = 0\<rparr>, cfgRichLogPath = []\<rparr> 0)
     \<lparr>rnStore := [exSub role], rnSubs := register newSubscriptionRegistry 2 0\<rparr>"

definition exStream :: "bytes \<Rightarrow> uniStream" where
  "exStream d = \<lparr>usID = 3, usReader = mkr d ErrEOF, usPC = UStart\<rparr>"

text \<open>Three objects: one of two bytes, one of one byte after a gap, and an end-of-group status.\<close>

definition exObjects :: "SubgroupObject list" where
  "exObjects = [exObject 0 0 [1, 2], exObject 2 1 [3], exObject 3 0 []]"

lemma exStream_facts:
  "usPC (exStream d) = UStart" "flat (usReader (exStream d)) = d" "fin (usReader (exStream d)) = ErrEOF"
  "wfHeader exHeader" "wfObjects (hdrHasExtensions exHeader) None exObjects"
  "fst (lookupDelivery (rnSubs (exRunner role)) (hdrTrackAlias exHeader)) = Some 0"
  "rnStore (exRunner role) = [exSub role]" "rnWrites (exRunner role) = []"
  by (simp_all add: exStream_def flat_def mkr_def wfHeader_def exHeader_def IsSubgroupStreamType_def
      subgroup_codes subgroupHasSubgroupID_def subgroupHasExtensions_def subgroupUsesFirstObjectID_def
      exObjects_def exObject_def wfObject_def idDelta_def ObjectStatusNormal_def exRunner_def maxAlloc_def
      lookupDelivery_def register_def newSubscriptionRegistry_def newRunner_def)

theorem subgroup_stream_refines_witness:
  "\<exists>n t' r'. uniRun (\<lambda>_. 0) (\<lambda>_. None) n (exStream (streamWire exHeader exObjects), exRunner roleMedia) = (t', r')
     \<and> usPC t' = UReturn None \<and> objectsSeen (rnStats r') = 3"
proof -
  obtain n t' r' where n: "uniRun (\<lambda>_. 0) (\<lambda>_. None) n
      (exStream (streamWire exHeader exObjects), exRunner roleMedia) = (t', r')"
    "usPC t' = UReturn None"
    "deliveryOf r' = fold (deliver (Some 0)) exObjects (deliveryOf (exRunner roleMedia))"
    using subgroup_stream_refines [OF exStream_facts(1-6), of roleMedia "\<lambda>_. 0"] exStream_facts(7)
    by auto
  from n(3) have "dvObjects (deliveryOf r') = dvObjects (deliveryOf (exRunner roleMedia)) + word_of_nat (length exObjects)"
    by (simp add: fold_deliver_counts)
  with n(1,2) show ?thesis
    by (auto simp: deliveryOf_def exRunner_def newRunner_def exObjects_def)
qed

text \<open>Media reaches the output.  A stream of the media track is written to the sink object by
  object: exactly the payloads of its objects that are not status objects, each once and in order,
  and \<^verbatim>\<open>bytesWritten\<close> grows by their total length (modulo \<open>2 ^ 64\<close>).  A stream whose alias is unknown
  writes nothing and touches no subscription; its objects are still counted.\<close>

theorem media_stream_written:
  assumes "usPC t = UStart" and "flat (usReader t) = streamWire h obs" and "fin (usReader t) = ErrEOF"
    and "wfHeader h" and "wfObjects (hdrHasExtensions h) None obs"
    and "case fst (lookupDelivery (rnSubs r) (hdrTrackAlias h)) of None \<Rightarrow> ps = []
      | Some m \<Rightarrow> m < length (rnStore r) \<and> subRole (rnStore r ! m) = roleMedia
          \<and> ps = map Payload (filter (\<lambda>ob. \<not> IsStatusObject ob) obs)"
  shows "\<exists>n t' r'. uniRun clock (\<lambda>_. None) n (t, r) = (t', r') \<and> usPC t' = UReturn None
    \<and> rnWrites r' = rnWrites r @ map (\<lambda>p. (p, None)) ps
    \<and> bytesWritten (rnStats r') = bytesWritten (rnStats r) + word_of_nat (length (concat ps))
    \<and> objectsSeen (rnStats r') = objectsSeen (rnStats r) + word_of_nat (length obs)
    \<and> rnStore r' = rnStore r"
proof -
  define sub where "sub = fst (lookupDelivery (rnSubs r) (hdrTrackAlias h))"
  have "runsTo (t, r) (\<lambda>t' r'. usPC t' = UReturn None
      \<and> deliveryOf r' = fold (deliver sub) obs (deliveryOf r))"
    by (rule runs_stream) (use assms in \<open>auto simp: validRef_def sub_def split: option.splits\<close>)
  then obtain n t' r' where n: "uniRun clock (\<lambda>_. None) n (t, r) = (t', r')" "usPC t' = UReturn None"
      "deliveryOf r' = fold (deliver sub) obs (deliveryOf r)"
    using uniRun_of_runsTo by blast
  have "dvWrites (fold (deliver sub) obs (deliveryOf r)) = dvWrites (deliveryOf r) @ map (\<lambda>p. (p, None)) ps
      \<and> dvBytes (fold (deliver sub) obs (deliveryOf r)) = dvBytes (deliveryOf r) + word_of_nat (length (concat ps))
      \<and> dvStore (fold (deliver sub) obs (deliveryOf r)) = dvStore (deliveryOf r)"
    using assms(6) fold_deliver_media [of "deliveryOf r"] fold_deliver_None [of obs "deliveryOf r"]
    by (cases sub) (auto simp: sub_def)
  with n fold_deliver_counts(1) [of sub obs "deliveryOf r"] show ?thesis
    by (intro exI [of _ n] exI [of _ t'] exI [of _ r']) (metis deliveryOf_def delivery.simps(1-4))
qed

theorem media_stream_written_witness:
  "\<exists>n t' r'. uniRun (\<lambda>_. 0) (\<lambda>_. None) n (exStream (streamWire exHeader exObjects), exRunner roleMedia) = (t', r')
     \<and> rnWrites r' = [([1, 2], None), ([3], None)] \<and> bytesWritten (rnStats r') = 3"
proof -
  have c: "case fst (lookupDelivery (rnSubs (exRunner roleMedia)) (hdrTrackAlias exHeader)) of
      None \<Rightarrow> [[1, 2], [3]] = ([] :: bytes list)
    | Some m \<Rightarrow> m < length (rnStore (exRunner roleMedia)) \<and> subRole (rnStore (exRunner roleMedia) ! m) = roleMedia
          \<and> [[1, 2], [3]] = map Payload (filter (\<lambda>ob. \<not> IsStatusObject ob) exObjects)"
    unfolding exStream_facts by (simp add: exSub_def exObjects_def exObject_def)
  have "bytesWritten (rnStats (exRunner roleMedia)) = 0" by (simp add: exRunner_def newRunner_def)
  with media_stream_written [OF exStream_facts(1-5) c, of "\<lambda>_. 0"] exStream_facts(8) show ?thesis by fastforce
qed

text \<open>C18: The first object of the catalog or init track.  A stream of such a track writes nothing to the
  output; while the track has no first object yet, the channel the bootstrap waits on holds exactly
  the payload of the first object that is not a status object, and nothing when there is none.\<close>

theorem first_object_delivered:
  assumes "usPC t = UStart" and "flat (usReader t) = streamWire h obs" and "fin (usReader t) = ErrEOF"
    and "wfHeader h" and "wfObjects (hdrHasExtensions h) None obs"
    and "fst (lookupDelivery (rnSubs r) (hdrTrackAlias h)) = Some m" and "m < length (rnStore r)"
    and "subRole (rnStore r ! m) = roleCatalog \<or> subRole (rnStore r ! m) = roleInit"
    and "\<not> gotFirst (rnStore r ! m)" and "firstObjCh (rnStore r ! m) = Some []"
  shows "\<exists>n t' r'. uniRun clock (\<lambda>_. None) n (t, r) = (t', r') \<and> usPC t' = UReturn None
    \<and> rnWrites r' = rnWrites r
    \<and> firstObjCh (rnStore r' ! m) = Some (take 1 (map Payload (filter (\<lambda>ob. \<not> IsStatusObject ob) obs)))"
proof -
  have "runsTo (t, r) (\<lambda>t' r'. usPC t' = UReturn None
      \<and> deliveryOf r' = fold (deliver (Some m)) obs (deliveryOf r))"
    by (rule runs_stream) (use assms in \<open>auto simp: validRef_def\<close>)
  then obtain n t' r' where n: "uniRun clock (\<lambda>_. None) n (t, r) = (t', r')" "usPC t' = UReturn None"
      "deliveryOf r' = fold (deliver (Some m)) obs (deliveryOf r)"
    using uniRun_of_runsTo by blast
  have "dvWrites (deliveryOf r') = dvWrites (deliveryOf r) \<and>
      firstObjCh (dvStore (deliveryOf r') ! m) = Some (take 1 (payloadsOf obs))"
    unfolding n(3) by (rule fold_deliver_first) (use assms in auto)
  then have "rnWrites r' = rnWrites r \<and> firstObjCh (rnStore r' ! m) = Some (take 1 (payloadsOf obs))"
    by (simp add: deliveryOf_def)
  with n(1,2) show ?thesis by blast
qed

theorem first_object_delivered_witness:
  "\<exists>n t' r'. uniRun (\<lambda>_. 0) (\<lambda>_. None) n (exStream (streamWire exHeader exObjects), exRunner roleInit) = (t', r')
     \<and> rnWrites r' = [] \<and> firstObjCh (rnStore r' ! 0) = Some [[1, 2]]"
proof -
  have s: "0 < length (rnStore (exRunner roleInit))"
    "subRole (rnStore (exRunner roleInit) ! 0) = roleCatalog \<or> subRole (rnStore (exRunner roleInit) ! 0) = roleInit"
    "\<not> gotFirst (rnStore (exRunner roleInit) ! 0)" "firstObjCh (rnStore (exRunner roleInit) ! 0) = Some []"
    unfolding exStream_facts by (simp_all add: exSub_def)
  have "take 1 (payloadsOf exObjects) = [[1, 2]]" by (simp add: exObjects_def exObject_def)
  with first_object_delivered [OF exStream_facts(1-6) s, of "\<lambda>_. 0"] exStream_facts(8) show ?thesis by fastforce
qed

end
