(* ===== verification/ControlFacts.thy ===== *)
theory ControlFacts
  imports StreamFacts
begin

text \<open>
  The control messages of a session end to end: the SETUP and the SUBSCRIBE the session sends as the
  peer reads them, the relay's control stream, and the response to a SUBSCRIBE.
\<close>

subsection \<open>Streams the session writes: lemmas\<close>

text \<open>A stream of the session is a byte sink in the sense of the codec.\<close>

interpretation stream: byte_sink "streamWrite werr" "\<lambda>w. w"
  by unfold_locales (auto simp: streamWrite_def split: option.splits)

lemma setup_codes: "SetupOptionPath = 1" "SetupOptionAuthority = 5" "SetupOptionImplementation = 7"
  by (simp_all add: SetupOptionPath_def SetupOptionAuthority_def SetupOptionImplementation_def)

lemma setupOptions_encode:
  assumes "length (urlHost u) < 2 ^ 64" and "length (setupPath u) < 2 ^ 64"
  obtains payload where "EncodeSetup \<lparr>Options = setupOptions u\<rparr> = Ok payload"
    and "DecodeSetup payload = Ok \<lparr>Options = setupOptions u\<rparr>"
proof -
  have odd: "(1 :: u64) mod 2 = 1" "(5 :: u64) mod 2 = 1" "(7 :: u64) mod 2 = 1" by code_simp+
  show ?thesis
  proof (rule EncodeSetup_odd [of "\<lparr>Options = setupOptions u\<rparr>"])
    show "sorted_wrt (<) (map optType (Options \<lparr>Options = setupOptions u\<rparr>))"
      by (simp add: setupOptions_def setup_codes Let_def)
    show "\<forall>opt\<in>set (Options \<lparr>Options = setupOptions u\<rparr>). optType opt mod 2 = 1"
      by (simp add: setupOptions_def setup_codes Let_def odd)
    show "\<forall>opt\<in>set (Options \<lparr>Options = setupOptions u\<rparr>). length (optRaw opt) < 2 ^ 64"
      using assms by (auto simp: setupOptions_def bytes_of_def Let_def)
  qed (use that in blast)
qed

lemma trackNamespace_no_error [simp]:
  "trackNamespace ns = Ok (map bytes_of (splitNamespace ns))"
  by (rule trackNamespace_Ok)

lemma EncodeSubscribe_no_panic: "EncodeSubscribe (msg\<lparr>ParametersRaw := []\<rparr>) \<noteq> Panic"
proof -
  have "encodeTrackNamespace ns \<noteq> Panic" for ns
  proof
    assume "encodeTrackNamespace ns = Panic"
    then show False
      using encodeNamespaceLoop_no_panic [of "AppendVarint [] (word_of_nat (length ns))" 0 ns]
      by (cases "encodeNamespaceLoop (AppendVarint [] (word_of_nat (length ns))) 0 ns")
        (auto simp: encodeTrackNamespace_def split: if_splits)
  qed
  then show ?thesis
    by (cases "encodeTrackNamespace (TrackNamespace msg)") (auto simp: EncodeSubscribe_def Let_def)
qed

subsection \<open>Frames on a stream: lemmas\<close>

definition framesWire :: "(u64 \<times> bytes) list \<Rightarrow> bytes" where
  "framesWire ms = concat (map (\<lambda>(ty, p). frameBytes ty p) ms)"

definition fitting :: "(u64 \<times> bytes) list \<Rightarrow> bool" where
  "fitting ms \<longleftrightarrow> (\<forall>(ty, p)\<in>set ms. length p \<le> maxFrameLen)"

lemma framesWire_simps [simp]: "framesWire [] = []" "framesWire ((ty, p) # ms) = frameBytes ty p @ framesWire ms"
  by (simp_all add: framesWire_def)

lemma fitting_simps [simp]: "fitting []" "fitting ((ty, p) # ms) \<longleftrightarrow> length p \<le> maxFrameLen \<and> fitting ms"
  by (auto simp: fitting_def)

lemma ReadFrame_chunked:
  assumes "length p \<le> maxFrameLen" and "flat rd = frameBytes ty p @ rest"
  shows "\<exists>rd'. ReadFrame rd = (Ok (ty, p), rd') \<and> flat rd' = rest \<and> fin rd' = fin rd"
  using frame.dec_chunked [where x = "(ty, p)" and r = rd] assms by auto

lemma ReadFrame_end: "flat rd = [] \<Longrightarrow> fin rd = ErrEOF \<Longrightarrow> \<exists>rd'. ReadFrame rd = (Err ErrEOF, rd')"
proof -
  assume "flat rd = []" "fin rd = ErrEOF"
  moreover have "ReadFrame (mkr [] ErrEOF) = (Err ErrEOF, mkr [] ErrEOF)"
    by (simp add: ReadFrame_def wire_simps)
  ultimately show ?thesis using insens_lift [OF insens_ReadFrame] by metis
qed

subsection \<open>The control stream: lemmas\<close>

text \<open>The part of the state a control message can change is the log and the flag.\<close>

definition rest_of :: "Runner \<Rightarrow> Runner" where
  "rest_of r = r\<lparr>rnRich := None, rnPeerSetupSeen := False\<rparr>"

lemma rest_of_richAdd [simp]: "rest_of (richAdd now ev r) = rest_of r"
  by (simp add: rest_of_def richAdd_def)

lemma rest_of_seen [simp]: "rest_of (r\<lparr>rnPeerSetupSeen := b\<rparr>) = rest_of r"
  by (simp add: rest_of_def)

lemma MsgSetup_not_GoAway [simp]: "MsgGoAway \<noteq> MsgSetup"
  by (simp add: MsgGoAway_def MsgSetup_def)

definition accepted :: "(u64 \<times> bytes) list \<Rightarrow> bool" where
  "accepted ms \<longleftrightarrow> (\<forall>(ty, p)\<in>set ms. ty = MsgSetup \<longrightarrow> (\<exists>m. DecodeSetup p = Ok m))"

lemma dispatch_accepted:
  assumes "ty = MsgSetup \<longrightarrow> (\<exists>m. DecodeSetup p = Ok m)"
  obtains r' where "dispatchControlMessage now ty p r = (None, r')" and "rest_of r' = rest_of r"
    and "rnPeerSetupSeen r' = (rnPeerSetupSeen r \<or> ty = MsgSetup)"
  using assms by (cases "ty = MsgSetup"; cases "ty = MsgGoAway") (auto simp: dispatchControlMessage_def)

lemma runs_control:
  assumes "usPC t = UCtlLoop" and "flat (usReader t) = framesWire ms" and "fin (usReader t) = ErrEOF"
    and "fitting ms" and "accepted ms"
  shows "runsTo (t, r) (\<lambda>t' r'. usPC t' = UReturn None \<and> rest_of r' = rest_of r
      \<and> rnPeerSetupSeen r' = (rnPeerSetupSeen r \<or> MsgSetup \<in> fst ` set ms))"
  using assms
proof (induction ms arbitrary: t r)
  case Nil
  then obtain rd where "ReadFrame (usReader t) = (Err ErrEOF, rd)" using ReadFrame_end by fastforce
  with Nil.prems show ?case
    by (intro runsTo_step) (simp add: uniStep_def stepCtlLoop_def runsTo_here)
next
  case (Cons m ms)
  obtain ty p where m: "m = (ty, p)" by (cases m)
  with Cons.prems obtain rd where rd: "ReadFrame (usReader t) = (Ok (ty, p), rd)"
      "flat rd = framesWire ms" "fin rd = ErrEOF"
    using ReadFrame_chunked [of p "usReader t" ty "framesWire ms"] by auto
  show ?case
  proof (rule runsTo_step)
    fix now
    from Cons.prems m have "ty = MsgSetup \<longrightarrow> (\<exists>m. DecodeSetup p = Ok m)" by (auto simp: accepted_def)
    then obtain r' where r': "dispatchControlMessage now ty p r = (None, r')" "rest_of r' = rest_of r"
      "rnPeerSetupSeen r' = (rnPeerSetupSeen r \<or> ty = MsgSetup)" by (rule dispatch_accepted)
    have "uniStep now None t r = (goto UCtlLoop rd t, r')"
      using Cons.prems(1) rd(1) r'(1) by (simp add: uniStep_def stepCtlLoop_def stepControl_def)
    moreover have "runsTo (goto UCtlLoop rd t, r') (\<lambda>t' q. usPC t' = UReturn None \<and> rest_of q = rest_of r'
      \<and> rnPeerSetupSeen q = (rnPeerSetupSeen r' \<or> MsgSetup \<in> fst ` set ms))"
      by (rule Cons.IH) (use Cons.prems m rd in \<open>auto simp: accepted_def\<close>)
    ultimately show "runsTo (uniStep now None t r) (\<lambda>t' q. usPC t' = UReturn None \<and> rest_of q = rest_of r
      \<and> rnPeerSetupSeen q = (rnPeerSetupSeen r \<or> MsgSetup \<in> fst ` set (m # ms)))"
      using m r' by (auto elim: runsTo_mono)
  qed
qed

text \<open>The stream type of a control stream is the type of its first message.\<close>

lemma control_start:
  assumes "usPC t = UStart" and "flat (usReader t) = frameBytes MsgSetup p @ rest" and "length p \<le> maxFrameLen"
  obtains t' rd where "uniStep now None t r = (t', r)" and "usPC t' = UCtlFirst MsgSetup"
    and "ReadFrameBody (usReader t') = (Ok p, rd)" and "flat rd = rest" and "fin rd = fin (usReader t)"
proof -
  obtain rd where rd: "ReadVarint (usReader t) = (Ok MsgSetup, rd)"
      "flat rd = appendUint16 [] (word_of_nat (length p)) @ p @ rest" "fin rd = fin (usReader t)"
    using varint.dec_chunked [where x = MsgSetup and r = "usReader t"] assms(2) by (auto simp: frameBytes_def)
  obtain rd' where rd': "ReadFrameBody rd = (Ok p, rd')" "flat rd' = rest" "fin rd' = fin rd"
    using insens_lift [OF insens_ReadFrameBody ReadFrameBody_append [OF assms(3)] rd(2) refl] by auto
  have ty: "MsgSetup = StreamTypeSetup" by (simp add: MsgSetup_def StreamTypeSetup_def)
  show ?thesis
    by (rule that [of "goto (UCtlFirst MsgSetup) rd t" rd'])
      (use assms(1) rd rd' ty in \<open>simp_all add: uniStep_def stepStart_def\<close>)
qed

subsection \<open>Responses: lemmas\<close>

lemma reqRun_add: "reqRun clock (m + n) x = reqRun (\<lambda>i. clock (m + i)) n (reqRun clock m x)"
proof (induction m arbitrary: clock x)
  case (Suc m)
  show ?case by (cases x) (simp add: Suc.IH)
qed simp

lemma logSubscribeRejected_simps [simp]:
  "rnStore (logSubscribeRejected now e sub r) = rnStore r"
  "rnSubs (logSubscribeRejected now e sub r) = rnSubs r"
  by (simp_all add: logSubscribeRejected_def Let_def)

text \<open>A response that is already in the channel stays the only one.\<close>

lemma sendOk_keeps:
  "m < length (rnStore r) \<Longrightarrow> okCh (rnStore r ! m) = [x] \<Longrightarrow>
   okCh (rnStore (sendOk s res r) ! m) = [x] \<and> length (rnStore (sendOk s res r)) = length (rnStore r)"
  by (cases "s = m") (simp_all add: sendOk_def trySend_def)

lemma reqStep_keeps:
  assumes "m < length (rnStore r)" and "okCh (rnStore r ! m) = [x]"
  shows "okCh (rnStore (snd (reqStep now t r)) ! m) = [x]
    \<and> length (rnStore (snd (reqStep now t r))) = length (rnStore r)"
  using assms sendOk_keeps [OF assms]
  by (auto simp: reqStep_def stepRequest_def Let_def
      split: reqPC.splits prod.splits outcome.splits)

lemma reqRun_keeps:
  assumes "m < length (rnStore r)" and "okCh (rnStore r ! m) = [x]"
  shows "okCh (rnStore (snd (reqRun clock n (t, r))) ! m) = [x]"
  using assms
proof (induction n arbitrary: clock t r)
  case (Suc n)
  obtain t' r' where s: "reqStep (clock 0) t r = (t', r')" by fastforce
  with Suc reqStep_keeps [OF Suc.prems, of "clock 0" t] show ?case by simp
qed simp

lemma reqRun_skip:
  assumes "rqPC t = RLoop" and "flat (rqReader t) = framesWire ms @ rest" and "fitting ms"
    and "\<forall>(ty, p)\<in>set ms. ty \<noteq> MsgSubscribeOK \<and> ty \<noteq> MsgRequestError"
  shows "\<exists>t'. reqRun clock (length ms) (t, r) = (t', r) \<and> rqPC t' = RLoop \<and> flat (rqReader t') = rest
    \<and> rqSub t' = rqSub t \<and> fin (rqReader t') = fin (rqReader t)"
  using assms
proof (induction ms arbitrary: t clock)
  case (Cons m ms)
  obtain ty p where m: "m = (ty, p)" by (cases m)
  with Cons.prems obtain rd where rd: "ReadFrame (rqReader t) = (Ok (ty, p), rd)"
      "flat rd = framesWire ms @ rest" "fin rd = fin (rqReader t)"
    using ReadFrame_chunked [of p "rqReader t" ty "framesWire ms @ rest"] by auto
  have "reqStep (clock 0) t r = (rgoto RLoop rd t, r)"
    using Cons.prems m rd(1) by (simp add: reqStep_def stepRequest_def)
  with Cons.IH [of "rgoto RLoop rd t" "\<lambda>i. clock (Suc i)"] Cons.prems m rd show ?case by simp
qed simp

subsection \<open>Properties\<close>

text \<open>C20: The client SETUP.  Whatever the relay URL, the options of the session's SETUP can be encoded and
  decode to the same options, with PATH present exactly when the path with its query is not the bare
  slash; the message is sent as one frame on the stream just opened unless it is longer than 65535
  bytes, and the session fails exactly when opening, that limit or the write fails.\<close>

theorem client_setup_sent:
  assumes "length (urlHost u) < 2 ^ 64" and "length (setupPath u) < 2 ^ 64"
  shows "\<exists>payload. EncodeSetup \<lparr>Options = setupOptions u\<rparr> = Ok payload
    \<and> DecodeSetup payload = Ok \<lparr>Options = setupOptions u\<rparr>
    \<and> ((\<exists>opt\<in>set (setupOptions u). optType opt = SetupOptionPath) \<longleftrightarrow> setupPath u \<noteq> ''/'')
    \<and> (let (err, r') = sendClientSetup opened werr now u r in
        (err = None \<longleftrightarrow> (\<exists>sid. opened = Inr sid) \<and> length payload \<le> 65535 \<and> werr = None)
        \<and> (err = None \<longrightarrow> (\<exists>sid. opened = Inr sid \<and> rnControlStream r' = Some sid
              \<and> rnSent r' = rnSent r @ [(sid, frameBytes MsgSetup payload)])))"
proof -
  obtain payload where p: "EncodeSetup \<lparr>Options = setupOptions u\<rparr> = Ok payload"
      "DecodeSetup payload = Ok \<lparr>Options = setupOptions u\<rparr>"
    using setupOptions_encode [OF assms] .
  have path: "(\<exists>opt\<in>set (setupOptions u). optType opt = SetupOptionPath) \<longleftrightarrow> setupPath u \<noteq> ''/''"
    by (simp add: setupOptions_def setup_codes Let_def)
  have "let (err, r') = sendClientSetup opened werr now u r in
        (err = None \<longleftrightarrow> (\<exists>sid. opened = Inr sid) \<and> length payload \<le> 65535 \<and> werr = None)
        \<and> (err = None \<longrightarrow> (\<exists>sid. opened = Inr sid \<and> rnControlStream r' = Some sid
              \<and> rnSent r' = rnSent r @ [(sid, frameBytes MsgSetup payload)]))"
  proof (cases opened)
    case (Inr sid)
    show ?thesis
    proof (cases "length payload \<le> maxFrameLen")
      case True
      then show ?thesis
        by (cases werr) (simp_all add: sendClientSetup_def Inr p(1) WriteFrame_ok streamWrite_def richAdd_def maxFrameLen_def)
    next
      case False
      then show ?thesis
        by (simp add: sendClientSetup_def Inr p(1) WriteFrame_def maxFrameLen_def)
    qed
  qed (simp add: sendClientSetup_def)
  with p path show ?thesis by blast
qed

theorem client_setup_sent_witness:
  "fst (sendClientSetup (Inr 2) None 0 (emptyURL\<lparr>urlHost := ''h'', urlPath := ''/p''\<rparr>) (exRunner roleMedia)) = None"
proof -
  let ?u = "emptyURL\<lparr>urlHost := ''h'', urlPath := ''/p''\<rparr>"
  let ?b = "[1, 2, 47, 112, 4, 1, 104, 2, 15, 109, 111, 113, 115, 117, 98, 45, 103, 111, 47, 48, 46, 49, 46, 48]"
  have "length (urlHost ?u) < 2 ^ 64" "length (setupPath ?u) < 2 ^ 64" by code_simp+
  note sent = client_setup_sent [OF this, of "Inr 2" None 0 "exRunner roleMedia"]
  have "EncodeSetup \<lparr>Options = setupOptions ?u\<rparr> = Ok ?b" by code_simp
  with sent show ?thesis by (cases "sendClientSetup (Inr 2) None 0 ?u (exRunner roleMedia)") auto
qed

text \<open>C35: From the relay on the command line to the wire.  A \<^verbatim>\<open>moqt\<close> URL names a host, an optional port, a path that
  is encoded correctly and an optional query; the host is a name or a bracketed IPv6 address.  Then the client
  dials the host with that port, or with 443 when the port is missing or empty, and the SETUP carries the path and
  the query exactly as written as PATH, unless they are the bare slash, and the host and port as AUTHORITY.
\<close>

theorem relay_reached:
  assumes "hostText name" and "CHR '':'' \<notin> set name" and "CHR ''['' \<notin> set name"
    and "hostText v6" and "CHR '':'' \<in> set v6" and "list_all isDigit port"
    and "(hp, host, addr) \<in>
       {(name, name, name @ '':443''),
        (name @ '':'' @ port, name, name @ '':'' @ (if port = [] then ''443'' else port)),
        (''['' @ v6 @ '']'', v6, ''['' @ v6 @ '']:443''),
        (''['' @ v6 @ '']:'' @ port, v6, ''['' @ v6 @ '']:'' @ (if port = [] then ''443'' else port))}"
    and "p = [] \<or> prefix ''/'' p" and "validEncoded p" and "unescape EncodePath p \<noteq> None"
    and "list_all (\<lambda>c. \<not> ctlByte c \<and> c \<noteq> CHR ''#'') q"
    and "ccRelayURI cfg = ''moqt://'' @ hp @ p @ (if q = [] then [] else ''?'' @ q)"
  shows "\<exists>u. Dial dialAddr cfg
      = (case dialAddr (dialArgs cfg addr host) of
           Ok conn \<Rightarrow> Ok (conn, u)
         | Err e \<Rightarrow> Err (Wrapf ''quic dial: %w'' [] e)
         | Panic \<Rightarrow> Panic)
    \<and> (let path = (if p = [] then ''/'' else p) @ (if q = [] then [] else ''?'' @ q) in
       setupOptions u
         = (if path = ''/'' then [] else [\<lparr>optType = SetupOptionPath, optRaw = bytes_of path\<rparr>])
           @ [\<lparr>optType = SetupOptionAuthority, optRaw = bytes_of hp\<rparr>,
              \<lparr>optType = SetupOptionImplementation, optRaw = bytes_of ''moqsub-go/0.1.0''\<rparr>])"
proof -
  note forms = host_forms [OF assms(1-7)]
  obtain u where u: "urlParse (ccRelayURI cfg) = Some u" "urlScheme u = ''moqt''" "urlHost u = hp"
      "EscapedPath u = p" "urlRawQuery u = q"
    using urlParse_relay [OF forms(1,2) assms(8-11)] unfolding assms(12) .
  have "Dial dialAddr cfg
      = obind (owrap ''quic dial: %w'' [] (dialAddr (dialArgs cfg addr host))) (\<lambda>conn. Ok (conn, u))"
    using forms(3,4) u(3) by (intro Dial_moqt [OF u(1,2)]) (simp_all only: Hostname_def Port_def)
  then have "Dial dialAddr cfg
      = (case dialAddr (dialArgs cfg addr host) of Ok conn \<Rightarrow> Ok (conn, u)
         | Err e \<Rightarrow> Err (Wrapf ''quic dial: %w'' [] e) | Panic \<Rightarrow> Panic)"
    by (cases "dialAddr (dialArgs cfg addr host)") simp_all
  then show ?thesis
    using u(3-5) by (intro exI [where x = u]) (simp add: setupOptions_def setupPath_def)
qed

theorem relay_reached_witness:
  "\<exists>u. Dial (\<lambda>a. Ok (daAddr a)) \<lparr>ccRelayURI = ''moqt://[::1]/live?t=1'', ccInsecureSkipTLS = True, ccALPN = [],
        ccHandshakeTimeout = 0\<rparr> = Ok (''[::1]:443'', u)
     \<and> \<lparr>optType = SetupOptionPath, optRaw = bytes_of ''/live?t=1''\<rparr> \<in> set (setupOptions u)"
proof -
  let ?cfg = "\<lparr>ccRelayURI = ''moqt://[::1]/live?t=1'', ccInsecureSkipTLS = True, ccALPN = [], ccHandshakeTimeout = 0\<rparr>"
  have h: "hostText ''h''" "hostText ''::1''" by code_simp+
  have p: "validEncoded ''/live''" "unescape EncodePath ''/live'' \<noteq> None"
    "list_all (\<lambda>c. \<not> ctlByte c \<and> c \<noteq> CHR ''#'') ''t=1''" by code_simp+
  show ?thesis
    using relay_reached [of "''h''" "''::1''" "[]" "''[::1]''" "''::1''" "''[::1]:443''" "''/live''" "''t=1''" ?cfg
        "\<lambda>a. Ok (daAddr a)"] h p
    by (auto simp: Let_def)
qed

text \<open>C21: A SUBSCRIBE reaches the relay as meant.  Sending succeeds exactly when the namespace has at most
  32 fields of at most 4096 bytes together, the message fits a frame, and the stream can be opened and
  written; then the request stream carries one frame of type SUBSCRIBE whose body the draft's reading
  takes apart into the subscription's request ID, the namespace fields, the track name and no
  parameters.\<close>

theorem subscribe_sent:
  fixes r :: Runner and m :: subref
  defines "sub \<equiv> rnStore r ! m" and "ns \<equiv> map bytes_of (splitNamespace (cfgNamespace (rnCfg r)))"
  assumes "m < length (rnStore r)" and "length (subTrackName sub) \<le> maxAlloc"
  shows "case sendSubscribeMessage opened werr now m r of
      (Inl e, r') \<Rightarrow> \<not> validNamespace ns \<or> (\<exists>e. opened = Inl e) \<or> werr \<noteq> None
        \<or> (\<exists>n>65535. e = Wrapf ''write subscribe: %w'' [] (Errorf ''payload too large: %d'' [FInt n]))
    | (Inr sid, r') \<Rightarrow> validNamespace ns \<and> opened = Inr sid \<and> werr = None
        \<and> subStream (rnStore r' ! m) = Some sid
        \<and> (\<exists>body. length body \<le> 65535 \<and> rnSent r' = rnSent r @ [(sid, frameBytes MsgSubscribe body)]
            \<and> readSubscribe (mkr body ErrEOF)
              = (Ok (subRequestID sub, ns, bytes_of (subTrackName sub), 0, []), mkr [] ErrEOF))"
proof -
  let ?msg = "\<lparr>RequestID = subRequestID sub, TrackNamespace = ns, TrackName = bytes_of (subTrackName sub),
    ParametersRaw = []\<rparr>"
  show ?thesis
  proof (cases "EncodeSubscribe ?msg")
    case (Ok body)
    then have v: "validNamespace ns" and body: "readSubscribe (mkr body ErrEOF)
        = (Ok (subRequestID sub, ns, bytes_of (subTrackName sub), 0, []), mkr [] ErrEOF)"
      using readSubscribe_wire [of ns "bytes_of (subTrackName sub)" "subRequestID sub" 0 "[]"] assms(4)
      by (auto simp: EncodeSubscribe_Ok bytes_of_def)
    show ?thesis
    proof (cases opened)
      case (Inr sid)
      have out: "sendSubscribeMessage opened werr now m r =
          (case WriteFrame (streamWrite werr) [] MsgSubscribe body of
             (Some e, sent) \<Rightarrow> (Inl (Wrapf ''write subscribe: %w'' [] e),
                (updSub m (\<lambda>x. x\<lparr>subStream := Some sid\<rparr>) r)\<lparr>rnSent := rnSent r @ [(sid, sent)]\<rparr>)
           | (None, sent) \<Rightarrow> (Inr sid, richAdd now (subscribeSentEvent sid sub (updSub m (\<lambda>x. x\<lparr>subStream := Some sid\<rparr>) r))
                ((updSub m (\<lambda>x. x\<lparr>subStream := Some sid\<rparr>) r)\<lparr>rnSent := rnSent r @ [(sid, sent)]\<rparr>)))"
        using Ok by (simp add: sendSubscribeMessage_def sub_def ns_def Inr Let_def
            split: prod.split option.split)
      show ?thesis
      proof (cases "length body \<le> maxFrameLen")
        case True
        show ?thesis
          unfolding out
          by (cases werr) (use True v body Inr assms(3) in \<open>auto simp: WriteFrame_ok streamWrite_def maxFrameLen_def sub_def\<close>)
      next
        case False
        then show ?thesis
          unfolding out by (auto simp: WriteFrame_def maxFrameLen_def)
      qed
    qed (use Ok in \<open>simp add: sendSubscribeMessage_def sub_def ns_def Let_def\<close>)
  next
    case (Err e)
    then have "\<not> validNamespace ns"
      using EncodeSubscribe_Ok [of ?msg] by (auto split: if_splits)
    with Err show ?thesis by (simp add: sendSubscribeMessage_def sub_def ns_def Let_def)
  next
    case Panic
    with EncodeSubscribe_no_panic [of ?msg] show ?thesis by simp
  qed
qed

theorem subscribe_sent_witness:
  "(case sendSubscribeMessage (Inr 4) None 0 0 (exRunner roleMedia) of
        (Inl e, r') \<Rightarrow> \<not> validNamespace [bytes_of ''ns'']
          \<or> (\<exists>n>65535. e = Wrapf ''write subscribe: %w'' [] (Errorf ''payload too large: %d'' [FInt n]))
      | (Inr sid, r') \<Rightarrow> sid = 4)"
proof -
  have l: "0 < length (rnStore (exRunner roleMedia))"
    "length (subTrackName (rnStore (exRunner roleMedia) ! 0)) \<le> maxAlloc"
    unfolding exStream_facts by (simp_all add: exSub_def maxAlloc_def)
  have "cfgNamespace (rnCfg (exRunner roleMedia)) = ''ns''" by (simp add: exRunner_def newRunner_def)
  with subscribe_sent [OF l, of "Inr 4" None 0] show ?thesis
    by (auto simp: splitNamespace_def goTrim_def split: prod.splits sum.splits)
qed



text \<open>C10: The response to a SUBSCRIBE.  When the first SUBSCRIBE_OK or REQUEST_ERROR on a request stream,
  after any other messages, can be decoded, then after some number of steps and ever after the channel
  the bootstrap waits on holds exactly that response, whatever the relay sends next: success, after
  the alias has been bound to the subscription, or the rejection with its code and reason.\<close>

theorem request_response:
  assumes "rqPC t = RLoop" and "rqSub t = m" and "m < length (rnStore r)" and "okCh (rnStore r ! m) = []"
    and "flat (rqReader t) = framesWire skip @ frameBytes ty p @ rest" and "fitting skip" and "length p \<le> maxFrameLen"
    and "\<forall>(ty', q)\<in>set skip. ty' \<noteq> MsgSubscribeOK \<and> ty' \<noteq> MsgRequestError"
    and "(\<exists>ok. ty = MsgSubscribeOK \<and> DecodeSubscribeOK p = Ok ok \<and> res = \<lparr>resAlias = okTrackAlias ok, resErr = None\<rparr>)
      \<or> (\<exists>e. ty = MsgRequestError \<and> DecodeRequestError p = Ok e \<and> res = \<lparr>resAlias = 0,
            resErr = Some (formatSubscribeRejectError (subNamespace (rnStore r ! m)) (subTrackName (rnStore r ! m))
                       (subRole (rnStore r ! m)) e)\<rparr>)"
  shows "\<exists>n. (resErr res = None \<longrightarrow>
        lookupDelivery (rnSubs (snd (reqRun clock n (t, r)))) (resAlias res) = (Some m, False))
    \<and> (\<forall>k. okCh (rnStore (snd (reqRun clock (n + k) (t, r))) ! m) = [res])"
proof -
  obtain t1 where t1: "reqRun clock (length skip) (t, r) = (t1, r)" "rqPC t1 = RLoop"
      "flat (rqReader t1) = frameBytes ty p @ rest" "rqSub t1 = m"
    using reqRun_skip [OF assms(1,5,6,8)] assms(2) by blast
  obtain rd where rd: "ReadFrame (rqReader t1) = (Ok (ty, p), rd)"
    using ReadFrame_chunked [OF assms(7) t1(3)] by blast
  have "\<exists>j t2 r2. reqRun (\<lambda>i. clock (length skip + i)) j (t1, r) = (t2, r2)
      \<and> m < length (rnStore r2) \<and> okCh (rnStore r2 ! m) = [res]
      \<and> (resErr res = None \<longrightarrow> lookupDelivery (rnSubs r2) (resAlias res) = (Some m, False))"
    using assms(9)
  proof (elim disjE exE conjE)
    fix ok assume "ty = MsgSubscribeOK" "DecodeSubscribeOK p = Ok ok" "res = \<lparr>resAlias = okTrackAlias ok, resErr = None\<rparr>"
    with t1 rd assms(3,4) show ?thesis
      by (intro exI [of _ 3])
        (auto simp: numeral_3_eq_3 reqStep_def stepRequest_def sendOk_def trySend_def lookupDelivery_def
          bindAlias_def Let_def)
  next
    fix e assume "ty = MsgRequestError" "DecodeRequestError p = Ok e"
      "res = \<lparr>resAlias = 0, resErr = Some (formatSubscribeRejectError (subNamespace (rnStore r ! m))
                (subTrackName (rnStore r ! m)) (subRole (rnStore r ! m)) e)\<rparr>"
    with t1 rd assms(3,4) show ?thesis
      by (intro exI [of _ 2])
        (auto simp: numeral_2_eq_2 reqStep_def stepRequest_def sendOk_def trySend_def MsgRequestError_def
          MsgSubscribeOK_def Let_def)
  qed
  then obtain j t2 r2 where j: "reqRun clock (length skip + j) (t, r) = (t2, r2)" "m < length (rnStore r2)"
      "okCh (rnStore r2 ! m) = [res]"
      "resErr res = None \<longrightarrow> lookupDelivery (rnSubs r2) (resAlias res) = (Some m, False)"
    by (auto simp: reqRun_add t1(1))
  with reqRun_keeps [OF j(2,3)] show ?thesis
    by (intro exI [of _ "length skip + j"]) (simp add: reqRun_add)
qed

theorem request_response_witness:
  "\<exists>n. \<forall>k. okCh (rnStore (snd (reqRun (\<lambda>_. 0) (n + k)
       (\<lparr>rqSub = 0, rqID = 4, rqReader = mkr (frameBytes MsgSubscribeOK [9, 0]) ErrEOF, rqPC = RLoop\<rparr>,
        exRunner roleMedia))) ! 0) = [\<lparr>resAlias = 9, resErr = None\<rparr>]"
proof -
  let ?t = "\<lparr>rqSub = 0, rqID = 4, rqReader = mkr (frameBytes MsgSubscribeOK [9, 0]) ErrEOF, rqPC = RLoop\<rparr>"
  have d: "DecodeSubscribeOK [9, 0] = Ok \<lparr>okTrackAlias = 9, okNumParams = 0, okTrackProperties = []\<rparr>"
  proof -
    have "AppendVarint [] 9 @ AppendVarint [] 0 @ [] = [9, 0]" by code_simp
    with DecodeSubscribeOK_wire [of 9 0 "[]"] show ?thesis by simp
  qed
  have "okCh (rnStore (exRunner roleMedia) ! 0) = []" "0 < length (rnStore (exRunner roleMedia))"
    unfolding exStream_facts by (simp_all add: exSub_def)
  moreover have "flat (rqReader ?t) = framesWire [] @ frameBytes MsgSubscribeOK [9, 0] @ []"
    by (simp add: mkr_def flat_def)
  ultimately show ?thesis
    using request_response [of ?t 0 "exRunner roleMedia" "[]" MsgSubscribeOK "[9, 0]" "[]"
        "\<lparr>resAlias = 9, resErr = None\<rparr>" "\<lambda>_. 0"] d by (auto simp: maxFrameLen_def)
qed

end
