(* ===== verification/SessionFacts.thy ===== *)
theory SessionFacts
  imports Session ControlFacts
begin

text \<open>
  Invariants of every reachable session, whatever the relay sends and however the goroutines
  interleave: which subscriptions exist at which place of the bootstrap, that the output begins with
  the init segment, that \<^verbatim>\<open>bytesWritten\<close> accounts for the output, and that no channel overflows.

  \<open>keeps\<close> says what every goroutine leaves alone; \<open>balance\<close> is what the output got minus what was
  counted; \<open>pcOK\<close> is what holds at each place of a stream handler.
\<close>

subsection \<open>What goroutines leave alone\<close>

definition chanOK :: "trackSubscription \<Rightarrow> bool" where
  "chanOK x \<longleftrightarrow> length (okCh x) \<le> 1 \<and> (\<forall>b. firstObjCh x = Some b \<longrightarrow> length b \<le> 1)"

definition sameSub :: "trackSubscription \<Rightarrow> trackSubscription \<Rightarrow> bool" where
  "sameSub x y \<longleftrightarrow> subRole y = subRole x \<and> subRequestID y = subRequestID x \<and> (chanOK x \<longrightarrow> chanOK y)"

definition refsOK :: "Runner \<Rightarrow> bool" where
  "refsOK r \<longleftrightarrow> (\<forall>a m. byRequest (rnSubs r) a = Some m \<or> byAlias (rnSubs r) a = Some m
     \<longrightarrow> m < length (rnStore r))"

definition keeps :: "Runner \<Rightarrow> Runner \<Rightarrow> bool" where
  "keeps r r' \<longleftrightarrow> list_all2 sameSub (rnStore r) (rnStore r')
     \<and> nextID (rnSubs r') = nextID (rnSubs r) \<and> (refsOK r \<longrightarrow> refsOK r')"

definition okBytes :: "(bytes \<times> gerr option) list \<Rightarrow> u64" where
  "okBytes ws = (\<Sum>(p, e)\<leftarrow>ws. if e = None then word_of_nat (length p) else 0)"

definition balance :: "Runner \<Rightarrow> u64" where
  "balance r = okBytes (rnWrites r) - bytesWritten (rnStats r)"

abbreviation roles :: "Runner \<Rightarrow> trackRole list" where
  "roles r \<equiv> map subRole (rnStore r)"

lemma sameSub_refl [simp]: "sameSub x x"
  by (simp add: sameSub_def)

lemma sameSub_trans: "sameSub x y \<Longrightarrow> sameSub y z \<Longrightarrow> sameSub x z"
  by (simp add: sameSub_def)

lemma keeps_refl [simp]: "keeps r r"
  by (simp add: keeps_def list.rel_refl)

lemma keeps_trans: "keeps r q \<Longrightarrow> keeps q p \<Longrightarrow> keeps r p"
proof -
  assume a: "keeps r q" and b: "keeps q p"
  have "list_all2 sameSub (rnStore r) (rnStore p)"
    using a b sameSub_trans unfolding keeps_def list_all2_conv_all_nth by (metis (no_types, lifting))
  with a b show "keeps r p" by (simp add: keeps_def)
qed

lemma keeps_same:
  "rnStore r' = rnStore r \<Longrightarrow> rnSubs r' = rnSubs r \<Longrightarrow> keeps r r'"
  by (simp add: keeps_def list.rel_refl refsOK_def)

lemma keeps_roles: "keeps r r' \<Longrightarrow> roles r' = roles r"
  by (auto simp: keeps_def sameSub_def list_eq_iff_nth_eq list_all2_conv_all_nth)

lemma keeps_length: "keeps r r' \<Longrightarrow> length (rnStore r') = length (rnStore r)"
  by (auto simp: keeps_def dest: list_all2_lengthD)

lemma keeps_ids: "keeps r r' \<Longrightarrow> map subRequestID (rnStore r') = map subRequestID (rnStore r)"
  by (auto simp: keeps_def sameSub_def list_eq_iff_nth_eq list_all2_conv_all_nth)

lemma keeps_chans:
  "keeps r r' \<Longrightarrow> \<forall>x\<in>set (rnStore r). chanOK x \<Longrightarrow> \<forall>x\<in>set (rnStore r'). chanOK x"
  by (auto simp: keeps_def sameSub_def list_all2_conv_all_nth in_set_conv_nth) (metis nth_mem)+

lemma keeps_updSub:
  assumes "sameSub (rnStore r ! m) (f (rnStore r ! m))"
  shows "keeps r (updSub m f r)"
proof (cases "m < length (rnStore r)")
  case True
  with assms show ?thesis
    by (auto simp: keeps_def refsOK_def list_all2_conv_all_nth nth_list_update)
next
  case False
  then show ?thesis by (intro keeps_same) (simp_all add: list_update_beyond)
qed

lemma balance_same: "rnWrites r' = rnWrites r \<Longrightarrow> rnStats r' = rnStats r \<Longrightarrow> balance r' = balance r"
  by (simp add: balance_def)

lemma sendFirst_keeps: "keeps r (sendFirst m p r)"
  unfolding sendFirst_def by (rule keeps_updSub) (auto simp: sameSub_def chanOK_def trySend_def)

lemma sendOk_keeps_all: "keeps r (sendOk m res r)"
  unfolding sendOk_def by (rule keeps_updSub) (auto simp: sameSub_def chanOK_def trySend_def)

lemma gotFirst_keeps: "keeps r (updSub m (\<lambda>x. x\<lparr>gotFirst := b\<rparr>) r)"
  by (rule keeps_updSub) (simp add: sameSub_def chanOK_def)

subsection \<open>Stream handlers\<close>

fun pcOK :: "trackRole list \<Rightarrow> uniPC \<Rightarrow> bool" where
  "pcOK rs (UNext h sub s) = (\<forall>m. sub = Some m \<longrightarrow> m < length rs)"
| "pcOK rs (UDeliver h m s ob) = (m < length rs \<and> \<not> IsStatusObject ob)"
| "pcOK rs (USetFirst h m s ob) = (m < length rs \<and> rs ! m \<in> {roleCatalog, roleInit} \<and> \<not> IsStatusObject ob)"
| "pcOK rs (USendFirst h m s ob) = (m < length rs \<and> rs ! m \<in> {roleCatalog, roleInit} \<and> \<not> IsStatusObject ob)"
| "pcOK rs (UWrite h m s ob) = (m < length rs \<and> rs ! m = roleMedia \<and> \<not> IsStatusObject ob)"
| "pcOK rs (UCount h m s ob) = (m < length rs \<and> rs ! m = roleMedia \<and> \<not> IsStatusObject ob)"
| "pcOK rs _ = True"

lemma pcOK_append: "pcOK rs pc \<Longrightarrow> pcOK (rs @ rs') pc"
  by (cases "(rs, pc)" rule: pcOK.cases) (auto simp: nth_append)

text \<open>Bytes a handler has written and not yet counted.\<close>

fun uncounted :: "uniPC \<Rightarrow> u64" where
  "uncounted (UCount h m s ob) = word_of_nat (length (Payload ob))"
| "uncounted _ = 0"

definition handlerOK :: "Runner \<Rightarrow> uniPC \<Rightarrow> Runner \<Rightarrow> uniPC \<Rightarrow> bool" where
  "handlerOK r pc r' pc' \<longleftrightarrow> keeps r r' \<and> pcOK (roles r) pc' \<and> rnCfg r' = rnCfg r
     \<and> balance r' - uncounted pc' = balance r - uncounted pc"

lemma handlerOK_quiet:
  "rnStore r' = rnStore r \<Longrightarrow> rnSubs r' = rnSubs r \<Longrightarrow> rnWrites r' = rnWrites r \<Longrightarrow> rnCfg r' = rnCfg r \<Longrightarrow>
   bytesWritten (rnStats r') = bytesWritten (rnStats r) \<Longrightarrow> pcOK (roles r) pc' \<Longrightarrow>
   uncounted pc = 0 \<Longrightarrow> uncounted pc' = 0 \<Longrightarrow> handlerOK r pc r' pc'"
  by (simp add: handlerOK_def keeps_same balance_def)

lemma countObject_quiet [simp]:
  "bytesWritten (rnStats (countObject ob r)) = bytesWritten (rnStats r)" "rnCfg (countObject ob r) = rnCfg r"
  by (simp_all add: countObject_def Let_def)

lemma recordFirstObject_quiet [simp]:
  "bytesWritten (rnStats (recordFirstObject now r)) = bytesWritten (rnStats r)"
  "rnCfg (recordFirstObject now r) = rnCfg r"
  by (simp_all add: recordFirstObject_def)

lemma dispatch_quiet:
  assumes "dispatchControlMessage now ty p r = (e, r')"
  shows "rnStore r' = rnStore r" "rnSubs r' = rnSubs r" "rnWrites r' = rnWrites r" "rnCfg r' = rnCfg r"
    "rnStats r' = rnStats r"
  using assms by (auto simp: dispatchControlMessage_def split: if_splits outcome.splits)

lemma beginSubgroup_quiet:
  assumes "beginSubgroup now sid h r = (sub, r')"
  shows "rnStore r' = rnStore r" "rnSubs r' = rnSubs r" "rnWrites r' = rnWrites r" "rnCfg r' = rnCfg r"
    "bytesWritten (rnStats r') = bytesWritten (rnStats r)" "refsOK r \<Longrightarrow> sub = Some m \<Longrightarrow> m < length (rnStore r)"
  using assms
  by (auto simp: beginSubgroup_def lookupDelivery_def refsOK_def Let_def split: prod.splits option.splits)

lemma okBytes_snoc [simp]:
  "okBytes (ws @ [(p, e)]) = okBytes ws + (if e = None then word_of_nat (length p) else 0)"
  by (simp add: okBytes_def)

lemma handler_control: "handlerOK r (UCtlLoop) (snd (stepControl now ty p rd t r)) (usPC (fst (stepControl now ty p rd t r)))"
proof (cases "dispatchControlMessage now ty p r")
  case (Pair e r')
  note q = dispatch_quiet [OF Pair]
  show ?thesis
    by (cases e) (auto simp: stepControl_def Pair q intro!: handlerOK_quiet)
qed

lemma handler_delivered:
  assumes "m < length (rnStore r)" and "keeps r0 r" and "rnCfg r = rnCfg r0"
    and "balance r = balance r0 - uncounted pc"
  shows "handlerOK r0 pc (snd (stepDelivered now h m s ob t r)) (usPC (fst (stepDelivered now h m s ob t r)))"
  using assms keeps_trans [OF assms(2) keeps_same [of "logObject now (usID t) m h ob r" r]]
    keeps_length [OF assms(2)]
  by (simp add: stepDelivered_def handlerOK_def balance_def)

lemma uniStep_OK:
  assumes "uniStep now werr t r = (t', r')" and "pcOK (roles r) (usPC t)" and "refsOK r"
    and active: "uniActive (usPC t)"
  shows "handlerOK r (usPC t) r' (usPC t')"
proof -
  note quiet = handlerOK_quiet
  show ?thesis
  proof (cases "usPC t")
    case UStart
    with assms(1) show ?thesis
      by (auto simp: uniStep_def stepStart_def split: prod.splits outcome.splits intro!: quiet)
  next
    case (UCtlFirst ty)
    with assms(1) show ?thesis
      using handler_control [of r now ty _ _ t]
      by (auto simp: uniStep_def stepCtlFirst_def handlerOK_def split: prod.splits outcome.splits)
        (metis fst_conv snd_conv)+
  next
    case UCtlLoop
    with assms(1) show ?thesis
      using handler_control [of r now _ _ _ t]
      by (auto simp: uniStep_def stepCtlLoop_def handlerOK_def split: prod.splits outcome.splits)
        (metis fst_conv snd_conv)+
  next
    case (UHeader ty)
    with assms(1,3) show ?thesis
      by (auto simp: uniStep_def stepHeader_def split: prod.splits outcome.splits
          intro!: quiet dest: beginSubgroup_quiet)
  next
    case (UNext h sub s)
    with assms(1,2) show ?thesis
      by (auto simp: uniStep_def stepNext_def split: prod.splits outcome.splits option.splits if_splits
          intro!: quiet)
  next
    case (UDeliver h m s ob)
    with assms(1,2) show ?thesis
      using handler_delivered [of m r r "UDeliver h m s ob" now h s ob t]
      by (auto simp: uniStep_def stepDeliver_def split: trackRole.splits if_splits intro!: quiet)
  next
    case (USetFirst h m s ob)
    with assms(1,2) show ?thesis
      by (auto simp: uniStep_def handlerOK_def gotFirst_keeps balance_def)
  next
    case (USendFirst h m s ob)
    with assms(1,2) show ?thesis
      using handler_delivered [of m "sendFirst m (Payload ob) r" r "USendFirst h m s ob" now h s ob t]
        sendFirst_keeps [of r m "Payload ob"]
      by (auto simp: uniStep_def sendFirst_def balance_def)
  next
    case (UWrite h m s ob)
    with assms(1,2) show ?thesis
      by (auto simp: uniStep_def writePayload_def handlerOK_def keeps_same balance_def split: option.splits)
  next
    case (UCount h m s ob)
    with assms(1,2) show ?thesis
      using handler_delivered [of m "countBytes (Payload ob) r" r "UCount h m s ob" now h s ob t]
      by (auto simp: uniStep_def keeps_same balance_def countBytes_def)
  qed (use active in \<open>simp_all add: uniActive_def\<close>)
qed

lemma uniStep_writes:
  assumes "uniStep now werr t r = (t', r')"
  shows "rnWrites r' = rnWrites r
    \<or> (\<exists>h m s ob. usPC t = UWrite h m s ob \<and> rnWrites r' = rnWrites r @ [(Payload ob, werr)])"
  using assms dispatch_quiet(3) beginSubgroup_quiet(3)
  by (cases "usPC t")
    (auto simp: uniStep_def stepStart_def stepCtlFirst_def stepCtlLoop_def stepControl_def stepHeader_def
      stepNext_def stepDeliver_def stepDelivered_def writePayload_def sendFirst_def
      split: prod.splits outcome.splits option.splits if_splits trackRole.splits)

subsection \<open>Request streams\<close>

lemma reqStep_OK:
  assumes "reqStep now t r = (t', r')" and "rqSub t < length (rnStore r)"
  shows "keeps r r' \<and> rqSub t' = rqSub t \<and> rnWrites r' = rnWrites r \<and> rnStats r' = rnStats r \<and> rnCfg r' = rnCfg r"
proof -
  have bind: "keeps r (r\<lparr>rnSubs := bindAlias (rnSubs r) (rqSub t) a\<rparr>)" for a
    using assms(2) by (auto simp: keeps_def list.rel_refl bindAlias_def refsOK_def)
  have send: "keeps r (sendOk m res r)" "rnWrites (sendOk m res r) = rnWrites r"
    "rnStats (sendOk m res r) = rnStats r" "rnCfg (sendOk m res r) = rnCfg r" for m res
    using sendOk_keeps_all by (simp_all add: sendOk_def)
  have rej: "keeps r (logSubscribeRejected now e sub r)" "rnWrites (logSubscribeRejected now e sub r) = rnWrites r"
    "rnStats (logSubscribeRejected now e sub r) = rnStats r" "rnCfg (logSubscribeRejected now e sub r) = rnCfg r" for e sub
    by (intro keeps_same) (simp_all add: logSubscribeRejected_def Let_def)
  show ?thesis
    using assms(1) bind send rej keeps_same [of "richAdd now ev r" r for ev]
    by (cases "rqPC t")
      (auto simp: reqStep_def stepRequest_def Let_def split: prod.splits outcome.splits if_splits)
qed

subsection \<open>The main goroutine\<close>

definition allRoles :: "trackRole list" where
  "allRoles = [roleCatalog, roleInit, roleMedia]"

fun phaseIndex :: "phase \<Rightarrow> nat" where
  "phaseIndex PhCatalog = 0"
| "phaseIndex (PhInit i m) = 1"
| "phaseIndex (PhMedia m) = 2"

text \<open>How many subscriptions exist at each place of the bootstrap.\<close>

fun subsAt :: "mainPC \<Rightarrow> nat" where
  "subsAt (MNew ph) = phaseIndex ph"
| "subsAt (MSend ph s) = Suc (phaseIndex ph)"
| "subsAt (MWaitOK ph s) = Suc (phaseIndex ph)"
| "subsAt (MWaitObj ph s) = Suc (phaseIndex ph)"
| "subsAt (MWriteInit p i m) = 2"
| "subsAt (MCountInit p i m) = 2"
| "subsAt MLoop = 3"
| "subsAt _ = 0"

fun isReturn :: "mainPC \<Rightarrow> bool" where
  "isReturn (MReturn e) = True"
| "isReturn _ = False"

fun refAt :: "mainPC \<Rightarrow> bool" where
  "refAt (MSend ph s) = (s = phaseIndex ph)"
| "refAt (MWaitOK ph s) = (s = phaseIndex ph)"
| "refAt (MWaitObj ph s) = (s = phaseIndex ph \<and> phaseIndex ph < 2)"
| "refAt _ = True"

text \<open>What the output holds before the media track is subscribed to.\<close>

fun earlyWrites :: "mainPC \<Rightarrow> (bytes \<times> gerr option) list \<Rightarrow> bool" where
  "earlyWrites (MCountInit p i m) ws = (ws = [(p, None)])"
| "earlyWrites (MNew (PhMedia m)) ws = (\<exists>p. ws = [(p, None)])"
| "earlyWrites (MReturn e) ws = (e \<noteq> None \<and> length ws \<le> 1)"
| "earlyWrites _ ws = (ws = [])"

definition initFirst :: "(bytes \<times> gerr option) list \<Rightarrow> bool" where
  "initFirst ws \<longleftrightarrow> (\<exists>p ps. ws = (p, None) # ps)"

definition mainOK :: "mainPC \<Rightarrow> Runner \<Rightarrow> bool" where
  "mainOK pc r \<longleftrightarrow>
     (\<exists>n\<le>3. roles r = take n allRoles \<and> (isReturn pc \<or> n = subsAt pc)
        \<and> (if n = 3 then initFirst (rnWrites r) else earlyWrites pc (rnWrites r)))
     \<and> refAt pc"

definition idsOK :: "Runner \<Rightarrow> bool" where
  "idsOK r \<longleftrightarrow> map subRequestID (rnStore r) = map (\<lambda>k. word_of_nat (2 * k)) [0..<length (rnStore r)]
     \<and> nextID (rnSubs r) = word_of_nat (2 * length (rnStore r))"

fun uncountedMain :: "mainPC \<Rightarrow> u64" where
  "uncountedMain (MCountInit p i m) = word_of_nat (length p)"
| "uncountedMain _ = 0"

lemma idsOK_keeps: "keeps r r' \<Longrightarrow> idsOK r \<Longrightarrow> idsOK r'"
  using keeps_ids [of r r'] keeps_length [of r r'] by (simp add: idsOK_def keeps_def)

lemma sendClientSetup_quiet:
  assumes "sendClientSetup opened werr now u r = (e, r')"
  shows "rnStore r' = rnStore r" "rnSubs r' = rnSubs r" "rnWrites r' = rnWrites r" "rnStats r' = rnStats r"
    "rnCfg r' = rnCfg r"
  using assms
  by (auto simp: sendClientSetup_def Let_def split: sum.splits outcome.splits prod.splits option.splits)

lemma sendSubscribe_quiet:
  assumes "sendSubscribeMessage opened werr now s r = (x, r')"
  shows "keeps r r'" "rnWrites r' = rnWrites r" "rnStats r' = rnStats r" "rnCfg r' = rnCfg r"
proof -
  have k: "keeps r (updSub s (\<lambda>x. x\<lparr>subStream := Some sid\<rparr>) r)" for sid
    by (rule keeps_updSub) (simp add: sameSub_def chanOK_def)
  have kk: "keeps r q" if "rnStore q = rnStore (updSub s (\<lambda>x. x\<lparr>subStream := Some sid\<rparr>) r)" "rnSubs q = rnSubs r" for q sid
    using keeps_trans [OF k keeps_same [of q "updSub s (\<lambda>x. x\<lparr>subStream := Some sid\<rparr>) r"]] that by simp
  show "keeps r r'" "rnWrites r' = rnWrites r" "rnStats r' = rnStats r" "rnCfg r' = rnCfg r"
    using assms kk
    by (auto simp: sendSubscribeMessage_def Let_def
        split: sum.splits outcome.splits prod.splits option.splits)
qed

lemma waitSubscribeOK_quiet:
  assumes "waitSubscribeOK k s r = Some (x, r')"
  shows "keeps r r'" "rnWrites r' = rnWrites r" "rnStats r' = rnStats r"
proof -
  have "keeps r (updSub s (\<lambda>x. x\<lparr>okCh := buf\<rparr>) r)" if "okCh (rnStore r ! s) = res # buf" for res buf
    by (rule keeps_updSub) (simp add: sameSub_def chanOK_def that)
  with assms show "keeps r r'" "rnWrites r' = rnWrites r" "rnStats r' = rnStats r"
    by (auto simp: waitSubscribeOK_def split: wake.splits list.splits)
qed

lemma waitFirstObject_quiet:
  assumes "waitFirstObject k s r = Some (x, r')"
  shows "keeps r r'" "rnWrites r' = rnWrites r" "rnStats r' = rnStats r"
proof -
  have "keeps r (updSub s (\<lambda>x. x\<lparr>firstObjCh := Some buf\<rparr>) r)"
    if "firstObjCh (rnStore r ! s) = Some (res # buf)" for res buf
    by (rule keeps_updSub) (simp add: sameSub_def chanOK_def that)
  with assms show "keeps r r'" "rnWrites r' = rnWrites r" "rnStats r' = rnStats r"
    by (auto simp: waitFirstObject_def split: wake.splits list.splits option.splits)
qed

lemma afterObject_quiet:
  assumes "afterObject w ph p r = Some (pc, r')"
  shows "rnStore r' = rnStore r" "rnSubs r' = rnSubs r" "rnWrites r' = rnWrites r" "rnStats r' = rnStats r"
    and "phaseIndex ph < 2 \<Longrightarrow> isReturn pc \<or> (subsAt pc = Suc (phaseIndex ph) \<and> earlyWrites pc [])"
    and "refAt pc" and "uncountedMain pc = 0" and "isReturn pc \<Longrightarrow> earlyWrites pc []"
  using assms
  by (auto simp: afterObject_def Let_def split: phase.splits outcome.splits)

lemma loopError_quiet:
  assumes "loopError e r = (pc, r')"
  shows "rnStore r' = rnStore r" "rnSubs r' = rnSubs r" "rnWrites r' = rnWrites r"
    "bytesWritten (rnStats r') = bytesWritten (rnStats r)" "pc = MLoop \<or> isReturn pc" "uncountedMain pc = 0"
    "refAt pc"
  using assms by (auto simp: loopError_def split: if_splits)

lemma waitOKPC_facts:
  "uncountedMain (waitOKPC ph s res) = 0"
  "isReturn (waitOKPC ph s res) \<or> subsAt (waitOKPC ph s res) = Suc (phaseIndex ph)"
  "s = phaseIndex ph \<Longrightarrow> refAt (waitOKPC ph s res)" "earlyWrites (waitOKPC ph s res) []"
  by (auto simp: waitOKPC_def split: option.splits phase.splits)

lemma countBytes_keeps:
  "keeps r (richAdd now ev (countBytes p r))"
  "balance (richAdd now ev (countBytes p r)) = balance r - word_of_nat (length p)"
  by (auto intro: keeps_same simp: balance_def countBytes_def)

lemma mainStep_kept:
  assumes "mainStep w k pc r = Some (pc', r', q)" and "\<forall>ph. pc \<noteq> MNew ph"
  shows "keeps r r' \<and> balance r' - uncountedMain pc' = balance r - uncountedMain pc
    \<and> (\<forall>x. q = Some x \<longrightarrow> (\<exists>ph. pc = MSend ph (rqSub x)))"
proof (cases pc)
  case (MWaitOK ph s)
  with assms(1) obtain res where res: "waitSubscribeOK k s r = Some (res, r')" "pc' = waitOKPC ph s res" "q = None"
    by (auto simp: mainStep_defs split: option.splits)
  with MWaitOK waitSubscribeOK_quiet [OF res(1)] show ?thesis by (simp add: waitOKPC_facts balance_def)
next
  case (MWaitObj ph s)
  with assms(1) obtain x r1 where x: "waitFirstObject k s r = Some (x, r1)"
    by (auto simp: mainStep_defs split: option.splits)
  note k = waitFirstObject_quiet [OF x]
  show ?thesis
  proof (cases x)
    case (Inl e)
    with assms(1) MWaitObj x k show ?thesis by (auto simp: mainStep_defs balance_def)
  next
    case (Inr p)
    with assms(1) MWaitObj x obtain pc1 r2 where a: "afterObject w ph p r1 = Some (pc1, r2)"
      by (auto simp: mainStep_defs split: option.splits)
    from assms(1) MWaitObj x Inr a have "pc' = pc1" "r' = r2" "q = None" by (auto simp: mainStep_defs)
    with MWaitObj k afterObject_quiet(1-4,7) [OF a] keeps_trans [OF k(1) keeps_same [of r2 r1]] show ?thesis
      by (simp add: balance_def)
  qed
next
  case MLoop
  show ?thesis
  proof (cases k)
    case (WakeErr e)
    obtain pc1 r1 where l: "loopError e r = (pc1, r1)" by fastforce
    with assms(1) MLoop WakeErr have "pc' = pc1" "r' = r1" "q = None" by (simp_all add: mainStep_defs)
    with MLoop loopError_quiet [OF l] show ?thesis by (simp add: balance_def keeps_same)
  qed (use assms(1) MLoop in \<open>auto simp: mainStep_defs\<close>)
next
  case (MSetup u)
  obtain e r1 where e: "sendClientSetup (wOpened w) (wWerr w) (wNow w) u r = (e, r1)" by fastforce
  with assms(1) MSetup have "r' = r1" "q = None" "uncountedMain pc' = 0"
    by (auto simp: mainStep_defs split: option.splits)
  with MSetup sendClientSetup_quiet [OF e] show ?thesis by (simp add: balance_def keeps_same)
next
  case (MSend ph s)
  obtain x r1 where x: "sendSubscribeMessage (wOpened w) (wWerr w) (wNow w) s r = (x, r1)" by fastforce
  with assms(1) MSend have "r' = r1" "uncountedMain pc' = 0" "\<forall>y. q = Some y \<longrightarrow> rqSub y = s"
    by (auto simp: mainStep_defs split: sum.splits)
  with MSend sendSubscribe_quiet [OF x] show ?thesis by (simp add: balance_def)
next
  case (MWriteInit p i m)
  with assms(1) show ?thesis
    by (auto simp: mainStep_defs writePayload_def balance_def split: option.splits intro!: keeps_same)
next
  case (MCountInit p i m)
  with assms(1) show ?thesis by (auto simp: mainStep_defs countBytes_keeps)
next
  case MDial
  with assms(1) show ?thesis
    by (auto simp: mainStep_defs balance_def split: outcome.splits prod.splits intro!: keeps_same)
next
  case (MSink u)
  with assms(1) show ?thesis by (auto simp: mainStep_defs split: outcome.splits)
next
  case MWaitPeer
  with assms(1) show ?thesis by (auto simp: mainStep_defs split: wake.splits if_splits)
next
  case (MReturn e)
  with assms(1) show ?thesis by (simp add: mainStep_defs)
qed (use assms(2) in simp)

text \<open>The bootstrap only moves to the places that its subscriptions and its writes allow.\<close>

lemma take_allRoles_inj: "n \<le> 3 \<Longrightarrow> m \<le> 3 \<Longrightarrow> take n allRoles = take m allRoles \<longleftrightarrow> n = m"
  by (metis allRoles_def length_take length_Cons list.size(3) min.absorb2 numeral_3_eq_3)

lemma mainOK_I:
  "roles r = take n allRoles \<Longrightarrow> n \<le> 3 \<Longrightarrow> isReturn pc \<or> n = subsAt pc \<Longrightarrow> refAt pc \<Longrightarrow>
   (n = 3 \<Longrightarrow> initFirst (rnWrites r)) \<Longrightarrow> (n \<noteq> 3 \<Longrightarrow> earlyWrites pc (rnWrites r)) \<Longrightarrow> mainOK pc r"
  unfolding mainOK_def by (rule conjI, rule exI [of _ n]) simp_all

lemma mainStep_moves:
  assumes "mainStep w k pc r = Some (pc', r', q)" and "\<forall>ph. pc \<noteq> MNew ph" and "mainOK pc r"
  shows "mainOK pc' r'"
proof -
  from assms(3) obtain n where n: "n \<le> 3" "roles r = take n allRoles" "isReturn pc \<or> n = subsAt pc"
      "n = 3 \<Longrightarrow> initFirst (rnWrites r)" "n \<noteq> 3 \<Longrightarrow> earlyWrites pc (rnWrites r)" and ref: "refAt pc"
    unfolding mainOK_def by auto
  have "keeps r r'" using mainStep_kept [OF assms(1,2)] by blast
  with n(2) have roles: "roles r' = take n allRoles" by (simp add: keeps_roles)
  note go = mainOK_I [OF roles n(1)]
  show ?thesis
  proof (cases pc)
    case (MWaitOK ph s)
    with assms(1) obtain res where res: "waitSubscribeOK k s r = Some (res, r')" "pc' = waitOKPC ph s res"
      by (auto simp: mainStep_defs split: option.splits)
    with n ref MWaitOK waitSubscribeOK_quiet(2) [OF res(1)] waitOKPC_facts [where ph = ph and s = s and res = res]
    show ?thesis by (intro go) auto
  next
    case (MWaitObj ph s)
    with assms(1) obtain x r1 where x: "waitFirstObject k s r = Some (x, r1)"
      by (auto simp: mainStep_defs split: option.splits)
    have early: "rnWrites r = []" "n < 3" using n ref MWaitObj by auto
    show ?thesis
    proof (cases x)
      case (Inl e)
      with assms(1) MWaitObj x early waitFirstObject_quiet(2) [OF x] show ?thesis
        by (intro go) (auto simp: mainStep_defs)
    next
      case (Inr p)
      with assms(1) MWaitObj x obtain pc1 r2 where a: "afterObject w ph p r1 = Some (pc1, r2)"
        by (auto simp: mainStep_defs split: option.splits)
      from assms(1) MWaitObj x Inr a have "pc' = pc1" "r' = r2" by (auto simp: mainStep_defs)
      with n ref MWaitObj early waitFirstObject_quiet(2) [OF x] afterObject_quiet [OF a] show ?thesis
        by (intro go) auto
    qed
  next
    case MLoop
    with assms(1) n show ?thesis
      by (intro go) (auto simp: mainStep_defs Let_def split: wake.splits prod.splits
          dest: loopError_quiet(3,5,7))
  next
    case (MSetup u)
    with assms(1) n show ?thesis
      using sendClientSetup_quiet(3)
      by (intro go) (auto simp: mainStep_defs split: prod.splits option.splits)
  next
    case (MSend ph s)
    with assms(1) n ref show ?thesis
      using sendSubscribe_quiet(2)
      by (intro go; cases ph) (auto simp: mainStep_defs split: prod.splits sum.splits)
  next
    case (MWriteInit p i m)
    with assms(1) n show ?thesis
      by (intro go) (auto simp: mainStep_defs writePayload_def split: option.splits)
  next
    case (MCountInit p i m)
    with assms(1) n show ?thesis by (intro go) (auto simp: mainStep_defs)
  next
    case MDial
    with assms(1) n show ?thesis
      by (intro go) (auto simp: mainStep_defs split: outcome.splits prod.splits)
  next
    case (MSink u)
    with assms(1) n show ?thesis
      by (intro go) (auto simp: mainStep_defs split: outcome.splits)
  next
    case MWaitPeer
    with assms(1) n show ?thesis
      by (intro go) (auto simp: mainStep_defs split: wake.splits if_splits)
  next
    case (MReturn e)
    with assms(1) show ?thesis by (simp add: mainStep_defs)
  qed (use assms(2) in simp)
qed

lemma newTrackSubscription_OK:
  assumes "newTrackSubscription track role r = (s, r')" and "refsOK r" and "idsOK r"
    and "\<forall>x\<in>set (rnStore r). chanOK x"
  shows "s = length (rnStore r)" "roles r' = roles r @ [role]" "refsOK r'" "idsOK r'"
    "\<forall>x\<in>set (rnStore r'). chanOK x" "rnWrites r' = rnWrites r" "rnStats r' = rnStats r"
  using assms
  by (auto simp: newTrackSubscription_def allocRequestID_def register_def refsOK_def idsOK_def chanOK_def
      Let_def split: if_splits) (force intro: less_SucI)+

end
