(* ===== verification/SessionInv.thy ===== *)
theory SessionInv
  imports SessionFacts
begin

text \<open>
  The invariant of a session, kept by every step, and the theorems about reachable sessions.
\<close>

subsection \<open>The invariant\<close>

definition storeOK :: "Runner \<Rightarrow> bool" where
  "storeOK r \<longleftrightarrow> refsOK r \<and> idsOK r \<and> (\<forall>x\<in>set (rnStore r). chanOK x)"

definition pendingBytes :: "session \<Rightarrow> u64" where
  "pendingBytes s = uncountedMain (ssMain s) + (\<Sum>t\<leftarrow>ssUni s. uncounted (usPC t))"

definition sessionOK :: "session \<Rightarrow> bool" where
  "sessionOK s \<longleftrightarrow> storeOK (ssRunner s) \<and> mainOK (ssMain s) (ssRunner s)
     \<and> (\<forall>t\<in>set (ssUni s). pcOK (roles (ssRunner s)) (usPC t))
     \<and> (\<forall>q\<in>set (ssReq s). rqSub q < length (rnStore (ssRunner s)))
     \<and> length (ssErrCh s) \<le> 8 \<and> balance (ssRunner s) = pendingBytes s"

lemma sessionOK_D:
  assumes "sessionOK s"
  shows "storeOK (ssRunner s)" "mainOK (ssMain s) (ssRunner s)"
    "t \<in> set (ssUni s) \<Longrightarrow> pcOK (roles (ssRunner s)) (usPC t)"
    "q \<in> set (ssReq s) \<Longrightarrow> rqSub q < length (rnStore (ssRunner s))"
    "length (ssErrCh s) \<le> 8" "balance (ssRunner s) = pendingBytes s"
  using assms by (simp_all add: sessionOK_def)

lemma sessionOK_I:
  assumes "storeOK (ssRunner s)" and "mainOK (ssMain s) (ssRunner s)"
    and "\<And>t. t \<in> set (ssUni s) \<Longrightarrow> pcOK (roles (ssRunner s)) (usPC t)"
    and "\<And>q. q \<in> set (ssReq s) \<Longrightarrow> rqSub q < length (rnStore (ssRunner s))"
    and "length (ssErrCh s) \<le> 8" and "balance (ssRunner s) = pendingBytes s"
  shows "sessionOK s"
  using assms by (simp add: sessionOK_def)

lemma in_update: "x \<in> set (xs[i := y]) \<Longrightarrow> x = y \<or> x \<in> set xs"
  using set_update_subset_insert [of xs i y] by auto

lemma sessionOK_start: "sessionOK (startSession cfg created now)"
  by (simp add: sessionOK_def startSession_def newRunner_def storeOK_def refsOK_def idsOK_def Let_def
      newSubscriptionRegistry_def mainOK_def balance_def okBytes_def pendingBytes_def)

lemma storeOK_keeps: "keeps r r' \<Longrightarrow> storeOK r \<Longrightarrow> storeOK r'"
  using keeps_chans idsOK_keeps by (auto simp: storeOK_def keeps_def)

text \<open>A goroutine other than the main one only appends media to an output that has its init segment.\<close>

lemma mainOK_keeps:
  assumes "mainOK pc r" and "keeps r r'"
    and "rnWrites r' = rnWrites r \<or> (roleMedia \<in> set (roles r) \<and> (\<exists>x. rnWrites r' = rnWrites r @ [x]))"
  shows "mainOK pc r'"
proof -
  from assms(1) obtain n where n: "n \<le> 3" "roles r = take n allRoles" "isReturn pc \<or> n = subsAt pc"
      "n = 3 \<Longrightarrow> initFirst (rnWrites r)" "n \<noteq> 3 \<Longrightarrow> earlyWrites pc (rnWrites r)" and ref: "refAt pc"
    unfolding mainOK_def by auto
  have "n = 3" if "roleMedia \<in> set (roles r)"
  proof (rule ccontr)
    assume "n \<noteq> 3"
    with n(1) have "n = 0 \<or> n = 1 \<or> n = 2" by linarith
    with n(2) that show False by (auto simp: allRoles_def)
  qed
  note media = this
  show ?thesis
  proof (rule mainOK_I [OF _ n(1,3) ref])
    show "roles r' = take n allRoles" using keeps_roles [OF assms(2)] n(2) by simp
    show "initFirst (rnWrites r')" if "n = 3"
      using n(4) [OF that] assms(3) by (elim disjE conjE exE) (auto simp: initFirst_def)
    show "earlyWrites pc (rnWrites r')" if "n \<noteq> 3"
      using n(5) [OF that] assms(3) media that by (elim disjE conjE exE) simp_all
  qed
qed

lemma mainOK_media:
  assumes "mainOK pc r" and "m < length (roles r)" and "roles r ! m = roleMedia"
  shows "initFirst (rnWrites r)"
proof -
  from assms(1) obtain n where n: "n \<le> 3" "roles r = take n allRoles"
      "n = 3 \<Longrightarrow> initFirst (rnWrites r)"
    unfolding mainOK_def by auto
  have "n = 3"
  proof (rule ccontr)
    assume "n \<noteq> 3"
    with n(1) have "n = 0 \<or> n = 1 \<or> n = 2" by linarith
    then have "roleMedia \<notin> set (roles r)" by (auto simp: n(2) allRoles_def)
    moreover have "roleMedia \<in> set (roles r)" using assms(2,3) by (metis nth_mem)
    ultimately show False by contradiction
  qed
  with n(3) show ?thesis .
qed

lemma sum_list_update:
  fixes f :: "'a \<Rightarrow> 'b::ab_group_add"
  shows "i < length xs \<Longrightarrow> (\<Sum>x\<leftarrow>xs[i := y]. f x) = (\<Sum>x\<leftarrow>xs. f x) + (f y - f (xs ! i))"
proof (induction xs arbitrary: i)
  case (Cons a xs)
  then show ?case by (cases i) (auto simp: algebra_simps)
qed simp

lemma step_uni_OK:
  assumes ok: "sessionOK s" and i: "i < length (ssUni s)" "uniActive (usPC (ssUni s ! i))"
    and st: "uniStep now werr (ssUni s ! i) (ssRunner s) = (t, r)"
  shows "sessionOK (s\<lparr>ssUni := (ssUni s)[i := t], ssRunner := r\<rparr>)"
proof -
  have pc: "pcOK (roles (ssRunner s)) (usPC (ssUni s ! i))" using sessionOK_D(3) [OF ok] i(1) by simp
  have refs: "refsOK (ssRunner s)" using sessionOK_D(1) [OF ok] by (simp add: storeOK_def)
  from uniStep_OK [OF st pc refs i(2)] have h: "keeps (ssRunner s) r" "pcOK (roles (ssRunner s)) (usPC t)"
      "balance r - uncounted (usPC t) = balance (ssRunner s) - uncounted (usPC (ssUni s ! i))"
    by (auto simp: handlerOK_def)
  have "rnWrites r = rnWrites (ssRunner s) \<or>
      (roleMedia \<in> set (roles (ssRunner s)) \<and> (\<exists>x. rnWrites r = rnWrites (ssRunner s) @ [x]))"
    using uniStep_writes [OF st]
  proof (elim disjE exE conjE)
    fix h m sr ob assume "usPC (ssUni s ! i) = UWrite h m sr ob"
      and w: "rnWrites r = rnWrites (ssRunner s) @ [(Payload ob, werr)]"
    with pc have "m < length (roles (ssRunner s))" "roles (ssRunner s) ! m = roleMedia" by simp_all
    then have "roleMedia \<in> set (roles (ssRunner s))" by (metis nth_mem)
    with w show ?thesis by blast
  qed simp
  then have main: "mainOK (ssMain s) r" by (rule mainOK_keeps [OF sessionOK_D(2) [OF ok] h(1)])
  have "balance r = uncountedMain (ssMain s) + (\<Sum>t\<leftarrow>(ssUni s)[i := t]. uncounted (usPC t))"
    using h(3) sessionOK_D(6) [OF ok] i(1) by (simp add: pendingBytes_def sum_list_update algebra_simps)
  moreover have "pcOK (roles r) (usPC t')" if "t' \<in> set ((ssUni s)[i := t])" for t'
    using in_update [OF that] h(2) sessionOK_D(3) [OF ok] keeps_roles [OF h(1)] by auto
  ultimately show ?thesis
    using main storeOK_keeps [OF h(1) sessionOK_D(1) [OF ok]] sessionOK_D(4,5) [OF ok] keeps_length [OF h(1)]
    by (intro sessionOK_I) (simp_all add: pendingBytes_def)
qed

lemma step_req_OK:
  assumes ok: "sessionOK s" and "i < length (ssReq s)"
    and st: "reqStep now (ssReq s ! i) (ssRunner s) = (t, r)"
  shows "sessionOK (s\<lparr>ssReq := (ssReq s)[i := t], ssRunner := r\<rparr>)"
proof -
  have ref: "rqSub (ssReq s ! i) < length (rnStore (ssRunner s))" using sessionOK_D(4) [OF ok] assms(2) by simp
  note h = reqStep_OK [OF st ref]
  then have k: "keeps (ssRunner s) r" by blast
  have "mainOK (ssMain s) r" using mainOK_keeps [OF sessionOK_D(2) [OF ok] k] h by blast
  moreover have "balance r = balance (ssRunner s)" using h by (simp add: balance_def)
  moreover have "rqSub q < length (rnStore r)" if "q \<in> set ((ssReq s)[i := t])" for q
    using in_update [OF that] h ref sessionOK_D(4) [OF ok] keeps_length [OF k] by auto
  ultimately show ?thesis
    using storeOK_keeps [OF k sessionOK_D(1) [OF ok]] sessionOK_D(3,5,6) [OF ok] keeps_roles [OF k]
    by (intro sessionOK_I) (simp_all add: pendingBytes_def)
qed

lemma step_main_OK:
  assumes ok: "sessionOK s" and st: "mainStep w k (ssMain s) (ssRunner s) = Some (pc, r, q)"
    and s': "ssMain s' = pc" "ssRunner s' = r" "ssUni s' = ssUni s" "length (ssErrCh s') \<le> 8"
      "ssReq s' = ssReq s @ (case q of None \<Rightarrow> [] | Some x \<Rightarrow> [x])"
  shows "sessionOK s'"
proof (cases "\<exists>ph. ssMain s = MNew ph")
  case False
  then have no: "\<forall>ph. ssMain s \<noteq> MNew ph" by blast
  from mainStep_kept [OF st no] have h: "keeps (ssRunner s) r"
      "balance r - uncountedMain pc = balance (ssRunner s) - uncountedMain (ssMain s)"
      "\<And>x. q = Some x \<Longrightarrow> \<exists>ph. ssMain s = MSend ph (rqSub x)" by auto
  have main: "mainOK pc r" using mainStep_moves [OF st no sessionOK_D(2) [OF ok]] .
  have new: "rqSub x < length (rnStore r)" if x: "q = Some x" for x
  proof -
    obtain ph where ph: "ssMain s = MSend ph (rqSub x)" using h(3) [OF x] by blast
    with sessionOK_D(2) [OF ok] have m: "mainOK (MSend ph (rqSub x)) (ssRunner s)" by simp
    then obtain n where n: "roles (ssRunner s) = take n allRoles" "n = Suc (phaseIndex ph)" "n \<le> 3"
      "rqSub x = phaseIndex ph" by (auto simp: mainOK_def)
    have "length (roles (ssRunner s)) = n" unfolding n(1) using n(3) by (simp add: allRoles_def)
    then have "length (rnStore (ssRunner s)) = n" by simp
    with n(2,4) keeps_length [OF h(1)] show ?thesis by simp
  qed
  show ?thesis
  proof (rule sessionOK_I)
    show "rqSub x < length (rnStore (ssRunner s'))" if "x \<in> set (ssReq s')" for x
      using that new sessionOK_D(4) [OF ok] keeps_length [OF h(1)] by (auto simp: s' split: option.splits)
    show "balance (ssRunner s') = pendingBytes s'"
      using h(2) sessionOK_D(6) [OF ok] by (simp add: s' pendingBytes_def algebra_simps)
    show "pcOK (roles (ssRunner s')) (usPC t)" if "t \<in> set (ssUni s')" for t
      using that sessionOK_D(3) [OF ok] keeps_roles [OF h(1)] by (simp add: s')
  qed (use s' main storeOK_keeps [OF h(1) sessionOK_D(1) [OF ok]] in simp_all)
next
  case True
  then obtain ph where ph: "ssMain s = MNew ph" by blast
  obtain m r1 where n: "newTrackSubscription (phaseTrack ph) (phaseRole ph) (ssRunner s) = (m, r1)" by fastforce
  with st ph have r: "pc = MSend ph m" "r = r1" "q = None" by (auto simp: mainStep_defs)
  have pre: "refsOK (ssRunner s)" "idsOK (ssRunner s)" "\<forall>x\<in>set (rnStore (ssRunner s)). chanOK x"
    using sessionOK_D(1) [OF ok] by (auto simp: storeOK_def)
  note new = newTrackSubscription_OK [OF n pre]
  have m: "mainOK (MNew ph) (ssRunner s)" using sessionOK_D(2) [OF ok] ph by simp
  then have roles: "roles (ssRunner s) = take (phaseIndex ph) allRoles"
    and w: "earlyWrites (MNew ph) (rnWrites (ssRunner s))"
    by (cases ph; auto simp: mainOK_def)+
  have "length (roles (ssRunner s)) = phaseIndex ph" unfolding roles by (cases ph) (auto simp: allRoles_def)
  then have idx: "m = phaseIndex ph" using new(1) by simp
  have roles': "roles r = take (Suc (phaseIndex ph)) allRoles"
    unfolding r(2) new(2) roles by (cases ph) (auto simp: allRoles_def)
  have main: "mainOK (MSend ph m) r"
    by (rule mainOK_I [OF roles']) (use idx w new(6) r(2) in \<open>cases ph; auto simp: initFirst_def\<close>)+
  have longer: "length (rnStore (ssRunner s)) < length (rnStore r)"
    using arg_cong [OF new(2), of length] r(2) by simp
  show ?thesis
  proof (rule sessionOK_I)
    show "pcOK (roles (ssRunner s')) (usPC t)" if "t \<in> set (ssUni s')" for t
      using that sessionOK_D(3) [OF ok] pcOK_append new(2) by (simp add: s' r)
    show "rqSub x < length (rnStore (ssRunner s'))" if "x \<in> set (ssReq s')" for x
      using that sessionOK_D(4) [OF ok] longer by (fastforce simp: s' r(3))
    show "balance (ssRunner s') = pendingBytes s'"
      using new(6,7) sessionOK_D(6) [OF ok] ph by (simp add: s' r balance_def pendingBytes_def)
    show "storeOK (ssRunner s')" using new(3-5) by (simp add: s' r storeOK_def)
  qed (use s' main r in simp_all)
qed

lemma sessionOK_step: "step s s' \<Longrightarrow> sessionOK s \<Longrightarrow> sessionOK s'"
proof (induction rule: step.induct)
  case (step_main s k w pc r q)
  show ?case
    by (rule step_main_OK [OF step_main(5,4)]) (use sessionOK_D(5) [OF step_main(5)] in simp_all)
next
  case (step_receive s e es w pc r q)
  have "q = None" using step_receive(2,4) by (auto simp: mainStep_defs Let_def split: prod.splits)
  then show ?case
    by (intro step_main_OK [OF step_receive(5,4)])
      (use step_receive(3) sessionOK_D(5) [OF step_receive(5)] in simp_all)
next
  case (step_uni s i now werr t r)
  then show ?case using step_uni_OK by blast
next
  case (step_uni_return s i e)
  note ok = step_uni_return(4)
  have "(\<Sum>t\<leftarrow>(ssUni s)[i := (ssUni s ! i)\<lparr>usPC := UDone\<rparr>]. uncounted (usPC t)) = (\<Sum>t\<leftarrow>ssUni s. uncounted (usPC t))"
    using step_uni_return(2,3) by (simp add: sum_list_update)
  moreover have "pcOK (roles (ssRunner s)) (usPC t)"
    if "t \<in> set ((ssUni s)[i := (ssUni s ! i)\<lparr>usPC := UDone\<rparr>])" for t
    using in_update [OF that] sessionOK_D(3) [OF ok] by auto
  ultimately show ?case
    by (intro sessionOK_I) (use sessionOK_D [OF ok] in \<open>simp_all add: pendingBytes_def\<close>)
next
  case (step_req s i now t r)
  then show ?case using step_req_OK by blast
next
  case (step_send s es e es')
  then show ?case by (intro sessionOK_I) (use sessionOK_D [OF step_send(4)] in \<open>simp_all add: pendingBytes_def\<close>)
next
  case (step_accept s sid rd)
  show ?case
    by (rule sessionOK_I) (use sessionOK_D [OF step_accept(3)] in \<open>auto simp: pendingBytes_def\<close>)
next
  case (step_accept_fails s e)
  show ?case
    by (rule sessionOK_I) (use sessionOK_D [OF step_accept_fails(3)] in \<open>simp_all add: pendingBytes_def\<close>)
next
  case (step_bidi_fails s e)
  show ?case
    by (rule sessionOK_I) (use sessionOK_D [OF step_bidi_fails(3)] in \<open>simp_all add: pendingBytes_def\<close>)
next
  case (step_cancel s e)
  show ?case
    by (rule sessionOK_I) (use sessionOK_D [OF step_cancel(3)] in \<open>simp_all add: pendingBytes_def\<close>)
qed

lemma reachable_OK: "reachable cfg s \<Longrightarrow> sessionOK s"
  by (induction rule: reachable.induct) (auto intro: sessionOK_start sessionOK_step)

end
