(* ===== verification/Scenario.thy ===== *)
theory Scenario
  imports SessionInv
begin

text \<open>
  Running a session by a list of actions.  \<open>perform\<close> computes one step of \<open>step\<close>, so a computed run is
  a reachable session; \<open>demo\<close> is one from the dial to the first media object, with the messages of a
  relay as bytes.  The theorems about reachable sessions are applied to it.
\<close>

subsection \<open>Executable steps\<close>

datatype action =
    DoMain world wake
  | DoReceive world
  | DoUni nat int "gerr option"
  | DoReturn nat
  | DoReq nat int
  | DoSend
  | DoAccept u64 reader
  | DoCancel gerr

definition afterMain :: "int \<Rightarrow> mainPC \<Rightarrow> Runner \<Rightarrow> reqStream option \<Rightarrow> session \<Rightarrow> session" where
  "afterMain now pc r q s = s\<lparr>ssMain := pc, ssRunner := r,
     ssReq := ssReq s @ (case q of None \<Rightarrow> [] | Some x \<Rightarrow> [x]),
     ssAcceptUni := ssAcceptUni s \<or> (case pc of MSetup u \<Rightarrow> True | _ \<Rightarrow> False),
     ssAcceptBidi := ssAcceptBidi s \<or> (case pc of MSetup u \<Rightarrow> True | _ \<Rightarrow> False),
     ssClosing := closingsAt now (ssMain s) pc r\<rparr>"

definition wakeAllowed :: "wake \<Rightarrow> gerr option \<Rightarrow> bool" where
  "wakeAllowed k ctx = (case k of WakeErr e \<Rightarrow> False | WakeCtx e \<Rightarrow> ctx = Some e | _ \<Rightarrow> True)"

definition perform :: "action \<Rightarrow> session \<Rightarrow> session option" where
  "perform a s =
     (if list_ex (\<lambda>t. usPC t = UPanic) (ssUni s) then None else
      case a of
        DoMain w k \<Rightarrow>
          if wakeAllowed k (ssCtx s) then
            (case mainStep w k (ssMain s) (ssRunner s) of
               Some (pc, r, q) \<Rightarrow> Some (afterMain (wNow w) pc r q s)
             | None \<Rightarrow> None)
          else None
      | DoReceive w \<Rightarrow>
          (case (ssMain s, ssErrCh s) of
             (MLoop, e # es) \<Rightarrow>
               (case mainStep w (WakeErr e) MLoop (ssRunner s) of
                  Some (pc, r, q) \<Rightarrow> Some (s\<lparr>ssMain := pc, ssRunner := r, ssErrCh := es,
                                         ssClosing := closingsAt (wNow w) MLoop pc r\<rparr>)
                | None \<Rightarrow> None)
           | _ \<Rightarrow> None)
      | DoUni i now werr \<Rightarrow>
          if i < length (ssUni s) \<and> uniActive (usPC (ssUni s ! i)) then
            (case uniStep now werr (ssUni s ! i) (ssRunner s) of
               (t, r) \<Rightarrow> Some (s\<lparr>ssUni := (ssUni s)[i := t], ssRunner := r\<rparr>))
          else None
      | DoReturn i \<Rightarrow>
          if i < length (ssUni s) then
            (case usPC (ssUni s ! i) of
               UReturn e \<Rightarrow> Some (s\<lparr>ssUni := (ssUni s)[i := (ssUni s ! i)\<lparr>usPC := UDone\<rparr>],
                                  ssPending := ssPending s @ report e\<rparr>)
             | _ \<Rightarrow> None)
          else None
      | DoReq i now \<Rightarrow>
          if i < length (ssReq s) then
            (case reqStep now (ssReq s ! i) (ssRunner s) of
               (t, r) \<Rightarrow> Some (s\<lparr>ssReq := (ssReq s)[i := t], ssRunner := r\<rparr>))
          else None
      | DoSend \<Rightarrow>
          (case ssPending s of
             e # es \<Rightarrow> if length (ssErrCh s) < 8
                      then Some (s\<lparr>ssPending := es, ssErrCh := ssErrCh s @ [e]\<rparr>) else None
           | [] \<Rightarrow> None)
      | DoAccept sid rd \<Rightarrow>
          if ssAcceptUni s
          then Some (s\<lparr>ssUni := ssUni s @ [\<lparr>usID = sid, usReader = rd, usPC = UStart\<rparr>]\<rparr>)
          else None
      | DoCancel e \<Rightarrow> if ssCtx s = None then Some (s\<lparr>ssCtx := Some e\<rparr>) else None)"

fun performs :: "action list \<Rightarrow> session \<Rightarrow> session option" where
  "performs [] s = Some s"
| "performs (a # as) s = (case perform a s of None \<Rightarrow> None | Some s' \<Rightarrow> performs as s')"

lemma afterMain_eq: "afterMain now pc r q s = s\<lparr>ssMain := pc, ssRunner := r,
     ssReq := ssReq s @ (case q of None \<Rightarrow> [] | Some x \<Rightarrow> [x]),
     ssAcceptUni := ssAcceptUni s \<or> (\<exists>u. pc = MSetup u),
     ssAcceptBidi := ssAcceptBidi s \<or> (\<exists>u. pc = MSetup u),
     ssClosing := closingsAt now (ssMain s) pc r\<rparr>"
  by (cases pc) (simp_all add: afterMain_def)

lemma perform_step:
  assumes "perform a s = Some s'"
  shows "step s s'"
proof -
  from assms have nc: "\<not> crashed s" by (auto simp: perform_def crashed_def list_ex_iff split: if_splits)
  show ?thesis
  proof (cases a)
    case (DoMain w k)
    with assms obtain pc r q where m: "mainStep w k (ssMain s) (ssRunner s) = Some (pc, r, q)"
        "s' = afterMain (wNow w) pc r q s" "wakeAllowed k (ssCtx s)"
      by (auto simp: perform_def split: if_splits option.splits)
    have "(\<forall>e. k \<noteq> WakeErr e) \<and> (\<forall>e. k = WakeCtx e \<longrightarrow> ssCtx s = Some e)"
      using m(3) by (auto simp: wakeAllowed_def split: wake.splits)
    with nc m(1) show ?thesis unfolding m(2) afterMain_eq by (blast intro: step_main)
  next
    case (DoReceive w)
    with assms obtain e es pc r q where "ssMain s = MLoop" "ssErrCh s = e # es"
        "mainStep w (WakeErr e) MLoop (ssRunner s) = Some (pc, r, q)"
        "s' = s\<lparr>ssMain := pc, ssRunner := r, ssErrCh := es,
                                         ssClosing := closingsAt (wNow w) MLoop pc r\<rparr>"
      by (auto simp: perform_def split: if_splits mainPC.splits list.splits option.splits)
    with nc show ?thesis using step_receive [of s e es w pc r q] by simp
  next
    case (DoUni i now werr)
    with assms nc show ?thesis
      by (auto simp: perform_def split: if_splits prod.splits intro: step_uni)
  next
    case (DoReturn i)
    with assms nc show ?thesis
      by (auto simp: perform_def split: if_splits uniPC.splits intro: step_uni_return)
  next
    case (DoReq i now)
    with assms nc show ?thesis
      by (auto simp: perform_def split: if_splits prod.splits intro: step_req)
  next
    case DoSend
    with assms nc show ?thesis
      using step_send [of s "[]"] by (auto simp: perform_def split: if_splits list.splits)
  next
    case (DoAccept sid rd)
    with assms nc show ?thesis
      by (auto simp: perform_def split: if_splits intro: step_accept)
  next
    case (DoCancel e)
    with assms nc show ?thesis
      by (auto simp: perform_def split: if_splits intro: step_cancel)
  qed
qed

lemma performs_reachable:
  "performs as s = Some s' \<Longrightarrow> reachable cfg s \<Longrightarrow> reachable cfg s'"
proof (induction as arbitrary: s)
  case (Cons a as)
  then obtain q where q: "perform a s = Some q" "performs as q = Some s'" by (auto split: option.splits)
  with Cons show ?case using perform_step reachable_step by blast
qed simp

lemma performs_append:
  "performs (as @ bs) s = (case performs as s of None \<Rightarrow> None | Some s' \<Rightarrow> performs bs s')"
  by (induction as arbitrary: s) (auto split: option.splits)

subsection \<open>A session with a relay\<close>

definition demoConfig :: Config where
  "demoConfig = \<lparr>cfgRelayURI = ''moqt://h'', cfgNamespace = ''a/b'', cfgOutput = \<lparr>mcMode = ModeStdout,
     mcFFmpegCmd = [], mcFFplayCmd = [], mcPipeCmd = []\<rparr>, cfgClient = \<lparr>ccRelayURI = ''moqt://h'',
     ccInsecureSkipTLS = False, ccALPN = [], ccHandshakeTimeout = 0\<rparr>, cfgRichLogPath = []\<rparr>"

definition demoCatalog :: bytes where
  "demoCatalog = bytes_of ''{\"version\":1,\"tracks\":[{\"name\":\"v\",\"initTrack\":\"i\"}]}''"

text \<open>The world at each step; the relay answers a SUBSCRIBE with the bytes given.\<close>

definition demoWorld :: "u64 \<Rightarrow> bytes \<Rightarrow> world" where
  "demoWorld sid response = \<lparr>wNow = 1, wDialAddr = (\<lambda>a. Ok ''remote''), wStdin = None,
     wStart = (\<lambda>c. None), wOpened = Inr sid, wWerr = None, wReader = mkr response ErrEOF\<rparr>"

text \<open>SUBSCRIBE_OK with the given alias; a subgroup stream of type 0x10 with one object.\<close>

definition demoOK :: "byte \<Rightarrow> bytes" where
  "demoOK alias = [0x04, 0, 2, alias, 0]"

definition demoStream :: "byte \<Rightarrow> bytes \<Rightarrow> reader" where
  "demoStream alias p = mkr ([0x10, alias, 0, 0x80, 0, word_of_nat (length p)] @ p) ErrEOF"

definition go :: "u64 \<Rightarrow> bytes \<Rightarrow> action" where
  "go sid response = DoMain (demoWorld sid response) WakeValue"

text \<open>Subscribing to the next track, and receiving its first object on a stream of its own.\<close>

definition subscribeActs :: "nat \<Rightarrow> u64 \<Rightarrow> byte \<Rightarrow> action list" where
  "subscribeActs i sid alias =
     [go sid [], go sid (demoOK alias), DoReq i 1, DoReq i 1, DoReq i 1, go sid []]"

definition objectActs :: "nat \<Rightarrow> byte \<Rightarrow> bytes \<Rightarrow> nat \<Rightarrow> action list" where
  "objectActs i alias p n = DoAccept (of_nat (4 * i + 3)) (demoStream alias p) # replicate n (DoUni i 5 None)"

text \<open>The whole bootstrap: catalog, init segment, then the media track with one object.\<close>

definition demoSetup :: "action list" where
  "demoSetup = [go 2 [], go 2 [], go 2 [], DoMain (demoWorld 2 []) WakeTimer]"

definition demoInit :: "action list" where
  "demoInit = demoSetup @ subscribeActs 0 0 20 @ objectActs 0 20 demoCatalog 6 @ [go 0 []]
     @ subscribeActs 1 4 21 @ objectActs 1 21 [1, 2, 3] 6 @ [go 0 []]"

definition demoMedia :: "action list" where
  "demoMedia = [go 0 [], go 0 []] @ subscribeActs 2 8 22 @ objectActs 2 22 [9] 4"

definition demo :: "action list \<Rightarrow> session" where
  "demo as = the (performs as (startSession demoConfig 0 0))"

text \<open>The end of the session: it is cancelled.\<close>

definition demoEnd :: "action list" where
  "demoEnd = [DoCancel ErrCanceled, DoMain (demoWorld 0 []) (WakeCtx ErrCanceled)]"

lemma demo_run:
  "case performs demoInit (startSession demoConfig 0 0) of None \<Rightarrow> False | Some s1 \<Rightarrow>
     ssMain s1 = MWriteInit [1, 2, 3] ''i'' ''v'' \<and> rnWrites (ssRunner s1) = [] \<and>
     (case performs demoMedia s1 of None \<Rightarrow> False | Some s2 \<Rightarrow>
        rnWrites (ssRunner s2) = [([1, 2, 3], None)] \<and>
        (case perform (DoUni 2 5 None) s2 of None \<Rightarrow> False | Some s3 \<Rightarrow>
           rnWrites (ssRunner s3) = [([1, 2, 3], None), ([9], None)] \<and> bytesWritten (rnStats (ssRunner s3)) = 3 \<and>
           (case performs demoEnd s3 of None \<Rightarrow> False | Some s4 \<Rightarrow>
              ssMain s4 = MReturn None \<and> rnControlStream (ssRunner s4) = Some 2)))"
  by code_simp

text \<open>The places of the run the witnesses use: the write of the init segment, a media write, its end.\<close>

lemma demo_states:
  obtains s1 s2 s3 s4 where
    "reachable demoConfig s1" "ssMain s1 = MWriteInit [1, 2, 3] ''i'' ''v''" "rnWrites (ssRunner s1) = []"
    "reachable demoConfig s2" "step s2 s3" "rnWrites (ssRunner s2) = [([1, 2, 3], None)]"
    "reachable demoConfig s3" "rnWrites (ssRunner s3) = [([1, 2, 3], None), ([9], None)]"
    "bytesWritten (rnStats (ssRunner s3)) = 3"
    "reachable demoConfig s4" "ssMain s4 = MReturn None" "rnControlStream (ssRunner s4) = Some 2"
proof -
  obtain s1 s2 s3 s4 where p: "performs demoInit (startSession demoConfig 0 0) = Some s1"
      "performs demoMedia s1 = Some s2" "perform (DoUni 2 5 None) s2 = Some s3" "performs demoEnd s3 = Some s4"
    and f: "ssMain s1 = MWriteInit [1, 2, 3] ''i'' ''v''" "rnWrites (ssRunner s1) = []"
      "rnWrites (ssRunner s2) = [([1, 2, 3], None)]"
      "rnWrites (ssRunner s3) = [([1, 2, 3], None), ([9], None)]" "bytesWritten (rnStats (ssRunner s3)) = 3"
      "ssMain s4 = MReturn None" "rnControlStream (ssRunner s4) = Some 2"
    using demo_run by (auto split: option.splits)
  have r: "reachable demoConfig s1" "reachable demoConfig s2"
    using performs_reachable [OF p(1) reachable_start] performs_reachable [OF p(2)] by blast+
  moreover from r(2) perform_step [OF p(3)] have "reachable demoConfig s3" by (rule reachable_step)
  moreover from performs_reachable [OF p(4) this] have "reachable demoConfig s4" .
  ultimately show thesis using that f perform_step [OF p(3)] by blast
qed

text \<open>A relay that announces an object of \<open>2 ^ 64 - 1\<close> bytes before the bootstrap has begun.\<close>

definition panicActs :: "action list" where
  "panicActs = take 2 demoSetup @
     [DoAccept 3 (mkr ([0x10, 20, 0, 0x80, 0] @ replicate 9 0xFF) ErrEOF), DoUni 0 5 None, DoUni 0 5 None]"

lemma panic_run:
  "case performs panicActs (startSession demoConfig 0 0) of None \<Rightarrow> False | Some s1 \<Rightarrow>
     (case perform (DoUni 0 5 None) s1 of None \<Rightarrow> False
      | Some s2 \<Rightarrow> list_ex (\<lambda>t. usPC t = UPanic) (ssUni s2))"
  by code_simp

lemma panic_states:
  obtains s1 s2 where "reachable demoConfig s1" "step s1 s2" "crashed s2"
proof -
  obtain s1 s2 where p: "performs panicActs (startSession demoConfig 0 0) = Some s1"
      "perform (DoUni 0 5 None) s1 = Some s2" "list_ex (\<lambda>t. usPC t = UPanic) (ssUni s2)"
    using panic_run by (auto split: option.splits)
  from performs_reachable [OF p(1) reachable_start] perform_step [OF p(2)] p(3) that show thesis
    by (auto simp: crashed_def list_ex_iff)
qed

end
