(* ===== verification/Progress.thy ===== *)
theory Progress
  imports Session ControlFacts
begin

text \<open>
  Every goroutine that reads a stream ends, whatever the bytes and whatever the other goroutines do
  to the shared state between two of its steps: each step takes bytes off the stream or gets closer
  to the next read.  \<open>turn\<close> is such an adversary's move: for each step the clock, the error of a write and
  the whole shared state the step finds.
\<close>

subsection \<open>A measure of what is left to do\<close>

fun uniRank :: "uniPC \<Rightarrow> nat" where
  "uniRank UStart = 1"
| "uniRank (UCtlFirst ty) = 2"
| "uniRank UCtlLoop = 1"
| "uniRank (UHeader ty) = 2"
| "uniRank (UNext h sub s) = 1"
| "uniRank (UDeliver h m s ob) = 4"
| "uniRank (USetFirst h m s ob) = 3"
| "uniRank (USendFirst h m s ob) = 2"
| "uniRank (UWrite h m s ob) = 3"
| "uniRank (UCount h m s ob) = 2"
| "uniRank _ = 0"

fun reqRank :: "reqPC \<Rightarrow> nat" where
  "reqRank RLoop = 1"
| "reqRank (RBind ok) = 3"
| "reqRank (RSendOK ok) = 2"
| "reqRank (RSendErr e) = 1"
| "reqRank _ = 0"

text \<open>The size of a goroutine: four for each byte of its stream, and its distance to the next read.\<close>

instantiation uniStream_ext :: (type) size
begin

definition size_uniStream_ext :: "'a uniStream_scheme \<Rightarrow> nat" where
  "size_uniStream_ext t = 4 * length (flat (usReader t)) + uniRank (usPC t)"

instance ..

end

instantiation reqStream_ext :: (type) size
begin

definition size_reqStream_ext :: "'a reqStream_scheme \<Rightarrow> nat" where
  "size_reqStream_ext t = 4 * length (flat (rqReader t)) + reqRank (rqPC t)"

instance ..

end

lemma size_goto [simp]: "size (goto pc rd t) = 4 * length (flat rd) + uniRank pc"
  by (simp add: size_uniStream_ext_def)

lemma size_rgoto [simp]: "size (rgoto pc rd t) = 4 * length (flat rd) + reqRank pc"
  by (simp add: size_reqStream_ext_def)

text \<open>A goroutine that gets smaller with every step, whatever the step finds, comes to rest.\<close>

locale worker =
  fixes move :: "'e \<Rightarrow> 's::size \<Rightarrow> 's" and active :: "'s \<Rightarrow> bool"
  assumes progress: "active s \<Longrightarrow> size (move e s) < size s"
    and rest: "\<not> active s \<Longrightarrow> move e s = s"
begin

lemma stays: "\<not> active s \<Longrightarrow> fold move es s = s"
  by (induction es) (auto simp: rest)

lemma ends: "size s \<le> length es \<Longrightarrow> \<not> active (fold move es s)"
proof (induction es arbitrary: s)
  case Nil
  then show ?case using progress by fastforce
next
  case (Cons e es)
  show ?case
  proof (cases "active s")
    case True
    from progress [OF this, of e] Cons.prems have "size (move e s) \<le> length es" by simp
    with Cons.IH show ?thesis by simp
  next
    case False
    with stays show ?thesis by metis
  qed
qed

end

text \<open>What the readers take off the stream.\<close>

lemma advances_length:
  assumes "advances k p" and "p r = (x, r')"
  shows "length (flat r') \<le> length (flat r)"
  using advancesD(1) [OF assms] by (auto dest: suffix_length_le)

lemma advances_takes:
  assumes "advances 1 p" and "p r = (Ok y, r')"
  shows "length (flat r') < length (flat r)"
  using advancesD(3) [OF assms refl] by simp

lemmas reader_lengths = advances_length [OF advances_ReadVarint] advances_length [OF advances_ReadFrame]
  advances_length [OF advances_ReadFrameBody] advances_length [OF advances_ParseSubgroupHeader]
  advances_length [OF advances_Next] advances_takes [OF advances_ReadVarint]
  advances_takes [OF advances_ReadFrame] advances_takes [OF advances_Next]

lemma stepControl_left:
  "stepControl now ty p rd t r = (t', r') \<Longrightarrow> size t' \<le> 4 * length (flat rd) + 1"
  by (auto simp: stepControl_def split: prod.splits option.splits)

lemma uniStep_left:
  assumes "uniActive (usPC t)" and "uniStep now werr t r = (t', r')"
  shows "size t' < size t"
proof (cases "usPC t")
  case UStart
  with assms(2) show ?thesis
    by (auto simp: uniStep_def stepStart_def size_uniStream_ext_def split: prod.splits outcome.splits dest: reader_lengths)
next
  case (UCtlFirst ty)
  with assms(2) show ?thesis
    by (auto simp: uniStep_def stepCtlFirst_def size_uniStream_ext_def [of t] split: prod.splits outcome.splits
        dest: reader_lengths dest!: stepControl_left)
next
  case UCtlLoop
  with assms(2) show ?thesis
    by (auto simp: uniStep_def stepCtlLoop_def size_uniStream_ext_def [of t] split: prod.splits outcome.splits
        dest: reader_lengths dest!: stepControl_left)
next
  case (UHeader ty)
  with assms(2) show ?thesis
    by (auto simp: uniStep_def stepHeader_def size_uniStream_ext_def [of t] split: prod.splits outcome.splits
        dest: reader_lengths)
next
  case (UNext h sub s)
  with assms(2) show ?thesis
    by (auto simp: uniStep_def stepNext_def size_uniStream_ext_def [of t] split: prod.splits outcome.splits option.splits
        dest: reader_lengths)
next
  case (UDeliver h m s ob)
  with assms(2) show ?thesis
    by (auto simp: uniStep_def stepDeliver_def stepDelivered_def size_uniStream_ext_def [of t]
        split: trackRole.splits if_splits)
next
  case (USetFirst h m s ob)
  with assms(2) show ?thesis by (auto simp: uniStep_def size_uniStream_ext_def [of t])
next
  case (USendFirst h m s ob)
  with assms(2) show ?thesis by (auto simp: uniStep_def stepDelivered_def size_uniStream_ext_def [of t])
next
  case (UWrite h m s ob)
  with assms(2) show ?thesis
    by (auto simp: uniStep_def size_uniStream_ext_def [of t] split: prod.splits option.splits)
next
  case (UCount h m s ob)
  with assms(2) show ?thesis by (auto simp: uniStep_def stepDelivered_def size_uniStream_ext_def [of t])
qed (use assms(1) in \<open>simp_all add: uniActive_def\<close>)

definition reqActive :: "reqPC \<Rightarrow> bool" where
  "reqActive pc \<longleftrightarrow> (case pc of RDone \<Rightarrow> False | RPanic \<Rightarrow> False | _ \<Rightarrow> True)"

lemma reqStep_left:
  assumes "reqActive (rqPC t)" and "reqStep now t r = (t', r')"
  shows "size t' < size t"
proof (cases "rqPC t")
  case RLoop
  with assms(2) show ?thesis
    by (auto simp: reqStep_def stepRequest_def Let_def size_reqStream_ext_def [of t]
        split: prod.splits outcome.splits if_splits dest: reader_lengths)
qed (use assms in \<open>auto simp: reqStep_def size_reqStream_ext_def [of t] reqActive_def\<close>)

subsection \<open>Running against the other goroutines\<close>

type_synonym turn = "int \<times> gerr option \<times> Runner"

text \<open>Where a stream handler is after the turns, and what it has written to the sink.\<close>

fun uniTurns :: "turn list \<Rightarrow> uniStream \<Rightarrow> uniStream \<times> (bytes \<times> gerr option) list" where
  "uniTurns [] t = (t, [])"
| "uniTurns ((now, werr, r) # turns) t =
     (let (t', r') = uniStep now werr t r; (t'', ws) = uniTurns turns t'
      in (t'', drop (length (rnWrites r)) (rnWrites r') @ ws))"

fun reqTurns :: "turn list \<Rightarrow> reqStream \<Rightarrow> reqStream" where
  "reqTurns [] t = t"
| "reqTurns ((now, werr, r) # turns) t = reqTurns turns (fst (reqStep now t r))"

lemma uniStep_inactive: "\<not> uniActive (usPC t) \<Longrightarrow> uniStep now werr t r = (t, r)"
  by (cases "usPC t") (simp_all add: uniActive_def uniStep_def)

lemma reqStep_inactive: "\<not> reqActive (rqPC t) \<Longrightarrow> reqStep now t r = (t, r)"
  by (cases "rqPC t") (simp_all add: reqActive_def reqStep_def)

definition uniTurn :: "turn \<Rightarrow> uniStream \<Rightarrow> uniStream" where
  "uniTurn x t = (case x of (now, werr, r) \<Rightarrow> fst (uniStep now werr t r))"

definition reqTurn :: "turn \<Rightarrow> reqStream \<Rightarrow> reqStream" where
  "reqTurn x t = (case x of (now, werr, r) \<Rightarrow> fst (reqStep now t r))"

interpretation uni: worker uniTurn "\<lambda>t. uniActive (usPC t)"
  by unfold_locales
    (auto simp: uniTurn_def uniStep_inactive split: prod.splits intro: uniStep_left [OF _ prod.collapse [symmetric]])

interpretation req: worker reqTurn "\<lambda>t. reqActive (rqPC t)"
  by unfold_locales
    (auto simp: reqTurn_def reqStep_inactive split: prod.splits intro: reqStep_left [OF _ prod.collapse [symmetric]])

lemma uniTurns_inactive: "\<not> uniActive (usPC t) \<Longrightarrow> uniTurns turns t = (t, [])"
  by (induction turns) (auto simp: uniStep_inactive)

lemma uniTurns_fold: "fst (uniTurns turns t) = fold uniTurn turns t"
  by (induction turns arbitrary: t) (auto simp: uniTurn_def split_beta)

lemma reqTurns_fold: "reqTurns turns t = fold reqTurn turns t"
  by (induction turns arbitrary: t) (auto simp: reqTurn_def)

lemmas uniTurns_ends = uni.ends [folded uniTurns_fold]
lemmas reqTurns_ends = req.ends [folded reqTurns_fold]

subsection \<open>What a media stream still owes the output\<close>

definition loopAt :: "SubgroupObjectReader \<Rightarrow> reader \<Rightarrow> SubgroupObject list \<Rightarrow> bool" where
  "loopAt s rd obs \<longleftrightarrow> wfObjects (hasExtensions s) (prevObjectID s) obs
     \<and> flat rd = objectsWire (hasExtensions s) (prevObjectID s) obs \<and> fin rd = ErrEOF"

definition owes :: "SubgroupHeader \<Rightarrow> subref \<Rightarrow> uniStream \<Rightarrow> bytes list \<Rightarrow> bool" where
  "owes h m t ps \<longleftrightarrow>
     (case usPC t of
        UStart \<Rightarrow> fin (usReader t) = ErrEOF \<and> (\<exists>obs. wfObjects (hdrHasExtensions h) None obs
          \<and> flat (usReader t) = streamWire h obs \<and> ps = payloadsOf obs)
      | UHeader ty \<Rightarrow> ty = hdrType h \<and> fin (usReader t) = ErrEOF \<and> (\<exists>obs. wfObjects (hdrHasExtensions h) None obs
          \<and> flat (usReader t) = headerBytes h @ objectsWire (hdrHasExtensions h) None obs \<and> ps = payloadsOf obs)
      | UNext h' sub s \<Rightarrow> h' = h \<and> sub = Some m \<and> (\<exists>obs. loopAt s (usReader t) obs \<and> ps = payloadsOf obs)
      | UDeliver h' m' s ob \<Rightarrow> h' = h \<and> m' = m
          \<and> (\<exists>obs. loopAt s (usReader t) obs \<and> ps = Payload ob # payloadsOf obs)
      | UWrite h' m' s ob \<Rightarrow> h' = h \<and> m' = m
          \<and> (\<exists>obs. loopAt s (usReader t) obs \<and> ps = Payload ob # payloadsOf obs)
      | UCount h' m' s ob \<Rightarrow> h' = h \<and> m' = m \<and> (\<exists>obs. loopAt s (usReader t) obs \<and> ps = payloadsOf obs)
      | UReturn e \<Rightarrow> e = None \<and> ps = []
      | _ \<Rightarrow> False)"

text \<open>The turn finds the alias bound to the media subscription.\<close>

definition mediaTurn :: "SubgroupHeader \<Rightarrow> subref \<Rightarrow> turn \<Rightarrow> bool" where
  "mediaTurn h m x \<longleftrightarrow> (case x of (now, werr, r) \<Rightarrow>
     fst (lookupDelivery (rnSubs r) (hdrTrackAlias h)) = Some m \<and> subRole (rnStore r ! m) = roleMedia)"

definition deliverFailed :: "gerr \<Rightarrow> uniPC" where
  "deliverFailed e = UReturn (Some (Wrapf ''deliver object: %w'' [] e))"

lemma next_owes:
  assumes "loopAt s rd obs" and "usPC t = UNext h (Some m) s" and "usReader t = rd"
    and "uniStep now werr t r = (t', r')"
  shows "rnWrites r' = rnWrites r \<and> owes h m t' (payloadsOf obs)"
proof (cases obs)
  case Nil
  with assms(1) obtain rd' where "Next s rd = (Err ErrEOF, rd')" using Next_end by (fastforce simp: loopAt_def)
  with assms(2-4) Nil show ?thesis by (auto simp: uniStep_def stepNext_def owes_def)
next
  case (Cons ob obs')
  let ?s = "s\<lparr>prevObjectID := Some (ObjectID ob)\<rparr>"
  from assms(1) Cons obtain rd' where "Next s rd = (Ok (ob, ?s), rd')" "loopAt ?s rd' obs'"
    using Next_chunked [of s ob rd] by (auto simp: loopAt_def)
  with assms(2-4) Cons show ?thesis
    by (cases "IsStatusObject ob") (auto simp: uniStep_def stepNext_def owes_def countObject_def)
qed

lemma uniStep_owes:
  assumes "owes h m t ps" and "mediaTurn h m (now, werr, r)" and "wfHeader h"
    and st: "uniStep now werr t r = (t', r')"
  shows "(rnWrites r' = rnWrites r \<and> owes h m t' ps)
    \<or> (\<exists>p qs. ps = p # qs \<and> rnWrites r' = rnWrites r @ [(p, None)] \<and> owes h m t' qs)
    \<or> (\<exists>p qs e. ps = p # qs \<and> werr = Some e \<and> rnWrites r' = rnWrites r @ [(p, Some e)]
         \<and> usPC t' = deliverFailed e)"
proof (cases "usPC t")
  case UStart
  with assms(1) obtain obs where o: "wfObjects (hdrHasExtensions h) None obs" "fin (usReader t) = ErrEOF"
      "flat (usReader t) = streamWire h obs" "ps = payloadsOf obs" by (auto simp: owes_def)
  obtain rd where rd: "ReadVarint (usReader t) = (Ok (hdrType h), rd)"
      "flat rd = headerBytes h @ objectsWire (hdrHasExtensions h) None obs" "fin rd = ErrEOF"
    using varint.dec_chunked [where x = "hdrType h" and r = "usReader t"] o(2,3) by (auto simp: streamWire_def)
  have "IsSubgroupStreamType (hdrType h)" "hdrType h \<noteq> StreamTypeSetup"
    using assms(3) by (auto simp: wfHeader_def IsSubgroupStreamType_def subgroup_codes StreamTypeSetup_def)
  with st UStart rd o show ?thesis by (auto simp: uniStep_def stepStart_def owes_def)
next
  case (UHeader ty)
  with assms(1) obtain obs where o: "wfObjects (hdrHasExtensions h) None obs" "fin (usReader t) = ErrEOF"
      "flat (usReader t) = headerBytes h @ objectsWire (hdrHasExtensions h) None obs" "ps = payloadsOf obs"
      "ty = hdrType h" by (auto simp: owes_def)
  obtain rd where rd: "ParseSubgroupHeader (hdrType h) (usReader t) = (Ok h, rd)"
      "flat rd = objectsWire (hdrHasExtensions h) None obs" "fin rd = ErrEOF"
    using header.dec_chunked [where x = h and r = "usReader t" and t = "hdrType h"] assms(3) o(2,3) by auto
  from rd o(1) have "loopAt (NewSubgroupObjectReader h) rd obs" by (simp add: loopAt_def NewSubgroupObjectReader_def)
  with st UHeader rd(1) o(4,5) assms(2) show ?thesis
    by (auto simp: uniStep_def stepHeader_def beginSubgroup_def owes_def mediaTurn_def richAdd_def updStats_def
        Let_def split: prod.splits)
next
  case (UNext h' sub s)
  with assms(1) next_owes [OF _ _ refl st] show ?thesis by (auto simp: owes_def [of h m t])
next
  case (UDeliver h' m' s ob)
  with assms(1,2) st show ?thesis
    by (auto simp: owes_def uniStep_def stepDeliver_def mediaTurn_def recordFirstObject_def updStats_def)
next
  case (UWrite h' m' s ob)
  with assms(1) st show ?thesis
    by (auto simp: owes_def uniStep_def writePayload_def deliverFailed_def split: option.splits)
next
  case (UCount h' m' s ob)
  with assms(1) st show ?thesis
    by (auto simp: owes_def uniStep_def stepDelivered_def logObject_def richAddObject_def countBytes_def updStats_def)
next
  case (UReturn e)
  with assms(1) st show ?thesis by (auto simp: owes_def uniStep_def)
qed (use assms(1) in \<open>simp_all add: owes_def\<close>)

text \<open>After any turns: either everything so far was written and the rest is still owed, or a write failed.\<close>

lemma uniTurns_owes:
  assumes "uniTurns turns t = (t', ws)" and "owes h m t ps" and "\<forall>x\<in>set turns. mediaTurn h m x" and "wfHeader h"
  shows "(\<exists>qs. ps = map fst ws @ qs \<and> snd ` set ws \<subseteq> {None} \<and> owes h m t' qs)
    \<or> (\<exists>us p qs e. ps = us @ p # qs \<and> ws = map (\<lambda>q. (q, None)) us @ [(p, Some e)]
         \<and> usPC t' = deliverFailed e \<and> Some e \<in> (fst \<circ> snd) ` set turns)"
  using assms
proof (induction turns arbitrary: t ps ws)
  case (Cons x turns)
  obtain now werr r where x: "x = (now, werr, r)" by (cases x)
  obtain t1 r1 where st: "uniStep now werr t r = (t1, r1)" by fastforce
  obtain ws1 where ws: "uniTurns turns t1 = (t', ws1)" "ws = drop (length (rnWrites r)) (rnWrites r1) @ ws1"
    using Cons.prems(1) by (auto simp: x st Let_def split: prod.splits)
  have rest: "\<forall>x\<in>set turns. mediaTurn h m x" "mediaTurn h m (now, werr, r)" using Cons.prems(3) x by auto
  from uniStep_owes [OF Cons.prems(2) rest(2) Cons.prems(4) st] show ?case
  proof (elim disjE exE conjE)
    assume "rnWrites r1 = rnWrites r" and o: "owes h m t1 ps"
    with ws(2) have "ws = ws1" by simp
    moreover have "v \<in> (fst \<circ> snd) ` set (x # turns)" if "v \<in> (fst \<circ> snd) ` set turns" for v
      using that by auto
    ultimately show ?thesis using Cons.IH [OF ws(1) o rest(1) Cons.prems(4)] by metis
  next
    fix p qs assume p: "ps = p # qs" "rnWrites r1 = rnWrites r @ [(p, None)]" and o: "owes h m t1 qs"
    from p(2) ws(2) have w: "ws = (p, None) # ws1" by simp
    from Cons.IH [OF ws(1) o rest(1) Cons.prems(4)] show ?thesis
    proof (elim disjE exE conjE)
      fix rs assume "qs = map fst ws1 @ rs" "snd ` set ws1 \<subseteq> {None}" "owes h m t' rs"
      with p(1) w show ?thesis by (intro disjI1) auto
    next
      fix us q rs e assume "qs = us @ q # rs" "ws1 = map (\<lambda>q. (q, None)) us @ [(q, Some e)]"
        "usPC t' = deliverFailed e" "Some e \<in> (fst \<circ> snd) ` set turns"
      with p(1) w show ?thesis
        by (intro disjI2 exI [of _ "p # us"] exI [of _ q] exI [of _ rs] exI [of _ e]) auto
    qed
  next
    fix p qs e assume p: "ps = p # qs" "rnWrites r1 = rnWrites r @ [(p, Some e)]" "werr = Some e"
      and d: "usPC t1 = deliverFailed e"
    from d have "uniTurns turns t1 = (t1, [])"
      by (intro uniTurns_inactive) (simp add: deliverFailed_def uniActive_def)
    with ws p have "ws = [(p, Some e)]" "t' = t1" by auto
    with p d x show ?thesis
      by (intro disjI2 exI [of _ "[]"] exI [of _ p] exI [of _ qs] exI [of _ e]) auto
  qed
qed auto

subsection \<open>Properties\<close>

text \<open>C11: Stream handlers terminate.  A handler of a unidirectional stream and a reader of a request
  stream stop after at most four steps per byte still to be read, and four more: whatever the bytes
  are, whatever the clock says and the writes return, and whatever the other goroutines have made of
  the shared state before each of the steps.\<close>

theorem handlers_terminate:
  assumes "4 * length (flat (usReader t)) + 4 \<le> length turns"
    and "4 * length (flat (rqReader q)) + 4 \<le> length turns'"
  shows "\<not> uniActive (usPC (fst (uniTurns turns t))) \<and> \<not> reqActive (rqPC (reqTurns turns' q))"
proof -
  have "uniRank (usPC t) \<le> 4" "reqRank (rqPC q) \<le> 4" by (cases "usPC t"; simp) (cases "rqPC q"; simp)
  with assms have "size t \<le> length turns" "size q \<le> length turns'"
    by (simp_all add: size_uniStream_ext_def size_reqStream_ext_def)
  then show ?thesis using uniTurns_ends reqTurns_ends by blast
qed

theorem handlers_terminate_witness:
  "\<not> uniActive (usPC (fst (uniTurns (replicate 8 (0, None, exRunner roleMedia)) (exStream [0x10]))))"
  using handlers_terminate [of "exStream [0x10]" "replicate 8 (0, None, exRunner roleMedia)"
      "\<lparr>rqSub = 0, rqID = 0, rqReader = mkr [] ErrEOF, rqPC = RLoop\<rparr>" "replicate 4 (0, None, exRunner roleMedia)"]
  by (simp add: exStream_def)

text \<open>C2: Media in order, exactly once, under interference.  Between the steps of the handler of a media
  stream the other goroutines change the shared state arbitrarily, as long as the alias of the stream
  stays bound to the media subscription.  What the handler has written to the sink at any moment is a
  prefix of the payloads of the stream's objects that are not status objects, each once; a write that
  fails is its last and ends it; and when no write fails it has written all of them and has returned
  nil after at most four steps per byte of the stream and one more.\<close>

theorem media_in_order:
  assumes "usPC t = UStart" and "flat (usReader t) = streamWire h obs" and "fin (usReader t) = ErrEOF"
    and "wfHeader h" and "wfObjects (hdrHasExtensions h) None obs"
    and "\<forall>(now, werr, r)\<in>set turns. fst (lookupDelivery (rnSubs r) (hdrTrackAlias h)) = Some m
      \<and> subRole (rnStore r ! m) = roleMedia"
    and "uniTurns turns t = (t', ws)"
  shows "\<exists>rest. map Payload (filter (\<lambda>ob. \<not> IsStatusObject ob) obs) = map fst ws @ rest
    \<and> (\<forall>i<length ws. snd (ws ! i) \<noteq> None \<longrightarrow> Suc i = length ws \<and> \<not> uniActive (usPC t'))
    \<and> ((\<forall>(now, werr, r)\<in>set turns. werr = None) \<and> 4 * length (flat (usReader t)) + 1 \<le> length turns
        \<longrightarrow> rest = [] \<and> (\<forall>x\<in>set ws. snd x = None) \<and> usPC t' = UReturn None)"
proof -
  have owe: "owes h m t (payloadsOf obs)" using assms(1-3,5) by (auto simp: owes_def)
  have media: "\<forall>x\<in>set turns. mediaTurn h m x" using assms(6) by (auto simp: mediaTurn_def)
  have stop: "\<not> uniActive (usPC t')" if "4 * length (flat (usReader t)) + 1 \<le> length turns"
    using uniTurns_ends [of t turns] that assms(1,7) by (simp add: size_uniStream_ext_def)
  have fin: "usPC t' = UReturn None \<and> qs = []" if "owes h m t' qs" "\<not> uniActive (usPC t')" for qs
    using that by (cases "usPC t'") (auto simp: owes_def uniActive_def)
  from uniTurns_owes [OF assms(7) owe media assms(4)] show ?thesis
  proof (elim disjE exE conjE)
    fix qs assume q: "payloadsOf obs = map fst ws @ qs" "snd ` set ws \<subseteq> {None}" "owes h m t' qs"
    from q(2) have pairs: "\<forall>x\<in>set ws. snd x = None" by auto
    then have "snd (ws ! i) = None" if "i < length ws" for i using that by simp
    with q(1,3) stop fin pairs show ?thesis by (intro exI [of _ qs]) auto
  next
    fix us p qs e assume q: "payloadsOf obs = us @ p # qs" "ws = map (\<lambda>q. (q, None)) us @ [(p, Some e)]"
      "usPC t' = deliverFailed e" "Some e \<in> (fst \<circ> snd) ` set turns"
    from q(2) have "snd (ws ! i) \<noteq> None \<Longrightarrow> i < length ws \<Longrightarrow> Suc i = length ws" for i
      by (auto simp: nth_append split: if_splits)
    moreover have "\<not> uniActive (usPC t')" using q(3) by (simp add: deliverFailed_def uniActive_def)
    moreover have "\<not> (\<forall>(now, werr, r)\<in>set turns. werr = None)" using q(4) by fastforce
    ultimately show ?thesis using q(1,2) by (intro exI [of _ qs]) (auto simp: o_def)
  qed
qed

theorem media_in_order_witness:
  "let (t', ws) = uniTurns (replicate 57 (0, None, exRunner roleMedia)) (exStream (streamWire exHeader exObjects))
   in ws = [([1, 2], None), ([3], None)] \<and> usPC t' = UReturn None"
proof -
  let ?turns = "replicate 57 (0, None, exRunner roleMedia) :: turn list"
  obtain t' ws where u: "uniTurns ?turns (exStream (streamWire exHeader exObjects)) = (t', ws)" by fastforce
  have len: "length (streamWire exHeader exObjects) \<le> 14" by code_simp
  have env: "\<forall>(now, werr, r)\<in>set ?turns. fst (lookupDelivery (rnSubs r) (hdrTrackAlias exHeader)) = Some 0
      \<and> subRole (rnStore r ! 0) = roleMedia"
    using exStream_facts(6,7) by (simp add: exSub_def)
  obtain rest where r: "map Payload (filter (\<lambda>ob. \<not> IsStatusObject ob) exObjects) = map fst ws @ rest"
      "\<forall>i<length ws. snd (ws ! i) \<noteq> None \<longrightarrow> Suc i = length ws \<and> \<not> uniActive (usPC t')"
      "rest = []" "\<forall>x\<in>set ws. snd x = None" "usPC t' = UReturn None"
    using media_in_order [OF exStream_facts(1-5) env u] len exStream_facts(2) by fastforce
  from r(4) have "ws = map (\<lambda>p. (p, None)) (map fst ws)" by (induction ws) auto
  also have "map fst ws = [[1, 2], [3]]" using r(1,3) by (simp add: exObjects_def exObject_def)
  finally show ?thesis using u r(5) by simp
qed

end
