(* ===== verification/Duration.thy ===== *)
theory Duration
  imports GoTime
begin

text \<open>
  \<^verbatim>\<open>time.ParseDuration\<close>, as the flag package reads a duration, and that it reads back what
  \<^verbatim>\<open>Duration.String\<close> prints.  The fraction of a number is scaled in \<^verbatim>\<open>float64\<close>: \<open>round53\<close> rounds a quotient to 53
  significant bits, and numbers below one are kept in units of \<open>2 ^ -128\<close>, more than their 53 bits need.
\<close>

subsection \<open>Floating point\<close>

fun bitLen :: "nat \<Rightarrow> nat" where
  "bitLen n = (if n = 0 then 0 else Suc (bitLen (n div 2)))"

declare bitLen.simps [simp del]

text \<open>The quotient rounded to the nearest integer, a tie to the even one.\<close>

definition roundQuotient :: "nat \<Rightarrow> nat \<Rightarrow> nat" where
  "roundQuotient n d =
     (let q = n div d; r = n mod d in if 2 * r < d \<or> (2 * r = d \<and> even q) then q else q + 1)"

definition round53 :: "nat \<Rightarrow> nat \<Rightarrow> nat" where
  "round53 n d = (let shift = bitLen (n div d) - 53 in roundQuotient n (d * 2 ^ shift) * 2 ^ shift)"

text \<open>\<^verbatim>\<open>uint64(float64(f) * (float64(unit) / scale))\<close>.\<close>

definition scaleFraction :: "nat \<Rightarrow> nat \<Rightarrow> nat \<Rightarrow> nat" where
  "scaleFraction f unit scale = round53 (round53 f 1 * round53 (unit * 2 ^ 128) scale) 1 div 2 ^ 128"

subsection \<open>Reading a duration\<close>

fun leadingInt :: "nat \<Rightarrow> string \<Rightarrow> (nat \<times> string) option" where
  "leadingInt x [] = Some (x, [])"
| "leadingInt x (c # s) =
     (if \<not> isDigit c then Some (x, c # s)
      else if 2 ^ 63 div 10 < x then None
      else let y = x * 10 + digitVal c in if 2 ^ 63 < y then None else leadingInt y s)"

text \<open>The digits of the fraction as a number, and its scale; \<open>full\<close> when no more digits fit.\<close>

fun leadingFraction :: "bool \<Rightarrow> nat \<Rightarrow> nat \<Rightarrow> string \<Rightarrow> nat \<times> nat \<times> string" where
  "leadingFraction full x scale [] = (x, scale, [])"
| "leadingFraction full x scale (c # s) =
     (if \<not> isDigit c then (x, scale, c # s)
      else if full \<or> (2 ^ 63 - 1) div 10 < x then leadingFraction True x scale s
      else let y = x * 10 + digitVal c
           in if 2 ^ 63 < y then leadingFraction True x scale s
              else leadingFraction False y (round53 (scale * 10) 1) s)"

definition unitMap :: "string \<Rightarrow> nat option" where
  "unitMap u =
     (if u = ''ns'' then Some 1
      else if u = ''us'' \<or> u = micro @ ''s'' \<or> u = [CHR 0xCE, CHR 0xBC] @ ''s'' then Some (10 ^ 3)
      else if u = ''ms'' then Some (10 ^ 6)
      else if u = ''s'' then Some (10 ^ 9)
      else if u = ''m'' then Some (60 * 10 ^ 9)
      else if u = ''h'' then Some (3600 * 10 ^ 9)
      else None)"

definition isUnitChar :: "char \<Rightarrow> bool" where
  "isUnitChar c \<longleftrightarrow> c \<noteq> CHR ''.'' \<and> \<not> isDigit c"

definition fractionPart :: "string \<Rightarrow> nat \<times> nat \<times> string \<times> bool" where
  "fractionPart s =
     (case s of
        c # t \<Rightarrow>
          if c = CHR ''.''
          then (let (f, scale, r) = leadingFraction False 0 1 t in (f, scale, r, length r \<noteq> length t))
          else (0, 1, s, False)
      | [] \<Rightarrow> (0, 1, s, False))"

text \<open>A number with its unit, in nanoseconds, and the rest.\<close>

definition durationPart :: "string \<Rightarrow> (nat \<times> string) option" where
  "durationPart s =
     Option.bind (leadingInt 0 s) (\<lambda>(v, s1).
       let (f, scale, s2, post) = fractionPart s1;
           u = takeWhile isUnitChar s2;
           rest = dropWhile isUnitChar s2
       in if length s1 = length s \<and> \<not> post then None
          else if u = [] then None
          else Option.bind (unitMap u) (\<lambda>unit.
            if 2 ^ 63 div unit < v then None
            else (let n = v * unit + (if 0 < f then scaleFraction f unit scale else 0)
                  in if 2 ^ 63 < n then None else Some (n, rest))))"

lemma leadingInt_length: "leadingInt x s = Some (v, t) \<Longrightarrow> length t \<le> length s"
  by (induction x s rule: leadingInt.induct) (auto simp: Let_def split: if_splits)

lemma leadingFraction_length: "leadingFraction b x k s = (f, g, t) \<Longrightarrow> length t \<le> length s"
  by (induction b x k s rule: leadingFraction.induct) (auto simp: Let_def split: if_splits)

lemma fractionPart_length: "fractionPart s = (f, g, t, b) \<Longrightarrow> length t \<le> length s"
  by (auto simp: fractionPart_def dest!: leadingFraction_length split: list.splits if_splits prod.splits)

lemma durationPart_shorter: "durationPart s = Some (v, rest) \<Longrightarrow> length rest < length s"
proof -
  assume d: "durationPart s = Some (v, rest)"
  then obtain x s1 where i: "leadingInt 0 s = Some (x, s1)"
    by (auto simp: durationPart_def bind_eq_Some_conv)
  moreover obtain f g s2 b where p: "fractionPart s1 = (f, g, s2, b)" by (metis prod_cases4)
  moreover from d i p have "takeWhile isUnitChar s2 \<noteq> []" "rest = dropWhile isUnitChar s2"
    by (auto simp: durationPart_def bind_eq_Some_conv Let_def split: if_splits)
  moreover from this have "length rest < length s2"
    by (cases s2) (auto intro: le_imp_less_Suc length_dropWhile_le split: if_splits)
  ultimately show ?thesis using leadingInt_length fractionPart_length by fastforce
qed

function durationLoop :: "nat \<Rightarrow> string \<Rightarrow> nat option" where
  "durationLoop d s =
     (if s = [] then Some d
      else Option.bind (durationPart s) (\<lambda>(v, rest).
        let d' = (d + v) mod 2 ^ 64 in if 2 ^ 63 < d' then None else durationLoop d' rest))"
  by pat_completeness auto
termination
  by (relation "measure (\<lambda>(d, s). length s)") (auto dest: durationPart_shorter)

declare durationLoop.simps [simp del]

definition ParseDuration :: "string \<Rightarrow> int option" where
  "ParseDuration s =
     (let neg = (s \<noteq> [] \<and> hd s = CHR ''-'');
          s = (if s \<noteq> [] \<and> hd s \<in> {CHR ''-'', CHR ''+''} then tl s else s)
      in if s = ''0'' then Some 0
         else if s = [] then None
         else Option.bind (durationLoop 0 s) (\<lambda>d.
           if neg then Some (- int d) else if 2 ^ 63 - 1 < d then None else Some (int d)))"

subsection \<open>Numbers\<close>

lemma bitLen_le: "n < 2 ^ k \<Longrightarrow> bitLen n \<le> k"
proof (induction k arbitrary: n)
  case (Suc k)
  then have "n div 2 < 2 ^ k" by (simp add: less_mult_imp_div_less)
  with Suc.IH show ?case by (simp add: bitLen.simps [of n])
qed (simp add: bitLen.simps)

lemma roundQuotient_exact: "0 < d \<Longrightarrow> roundQuotient (q * d) d = q"
  by (simp add: roundQuotient_def)

text \<open>A number of 53 bits, in any unit, is not changed by rounding.\<close>

lemma round53_exact:
  assumes "m < 2 ^ 53" and "0 < d"
  shows "round53 (m * 2 ^ k * d) d = m * 2 ^ k"
proof -
  define shift where "shift = bitLen (m * 2 ^ k) - 53"
  have "m * 2 ^ k < 2 ^ (53 + k)" using assms(1) by (simp add: power_add)
  then have s: "shift \<le> k" using bitLen_le [of "m * 2 ^ k" "53 + k"] by (simp add: shift_def)
  then have k: "(2 :: nat) ^ k = 2 ^ (k - shift) * 2 ^ shift" by (simp flip: power_add)
  have "roundQuotient (m * 2 ^ k * d) (d * 2 ^ shift) = m * 2 ^ (k - shift)"
    using roundQuotient_exact [of "d * 2 ^ shift" "m * 2 ^ (k - shift)"] assms(2) by (simp add: k ac_simps)
  moreover have "round53 (m * 2 ^ k * d) d = roundQuotient (m * 2 ^ k * d) (d * 2 ^ shift) * 2 ^ shift"
    using assms(2) by (simp add: round53_def shift_def Let_def)
  ultimately show ?thesis by (simp add: k)
qed

lemma scaleFraction_exact:
  assumes "f < 10 ^ i" and "i \<le> prec" and "prec \<le> 9"
  shows "scaleFraction f (10 ^ prec) (10 ^ i) = f * 10 ^ (prec - i)"
proof -
  have p: "(10 :: nat) ^ prec = 10 ^ i * 10 ^ (prec - i)" using assms(2) by (simp flip: power_add)
  have le: "(10 :: nat) ^ n \<le> 10 ^ 9" if "n \<le> 9" for n using that by (rule power_increasing) simp
  have i: "(10 :: nat) ^ i \<le> 10 ^ 9" "(10 :: nat) ^ (prec - i) \<le> 10 ^ 9" "(10 :: nat) ^ prec \<le> 10 ^ 9"
    using assms(2,3) by (intro le; simp)+
  have small: "f < 2 ^ 53" "10 ^ (prec - i) < (2 :: nat) ^ 53" using assms(1) i by auto
  have "f * 10 ^ (prec - i) < 10 ^ prec" using assms(1) by (simp add: p)
  then have prod: "f * 10 ^ (prec - i) < 2 ^ 53" using i(3) by auto
  have "round53 f 1 = f" using round53_exact [of f 1 0] small(1) by simp
  moreover have "round53 (10 ^ prec * 2 ^ 128) (10 ^ i) = 10 ^ (prec - i) * 2 ^ 128"
    using round53_exact [OF small(2), of "10 ^ i" 128] by (simp only: p ac_simps zero_less_power zero_less_numeral)
  moreover have "round53 (f * 10 ^ (prec - i) * 2 ^ 128) 1 = f * 10 ^ (prec - i) * 2 ^ 128"
    using round53_exact [OF prod, of 1 128] by simp
  ultimately show ?thesis by (simp add: scaleFraction_def mult.assoc [symmetric])
qed

lemma readBase_ge: "x \<le> foldl (\<lambda>a c. a * 10 + digitVal c) x ds"
proof (induction ds arbitrary: x)
  case (Cons c ds)
  from Cons [of "x * 10 + digitVal c"] show ?case by simp
qed simp

text \<open>The digits at the front, when the text after them begins with none.\<close>

lemma leadingInt_digits:
  assumes "list_all isDigit ds" and "foldl (\<lambda>a c. a * 10 + digitVal c) x ds \<le> 2 ^ 63"
    and "t = [] \<or> \<not> isDigit (hd t)"
  shows "leadingInt x (ds @ t) = Some (foldl (\<lambda>a c. a * 10 + digitVal c) x ds, t)"
  using assms(1,2)
proof (induction ds arbitrary: x)
  case Nil
  then show ?case using assms(3) by (cases t) auto
next
  case (Cons c ds)
  from Cons.prems readBase_ge [of "x * 10 + digitVal c" ds] have "x * 10 + digitVal c \<le> 2 ^ 63" by simp
  moreover from this have "x \<le> 2 ^ 63 div 10" by simp
  ultimately show ?case using Cons by simp
qed

lemma leadingFraction_digits:
  assumes "list_all isDigit ds" and "foldl (\<lambda>a c. a * 10 + digitVal c) x ds < 10 ^ 9"
    and "k + length ds \<le> 9" and "t = [] \<or> \<not> isDigit (hd t)"
  shows "leadingFraction False x (10 ^ k) (ds @ t)
    = (foldl (\<lambda>a c. a * 10 + digitVal c) x ds, 10 ^ (k + length ds), t)"
  using assms(1-3)
proof (induction ds arbitrary: x k)
  case Nil
  then show ?case using assms(4) by (cases t) auto
next
  case (Cons c ds)
  from Cons.prems(2) readBase_ge [of "x * 10 + digitVal c" ds] have x: "x * 10 + digitVal c < 10 ^ 9" by simp
  have "(10 :: nat) ^ Suc k \<le> 10 ^ 9" using Cons.prems(3) by (intro power_increasing) simp_all
  then have "round53 (10 ^ k * 10) 1 = 10 ^ Suc k"
    using round53_exact [of "10 ^ Suc k" 1 0] by (simp add: mult.commute)
  with x Cons.prems Cons.IH [of "x * 10 + digitVal c" "Suc k"] show ?case by simp
qed

subsection \<open>Printed durations\<close>

lemma foldl_zeros: "foldl (\<lambda>a c. a * 10 + digitVal c) x (replicate k (CHR ''0'')) = x * 10 ^ k"
proof (induction k arbitrary: x)
  case (Suc k)
  moreover have "digitVal (CHR ''0'') = 0" by code_simp
  ultimately show ?case by simp
qed simp

lemma isDigit_digitChar: "d < 10 \<Longrightarrow> isDigit (digitChar d)"
  by (simp add: isDigit_def digitChar_range)

lemma showBase_isDigit: "list_all isDigit (showBase 10 n)"
  using showBase_10_digits by (auto simp: list_all_iff isDigit_def)

lemma fraction_digits:
  "foldl (\<lambda>a c. a * 10 + digitVal c) 0 (map (\<lambda>i. digitChar (v div 10 ^ (prec - 1 - i) mod 10)) [0..<prec])
     = v mod 10 ^ prec"
proof (induction prec arbitrary: v)
  case (Suc n)
  have digits: "map (\<lambda>i. digitChar (v div 10 ^ (Suc n - 1 - i) mod 10)) [0..<Suc n]
      = map (\<lambda>i. digitChar (v div 10 div 10 ^ (n - 1 - i) mod 10)) [0..<n] @ [digitChar (v mod 10)]"
    by (auto simp: div_mult2_eq [symmetric] simp flip: power_Suc intro!: arg_cong [where f = digitChar]
        arg_cong [where f = "\<lambda>x. v div x mod 10"] arg_cong [where f = "\<lambda>x. 10 ^ x"])
  have "v mod 10 ^ Suc n = (v div 10 mod 10 ^ n) * 10 + v mod 10"
    by (simp add: mod_mult2_eq)
  then show ?case unfolding digits foldl_append Suc.IH [of "v div 10"] by simp
qed simp

lemma fracText_digits:
  obtains ds where "list_all isDigit ds" and "length ds \<le> prec"
    and "fracText prec v = (if ds = [] then [] else CHR ''.'' # ds)"
    and "foldl (\<lambda>a c. a * 10 + digitVal c) 0 ds * 10 ^ (prec - length ds) = v mod 10 ^ prec"
proof -
  define all where "all = map (\<lambda>i. digitChar (v div 10 ^ (prec - 1 - i) mod 10)) [0..<prec]"
  define ds where "ds = rev (dropWhile (\<lambda>c. c = CHR ''0'') (rev all))"
  have "takeWhile (\<lambda>c. c = CHR ''0'') (rev all) = replicate (length (takeWhile (\<lambda>c. c = CHR ''0'') (rev all))) (CHR ''0'')"
    by (intro replicate_eqI) (auto dest: set_takeWhileD)
  then obtain k where "rev all = replicate k (CHR ''0'') @ rev ds"
    by (metis ds_def rev_rev_ident takeWhile_dropWhile_id)
  then have split: "all = ds @ replicate k (CHR ''0'')" by (metis rev_append rev_replicate rev_rev_ident)
  then have len: "prec = length ds + k" by (metis all_def diff_zero length_append length_map length_replicate length_upt)
  have "foldl (\<lambda>a c. a * 10 + digitVal c) 0 all = v mod 10 ^ prec" unfolding all_def by (rule fraction_digits)
  then have "foldl (\<lambda>a c. a * 10 + digitVal c) 0 ds * 10 ^ (prec - length ds) = v mod 10 ^ prec"
    by (simp add: split foldl_zeros len)
  moreover have "list_all isDigit all" by (auto simp: all_def list_all_iff isDigit_digitChar)
  then have "list_all isDigit ds" by (simp add: split)
  moreover have "fracText prec v = (if ds = [] then [] else CHR ''.'' # ds)"
    unfolding fracText_def ds_def all_def by (simp add: Let_def)
  moreover have "length ds \<le> prec" by (simp add: len)
  ultimately show thesis by (intro that)
qed

text \<open>A printed number with its unit is read back to the number of nanoseconds it stands for.\<close>

lemma durationPart_printed:
  assumes "unitMap u = Some (10 ^ prec * m)" and "prec \<le> 9" and "m = 1 \<or> v mod 10 ^ prec = 0"
    and "u \<noteq> []" and "list_all isUnitChar u" and "t = [] \<or> \<not> isUnitChar (hd t)"
    and "n * (10 ^ prec * m) + v mod 10 ^ prec \<le> 2 ^ 63"
  shows "durationPart (showBase 10 n @ fracText prec v @ u @ t)
    = Some (n * (10 ^ prec * m) + v mod 10 ^ prec, t)"
proof -
  let ?unit = "10 ^ prec * m"
  obtain ds where ds: "list_all isDigit ds" "length ds \<le> prec" "fracText prec v = (if ds = [] then [] else CHR ''.'' # ds)"
      "foldl (\<lambda>a c. a * 10 + digitVal c) 0 ds * 10 ^ (prec - length ds) = v mod 10 ^ prec"
    by (rule fracText_digits)
  let ?f = "foldl (\<lambda>a c. a * 10 + digitVal c) 0 ds"
  have unit: "0 < ?unit" using assms(1) by (cases "m = 0") (auto simp: unitMap_def split: if_splits)
  have unitChar: "\<not> isDigit (hd (u @ t))" "hd (u @ t) \<noteq> CHR ''.''"
    using assms(4,5) by (cases u; auto simp: isUnitChar_def)+
  have "n * ?unit \<le> 2 ^ 63" using assms(7) by simp
  with unit have n: "n \<le> 2 ^ 63 div ?unit" by (simp add: less_eq_div_iff_mult_less_eq)
  then have "n \<le> 2 ^ 63" by (meson div_le_dividend le_trans)
  then have int: "leadingInt 0 (showBase 10 n @ fracText prec v @ u @ t) = Some (n, fracText prec v @ u @ t)"
    using leadingInt_digits [OF showBase_isDigit [of n], of 0 "fracText prec v @ u @ t"] readBase_showBase [of 10 n]
      unitChar ds(3) by (auto simp: readBase_def isDigit_def)
  have f: "?f < 10 ^ length ds"
  proof -
    have "v mod 10 ^ prec < 10 ^ prec" by simp
    also have "(10 :: nat) ^ prec = 10 ^ length ds * 10 ^ (prec - length ds)" using ds(2) by (simp flip: power_add)
    finally show ?thesis using ds(4) by (metis mult_less_cancel2)
  qed
  have frac: "fractionPart (fracText prec v @ u @ t) = (?f, 10 ^ length ds, u @ t, ds \<noteq> [])"
  proof (cases "ds = []")
    case True
    then show ?thesis using ds(3) unitChar(2) by (auto simp: fractionPart_def split: list.split)
  next
    case False
    have "?f < 10 ^ 9" using f ds(2) assms(2) by (meson less_le_trans le_trans one_le_numeral power_increasing)
    moreover have "length ds \<le> 9" using ds(2) assms(2) by simp
    ultimately have "leadingFraction False 0 (10 ^ 0) (ds @ u @ t) = (?f, 10 ^ (0 + length ds), u @ t)"
      using unitChar(1) by (intro leadingFraction_digits [OF ds(1)]) simp_all
    with False ds(3) show ?thesis by (simp add: fractionPart_def)
  qed
  have "list_all isUnitChar u \<Longrightarrow> takeWhile isUnitChar (u @ t) = u \<and> dropWhile isUnitChar (u @ t) = t"
    using assms(6) by (induction u) (auto split: list.split, (cases t; simp)+)
  with assms(5) have split: "takeWhile isUnitChar (u @ t) = u" "dropWhile isUnitChar (u @ t) = t" by simp_all
  have "(if 0 < ?f then scaleFraction ?f ?unit (10 ^ length ds) else 0) = v mod 10 ^ prec"
    using assms(3) scaleFraction_exact [OF f ds(2) assms(2)] ds(4) by auto
  then show ?thesis
    using int frac split assms(1,4,7) n by (simp add: durationPart_def Let_def)
qed

lemma durationLoop_step:
  "s \<noteq> [] \<Longrightarrow> durationPart s = Some (v, rest) \<Longrightarrow> d + v \<le> 2 ^ 63 \<Longrightarrow> durationLoop d s = durationLoop (d + v) rest"
  by (simp add: durationLoop.simps [of d s])

lemma durationLoop_end: "durationLoop d [] = Some d"
  by (simp add: durationLoop.simps)

text \<open>The same for a part of a duration; the units of whole numbers have no fraction.\<close>

lemma loop_printed:
  assumes "unitMap u = Some (10 ^ prec * m)" and "prec \<le> 9" and "m = 1 \<or> v mod 10 ^ prec = 0"
    and "u \<noteq> []" and "list_all isUnitChar u" and "t = [] \<or> \<not> isUnitChar (hd t)"
    and "d + (n * (10 ^ prec * m) + v mod 10 ^ prec) \<le> 2 ^ 63"
  shows "durationLoop d (showBase 10 n @ fracText prec v @ u @ t)
    = durationLoop (d + (n * (10 ^ prec * m) + v mod 10 ^ prec)) t"
  using assms(7) by (intro durationLoop_step durationPart_printed [OF assms(1-6)]) simp_all

lemma fracText_0 [simp]: "fracText 0 v = []"
  by (simp add: fracText_def)

definition magnitudeText :: "nat \<Rightarrow> string" where
  "magnitudeText u =
     (if u = 0 then ''0s''
      else if u < 10 ^ 3 then showBase 10 u @ ''ns''
      else if u < 10 ^ 6 then showBase 10 (u div 10 ^ 3) @ fracText 3 u @ micro @ ''s''
      else if u < 10 ^ 9 then showBase 10 (u div 10 ^ 6) @ fracText 6 u @ ''ms''
      else (let s = u div 10 ^ 9; m = s div 60; h = m div 60
            in (if 0 < h then showBase 10 h @ ''h'' else [])
               @ (if 0 < m then showBase 10 (m mod 60) @ ''m'' else [])
               @ showBase 10 (s mod 60) @ fracText 9 u @ ''s''))"

lemma durationText_magnitude:
  "durationText d = (if d < 0 then CHR ''-'' # magnitudeText (nat \<bar>d\<bar>) else magnitudeText (nat \<bar>d\<bar>))"
  unfolding durationText_def magnitudeText_def by (simp only: Let_def)

lemma units:
  "unitMap ''ns'' = Some (10 ^ 0 * 1)" "unitMap (micro @ ''s'') = Some (10 ^ 3 * 1)" "unitMap ''ms'' = Some (10 ^ 6 * 1)"
  "unitMap ''s'' = Some (10 ^ 9 * 1)" "unitMap ''m'' = Some (10 ^ 0 * (60 * 10 ^ 9))"
  "unitMap ''h'' = Some (10 ^ 0 * (3600 * 10 ^ 9))"
  "list_all isUnitChar ''ns''" "list_all isUnitChar (micro @ ''s'')" "list_all isUnitChar ''ms''"
  "list_all isUnitChar ''s''" "list_all isUnitChar ''m''" "list_all isUnitChar ''h''"
  by code_simp+

lemma showBase_hd: "\<not> isUnitChar (hd (showBase 10 n @ t))"
  using showBase_isDigit [of n] showBase_not_Nil [of 10 n]
  by (cases "showBase 10 n") (auto simp: isUnitChar_def simp del: showBase_not_Nil)

text \<open>Hours, minutes and seconds; the parts that are zero are left out.\<close>

lemma loop_clock:
  assumes "u \<le> 2 ^ 63"
  defines "s \<equiv> u div 10 ^ 9"
  defines "m \<equiv> s div 60"
  defines "h \<equiv> m div 60"
  shows "durationLoop 0 ((if 0 < h then showBase 10 h @ ''h'' else [])
      @ (if 0 < m then showBase 10 (m mod 60) @ ''m'' else []) @ showBase 10 (s mod 60) @ fracText 9 u @ ''s'') = Some u"
proof -
  define seconds where "seconds = showBase 10 (s mod 60) @ fracText 9 u @ ''s''"
  define minutes where "minutes = (if 0 < m then showBase 10 (m mod 60) @ ''m'' else [])"
  have start: "\<not> isUnitChar (hd seconds)" unfolding seconds_def by (rule showBase_hd)
  then have "\<not> isUnitChar (hd (minutes @ seconds))"
    by (cases "0 < m") (simp_all only: minutes_def if_True if_False append_assoc append_Nil showBase_hd not_False_eq_True)
  note hd = this start
  have sum: "u = h * (3600 * 10 ^ 9) + m mod 60 * (60 * 10 ^ 9) + (s mod 60 * 10 ^ 9 + u mod 10 ^ 9)"
  proof -
    have "u = ((h * 60 + m mod 60) * 60 + s mod 60) * 10 ^ 9 + u mod 10 ^ 9"
      unfolding h_def div_mult_mod_eq unfolding m_def div_mult_mod_eq unfolding s_def div_mult_mod_eq ..
    also have "\<dots> = h * (3600 * 10 ^ 9) + m mod 60 * (60 * 10 ^ 9) + (s mod 60 * 10 ^ 9 + u mod 10 ^ 9)"
      by (simp add: algebra_simps)
    finally show ?thesis .
  qed
  have "durationLoop 0 ((if 0 < h then showBase 10 h @ ''h'' else []) @ minutes @ seconds)
      = durationLoop (h * (3600 * 10 ^ 9)) (minutes @ seconds)"
    using loop_printed [OF units(6), of 0 "minutes @ seconds" 0 h] units(12) hd(1) sum assms(1) by simp
  also have "\<dots> = durationLoop (h * (3600 * 10 ^ 9) + m mod 60 * (60 * 10 ^ 9)) seconds"
    using loop_printed [OF units(5), of 0 seconds "h * (3600 * 10 ^ 9)" "m mod 60"] units(11) hd(2) sum assms(1)
    by (simp add: minutes_def)
  also have "\<dots> = durationLoop u []"
    using loop_printed [OF units(4), of u "[]" "h * (3600 * 10 ^ 9) + m mod 60 * (60 * 10 ^ 9)" "s mod 60"]
      units(10) sum [symmetric] assms(1) by (simp add: seconds_def)
  finally show ?thesis by (simp add: minutes_def seconds_def durationLoop_end)
qed

lemma loop_magnitude:
  assumes "u \<le> 2 ^ 63"
  shows "durationLoop 0 (magnitudeText u) = Some u"
proof -
  consider "u = 0" | "0 < u" "u < 10 ^ 3" | "10 ^ 3 \<le> u" "u < 10 ^ 6" | "10 ^ 6 \<le> u" "u < 10 ^ 9" | "10 ^ 9 \<le> u"
    by linarith
  then show ?thesis
  proof cases
    case 1
    have "durationLoop 0 (magnitudeText 0) = Some 0" by code_simp
    with 1 show ?thesis by simp
  next
    case 2
    then show ?thesis
      using loop_printed [OF units(1), of 0 "[]" 0 u] units(7) assms by (simp add: magnitudeText_def durationLoop_end)
  next
    case 3
    then show ?thesis
      using loop_printed [OF units(2), of u "[]" 0 "u div 10 ^ 3"] units(8) assms
      by (simp add: magnitudeText_def durationLoop_end)
  next
    case 4
    then show ?thesis
      using loop_printed [OF units(3), of u "[]" 0 "u div 10 ^ 6"] units(9) assms
      by (simp add: magnitudeText_def durationLoop_end)
  next
    case 5
    then have "u \<noteq> 0" "\<not> u < 10 ^ 3" "\<not> u < 10 ^ 6" "\<not> u < 10 ^ 9" by auto
    then show ?thesis
      by (simp only: magnitudeText_def Let_def if_False loop_clock [OF assms])
  qed
qed

lemma magnitudeText_start: "\<exists>c t. magnitudeText u = c # t \<and> isDigit c \<and> t \<noteq> []"
proof -
  have start: "\<exists>c r. showBase 10 n @ t = c # r \<and> isDigit c \<and> r \<noteq> []" if "t \<noteq> []" for n t
    using showBase_isDigit [of n] that by (cases "showBase 10 n") (auto simp: showBase_not_Nil)
  have "isDigit (CHR ''0'')" by code_simp
  moreover have "fracText 9 u @ ''s'' \<noteq> []" "micro @ ''s'' \<noteq> []" by simp_all
  ultimately show ?thesis
    unfolding magnitudeText_def Let_def by (auto simp only: append_assoc append_Nil intro!: start split: if_splits)
qed

lemma ParseDuration_text:
  assumes "- (2 ^ 63) \<le> d" and "d < 2 ^ 63"
  shows "ParseDuration (durationText d) = Some d"
proof -
  let ?u = "nat \<bar>d\<bar>"
  have loop: "durationLoop 0 (magnitudeText ?u) = Some ?u" using assms by (intro loop_magnitude) auto
  obtain c t where m: "magnitudeText ?u = c # t" "isDigit c" "t \<noteq> []" using magnitudeText_start by blast
  have "c \<noteq> CHR ''-''" "c \<noteq> CHR ''+''" "c \<noteq> CHR ''0'' \<or> t \<noteq> []" using m(2,3) by (auto simp: isDigit_def)
  with m loop assms show ?thesis by (cases "d < 0") (auto simp: ParseDuration_def durationText_magnitude Let_def)
qed

end
