(* ===== verification/Args.thy ===== *)
theory Args
  imports Client Duration
begin

text \<open>
  The command line: \<^verbatim>\<open>parseFlags\<close> of \<^verbatim>\<open>cmd/moqsub/main.go\<close> with the part of Go's \<^verbatim>\<open>flag\<close> package it uses, from the
  arguments of the process to the configuration of the session.  \<^verbatim>\<open>flag.Parse\<close> ends the process when it
  cannot go on: with status 0 after it has printed the help, with status 2 after an error.
\<close>

datatype 'a process = Exits nat | Goes 'a

subsection \<open>The flags of the program\<close>

text \<open>The values of the flags, with the defaults of the program.\<close>

record Flags =
  flRelay :: string
  flNamespace :: string
  flInsecure :: bool
  flAlpn :: string
  flOutput :: string
  flFFmpegCmd :: string
  flFFplayCmd :: string
  flPipeCmd :: string
  flLogFormat :: string
  flRichLog :: string
  flTimeout :: int

definition defaultFlags :: Flags where
  "defaultFlags =
     \<lparr>flRelay = ''moqt://localhost:4443'', flNamespace = ''anon/bbb'', flInsecure = False,
      flAlpn = Draft18ALPN, flOutput = ModeStdout, flFFmpegCmd = [], flFFplayCmd = [],
      flPipeCmd = [], flLogFormat = ''text'', flRichLog = [], flTimeout = 10 * 10 ^ 9\<rparr>"

text \<open>\<^verbatim>\<open>strconv.ParseBool\<close>.\<close>

definition ParseBool :: "string \<Rightarrow> bool option" where
  "ParseBool s =
     (if s \<in> {''1'', ''t'', ''T'', ''true'', ''TRUE'', ''True''} then Some True
      else if s \<in> {''0'', ''f'', ''F'', ''false'', ''FALSE'', ''False''} then Some False
      else None)"

definition flagNames :: "string list" where
  "flagNames = [''relay'', ''namespace'', ''insecure'', ''alpn'', ''output'', ''ffmpeg-cmd'', ''ffplay-cmd'',
     ''pipe-cmd'', ''log-format'', ''rich-log'', ''handshake-timeout'']"

text \<open>Setting a flag by its name; \<open>None\<close> when the text is not a value of its type.\<close>

definition setFlag :: "string \<Rightarrow> string \<Rightarrow> Flags \<Rightarrow> Flags option" where
  "setFlag name v fl =
     (if name = ''relay'' then Some (fl\<lparr>flRelay := v\<rparr>)
      else if name = ''namespace'' then Some (fl\<lparr>flNamespace := v\<rparr>)
      else if name = ''insecure'' then map_option (\<lambda>b. fl\<lparr>flInsecure := b\<rparr>) (ParseBool v)
      else if name = ''alpn'' then Some (fl\<lparr>flAlpn := v\<rparr>)
      else if name = ''output'' then Some (fl\<lparr>flOutput := v\<rparr>)
      else if name = ''ffmpeg-cmd'' then Some (fl\<lparr>flFFmpegCmd := v\<rparr>)
      else if name = ''ffplay-cmd'' then Some (fl\<lparr>flFFplayCmd := v\<rparr>)
      else if name = ''pipe-cmd'' then Some (fl\<lparr>flPipeCmd := v\<rparr>)
      else if name = ''log-format'' then Some (fl\<lparr>flLogFormat := v\<rparr>)
      else if name = ''rich-log'' then Some (fl\<lparr>flRichLog := v\<rparr>)
      else if name = ''handshake-timeout'' then map_option (\<lambda>d. fl\<lparr>flTimeout := d\<rparr>) (ParseDuration v)
      else None)"

subsection \<open>\<^verbatim>\<open>flag.Parse\<close>\<close>

datatype flagStep = Seen Flags "string list" | Finished "string list" | Fails nat

definition putValue :: "string \<Rightarrow> string \<Rightarrow> string list \<Rightarrow> Flags \<Rightarrow> flagStep" where
  "putValue name v rest fl = (case setFlag name v fl of Some fl' \<Rightarrow> Seen fl' rest | None \<Rightarrow> Fails 2)"

text \<open>\<^verbatim>\<open>FlagSet.parseOne\<close>, from the look-up of the flag on and from its beginning.\<close>

definition flagNamed :: "string \<Rightarrow> string option \<Rightarrow> string list \<Rightarrow> Flags \<Rightarrow> flagStep" where
  "flagNamed name value rest fl =
     (if name \<notin> set flagNames then Fails (if name \<in> {''help'', ''h''} then 0 else 2)
      else if name = ''insecure'' then putValue name (case value of Some v \<Rightarrow> v | None \<Rightarrow> ''true'') rest fl
      else (case value of
          Some v \<Rightarrow> putValue name v rest fl
        | None \<Rightarrow> (case rest of [] \<Rightarrow> Fails 2 | v # rest' \<Rightarrow> putValue name v rest' fl)))"

definition parseOne :: "Flags \<Rightarrow> string list \<Rightarrow> flagStep" where
  "parseOne fl args =
     (case args of
        [] \<Rightarrow> Finished []
      | s # rest \<Rightarrow>
          if length s < 2 \<or> hd s \<noteq> CHR ''-'' then Finished args
          else if s = ''--'' then Finished rest
          else
            let name = (if s ! 1 = CHR ''-'' then drop 2 s else drop 1 s)
            in if name = [] \<or> hd name \<in> {CHR ''-'', CHR ''=''} then Fails 2
               else (let (name, value) = cutAt (CHR ''='') name in flagNamed name value rest fl))"

lemma putValue_Seen: "putValue name v rest fl = Seen fl' args \<Longrightarrow> args = rest"
  by (simp add: putValue_def split: option.splits)

lemma flagNamed_Seen: "flagNamed name value rest fl = Seen fl' args \<Longrightarrow> length args \<le> length rest"
  by (auto simp: flagNamed_def dest!: putValue_Seen split: list.splits if_splits option.splits)

lemma parseOne_shorter: "parseOne fl args = Seen fl' rest \<Longrightarrow> length rest < length args"
  by (auto simp: parseOne_def Let_def le_imp_less_Suc dest!: flagNamed_Seen split: list.splits if_splits prod.splits)

text \<open>\<^verbatim>\<open>flag.Parse\<close>: the values of the flags, and the arguments that are left.\<close>

function flagParse :: "Flags \<Rightarrow> string list \<Rightarrow> (Flags \<times> string list) process" where
  "flagParse fl args =
     (case parseOne fl args of
        Seen fl' rest \<Rightarrow> flagParse fl' rest
      | Finished rest \<Rightarrow> Goes (fl, rest)
      | Fails n \<Rightarrow> Exits n)"
  by pat_completeness auto
termination
  by (relation "measure (\<lambda>(fl, args). length args)") (auto dest: parseOne_shorter)

declare flagParse.simps [simp del]

subsection \<open>The configuration\<close>

definition configOf :: "Flags \<Rightarrow> (Config \<times> string) outcome" where
  "configOf fl =
     (if flOutput fl \<in> {ModeStdout, ModeFFmpeg, ModeFFplay, ModeCommand} then
        Ok (\<lparr>cfgRelayURI = flRelay fl, cfgNamespace = flNamespace fl,
             cfgOutput = \<lparr>mcMode = flOutput fl, mcFFmpegCmd = flFFmpegCmd fl,
                          mcFFplayCmd = flFFplayCmd fl, mcPipeCmd = flPipeCmd fl\<rparr>,
             cfgClient = \<lparr>ccRelayURI = flRelay fl, ccInsecureSkipTLS = flInsecure fl,
                          ccALPN = flAlpn fl, ccHandshakeTimeout = flTimeout fl\<rparr>,
             cfgRichLogPath = flRichLog fl\<rparr>, flLogFormat fl)
      else Err (Errorf ''invalid output mode: %s'' [FStr (flOutput fl)]))"

text \<open>\<^verbatim>\<open>parseFlags\<close>, of the arguments of the process; those left over are not looked at.\<close>

definition parseFlags :: "string list \<Rightarrow> (Config \<times> string) outcome process" where
  "parseFlags args =
     (case flagParse defaultFlags args of
        Exits n \<Rightarrow> Exits n
      | Goes (fl, _) \<Rightarrow> Goes (configOf fl))"

subsection \<open>Writing a command line\<close>

text \<open>The ways to write a setting, one or two arguments; a flag that needs no value is set to true without one.\<close>

definition spellings :: "string \<Rightarrow> string \<Rightarrow> string list list" where
  "spellings name v =
     concat (map (\<lambda>m. [m @ name @ ''='' @ v]
         # (if name \<noteq> ''insecure'' then [[m @ name, v]] else if v = ''true'' then [[m @ name]] else []))
       [''-'', ''--''])"

abbreviation spelled :: "(string \<times> string) list \<Rightarrow> string list list \<Rightarrow> bool" where
  "spelled \<equiv> list_all2 (\<lambda>(name, v) args. args \<in> set (spellings name v))"

fun applyAll :: "(string \<times> string) list \<Rightarrow> Flags \<Rightarrow> Flags option" where
  "applyAll [] fl = Some fl"
| "applyAll ((name, v) # rest) fl = Option.bind (setFlag name v fl) (\<lambda>fl'. applyAll rest fl')"

definition isFlag :: "string \<Rightarrow> bool" where
  "isFlag s \<longleftrightarrow> 2 \<le> length s \<and> hd s = CHR ''-''"

text \<open>One setting for each flag.\<close>

definition settingsOf :: "Flags \<Rightarrow> (string \<times> string) list" where
  "settingsOf fl =
     [(''relay'', flRelay fl), (''namespace'', flNamespace fl),
      (''insecure'', if flInsecure fl then ''true'' else ''false''), (''alpn'', flAlpn fl), (''output'', flOutput fl),
      (''ffmpeg-cmd'', flFFmpegCmd fl), (''ffplay-cmd'', flFFplayCmd fl), (''pipe-cmd'', flPipeCmd fl),
      (''log-format'', flLogFormat fl), (''rich-log'', flRichLog fl), (''handshake-timeout'', durationText (flTimeout fl))]"

subsection \<open>Lemmas\<close>

abbreviation plainName :: "string \<Rightarrow> bool" where
  "plainName name \<equiv> name \<noteq> [] \<and> hd name \<noteq> CHR ''-'' \<and> CHR ''='' \<notin> set name"

lemma flagNames_plain: "name \<in> set flagNames \<Longrightarrow> plainName name"
proof -
  have "\<forall>name\<in>set flagNames. plainName name" by code_simp
  then show "name \<in> set flagNames \<Longrightarrow> plainName name" by (rule bspec)
qed

lemma setFlag_known: "setFlag name v fl = Some fl' \<Longrightarrow> name \<in> set flagNames"
  by (simp add: setFlag_def flagNames_def split: if_splits)

text \<open>How \<open>parseOne\<close> takes a dashed argument apart.\<close>

lemma parseOne_dashed:
  assumes "m \<in> {''-'', ''--''}" and "plainName name"
  shows "parseOne fl ((m @ name @ ''='' @ v) # rest) = flagNamed name (Some v) rest fl"
    and "parseOne fl ((m @ name) # rest) = flagNamed name None rest fl"
proof -
  obtain c n where n: "name = c # n" "c \<noteq> CHR ''-''" "c \<noteq> CHR ''=''" using assms(2) by (cases name) auto
  have dashed: "parseOne fl ((m @ name @ t) # rest)
      = (let (name, value) = cutAt (CHR ''='') (name @ t) in flagNamed name value rest fl)" for t
    using assms(1) n by (auto simp: parseOne_def)
  show "parseOne fl ((m @ name @ ''='' @ v) # rest) = flagNamed name (Some v) rest fl"
    unfolding dashed using assms(2) by (simp add: cutAt_some)
  show "parseOne fl ((m @ name) # rest) = flagNamed name None rest fl"
    using dashed [of "[]"] assms(2) by (simp add: cutAt_none)
qed

lemma flagNamed_known:
  assumes "name \<in> set flagNames"
  shows "flagNamed name (Some v) rest fl = putValue name v rest fl"
    and "name \<noteq> ''insecure'' \<Longrightarrow> flagNamed name None (v # rest) fl = putValue name v rest fl"
    and "name \<noteq> ''insecure'' \<Longrightarrow> flagNamed name None [] fl = Fails 2"
    and "name = ''insecure'' \<Longrightarrow> flagNamed name None rest fl = putValue name ''true'' rest fl"
  using assms by (simp_all add: flagNamed_def del: set_simps)

lemma spellings_cases:
  assumes "args \<in> set (spellings name v)"
  obtains m where "m \<in> {''-'', ''--''}"
    and "args = [m @ name @ ''='' @ v] \<or> name \<noteq> ''insecure'' \<and> args = [m @ name, v]
        \<or> name = ''insecure'' \<and> v = ''true'' \<and> args = [m @ name]"
proof -
  from assms have "\<exists>m\<in>{''-'', ''--''}. (args = [m @ name @ ''='' @ v] \<or> name \<noteq> ''insecure'' \<and> args = [m @ name, v]
        \<or> name = ''insecure'' \<and> v = ''true'' \<and> args = [m @ name])"
    unfolding spellings_def by (simp split: if_splits) blast+
  then show thesis by (rule bexE) (rule that)
qed

lemma parseOne_spelling:
  assumes "args \<in> set (spellings name v)" and "name \<in> set flagNames"
  shows "parseOne fl (args @ left) = putValue name v left fl"
proof -
  obtain m where m: "m \<in> {''-'', ''--''}"
      and c: "args = [m @ name @ ''='' @ v] \<or> name \<noteq> ''insecure'' \<and> args = [m @ name, v]
        \<or> name = ''insecure'' \<and> v = ''true'' \<and> args = [m @ name]"
    using assms(1) by (rule spellings_cases)
  note dashed = parseOne_dashed [OF m flagNames_plain [OF assms(2)]] and known = flagNamed_known [OF assms(2)]
  from c show ?thesis
  proof (elim disjE conjE)
    assume "args = [m @ name @ ''='' @ v]"
    then show ?thesis using dashed(1) known(1) by (simp only: append_Cons append_Nil)
  next
    assume "name \<noteq> ''insecure''" "args = [m @ name, v]"
    then show ?thesis using dashed(2) known(2) by (simp only: append_Cons append_Nil simp_thms)
  next
    assume "name = ''insecure''" "v = ''true''" "args = [m @ name]"
    then show ?thesis using dashed(2) known(4) by (simp only: append_Cons append_Nil)
  qed
qed

lemma flagParse_settings:
  "spelled settings argss \<Longrightarrow> applyAll settings fl = Some fl' \<Longrightarrow> flagParse fl (concat argss @ left) = flagParse fl' left"
proof (induction settings argss arbitrary: fl rule: list_all2_induct)
  case (Cons x settings args argss)
  obtain name v where x: "x = (name, v)" by force
  then obtain fl1 where f: "setFlag name v fl = Some fl1" "applyAll settings fl1 = Some fl'"
    using Cons.prems by (auto simp: bind_eq_Some_conv)
  have "parseOne fl (args @ concat argss @ left) = Seen fl1 (concat argss @ left)"
    using parseOne_spelling [of args name v] setFlag_known [OF f(1)] Cons.hyps(1) f(1) by (simp add: x putValue_def)
  then show ?case using Cons.IH [OF f(2)] by (simp add: flagParse.simps [of fl])
qed simp

lemma flagParse_stops: "left = [] \<or> \<not> isFlag (hd left) \<Longrightarrow> flagParse fl left = Goes (fl, left)"
  by (cases left) (auto simp: flagParse.simps [of fl] parseOne_def isFlag_def)

lemma applyAll_settingsOf:
  "- (2 ^ 63) \<le> flTimeout fl \<Longrightarrow> flTimeout fl < 2 ^ 63 \<Longrightarrow> applyAll (settingsOf fl) fl' = Some fl"
  by (simp add: settingsOf_def setFlag_def ParseBool_def ParseDuration_text)

subsection \<open>Properties\<close>

text \<open>The output modes of the command line.  The command line accepts exactly the modes that
  \<^verbatim>\<open>NewSink\<close> knows: with a configuration it returns a sink is made when the system cooperates, except in
  mode command without a command, the one gap of the check; a mode it refuses is one for which no sink
  could be made.  The default flags write to standard output.\<close>

theorem output_modes:
  "(case configOf fl of
      Ok (cfg, fmt) \<Rightarrow> (\<exists>s. NewSink None (\<lambda>_. None) (cfgOutput cfg) = Ok s)
          \<longleftrightarrow> \<not> (flOutput fl = ''command'' \<and> flPipeCmd fl = [])
    | Err e \<Rightarrow> (\<forall>mc p st. mcMode mc = flOutput fl \<longrightarrow>
          NewSink p st mc = Err (Errorf ''unknown output mode: %q'' [FStr (flOutput fl)]))
    | Panic \<Rightarrow> False)
   \<and> (\<exists>cfg. configOf defaultFlags = Ok (cfg, ''text'')
        \<and> NewSink p st (cfgOutput cfg) = Ok \<lparr>skMode = ''stdout'', skW = Some StdoutNopCloser, skCmd = None,
            skWaited = False, skWaitE = None\<rparr>)"
proof -
  have "configOf fl \<noteq> Panic" by (simp add: configOf_def)
  moreover have "\<exists>cfg. configOf defaultFlags = Ok (cfg, ''text'')
        \<and> NewSink p st (cfgOutput cfg) = Ok \<lparr>skMode = ''stdout'', skW = Some StdoutNopCloser, skCmd = None,
            skWaited = False, skWaitE = None\<rparr>"
    by (simp add: configOf_def defaultFlags_def NewSink_def mode_names)
  moreover have "(\<exists>s. NewSink None (\<lambda>_. None) (cfgOutput cfg) = Ok s)
          \<longleftrightarrow> \<not> (flOutput fl = ''command'' \<and> flPipeCmd fl = [])" if "configOf fl = Ok (cfg, fmt)" for cfg fmt
    using that by (auto simp: configOf_def NewSink_def Let_def startCommandSink_def mode_names
        split: if_splits)
  moreover have "NewSink p st mc = Err (Errorf ''unknown output mode: %q'' [FStr (flOutput fl)])"
    if "configOf fl = Err e" "mcMode mc = flOutput fl" for e mc p st
    using that by (auto simp: configOf_def NewSink_def Let_def split: if_splits)
  ultimately show ?thesis by (auto split: outcome.splits)
qed

theorem output_modes_witness:
  "NewSink None (\<lambda>_. None) \<lparr>mcMode = ''vlc'', mcFFmpegCmd = [], mcFFplayCmd = [], mcPipeCmd = []\<rparr>
     = Err (Errorf ''unknown output mode: %q'' [FStr ''vlc''])"
proof -
  let ?fl = "defaultFlags\<lparr>flOutput := ''vlc''\<rparr>"
  have p: "configOf ?fl = Err (Errorf ''invalid output mode: %s'' [FStr ''vlc''])"
    by (simp add: configOf_def mode_names)
  show ?thesis using output_modes [of ?fl None "\<lambda>_. None"] unfolding p by simp
qed




text \<open>C37: What ends the process before it does anything.  After any valid settings, an unknown flag, a value that its flag
  does not take and a flag without its value end it with status 2, and a request for help with status 0.
\<close>

theorem command_line_refused:
  assumes "spelled settings argss" and "applyAll settings defaultFlags = Some fl" and "m \<in> {''-'', ''--''}"
    and "(bad, status) \<in>
        {(args, 2) | args name v. name \<in> set flagNames \<and> setFlag name v fl = None \<and> args \<in> set (spellings name v)}
      \<union> {((m @ name) # left, if name \<in> {''help'', ''h''} then 0 else 2) | name left.
           name \<noteq> [] \<and> hd name \<noteq> CHR ''-'' \<and> CHR ''='' \<notin> set name \<and> name \<notin> set flagNames}
      \<union> {([m @ name], 2) | name. name \<in> set flagNames \<and> name \<noteq> ''insecure''}"
  shows "parseFlags (concat argss @ bad) = Exits status"
proof -
  consider (unfit) name v where "name \<in> set flagNames" "setFlag name v fl = None" "bad \<in> set (spellings name v)" "status = 2"
    | (unknown) name left where "bad = (m @ name) # left" "plainName name" "name \<notin> set flagNames"
        "status = (if name \<in> {''help'', ''h''} then 0 else 2)"
    | (missing) name where "bad = [m @ name]" "name \<in> set flagNames" "name \<noteq> ''insecure''" "status = 2"
    using assms(4) by blast
  then have "parseOne fl bad = Fails status"
  proof cases
    case unfit
    then show ?thesis using parseOne_spelling [of bad name v fl "[]"] by (simp add: putValue_def)
  next
    case unknown
    then show ?thesis using parseOne_dashed(2) [OF assms(3), of name] by (simp add: flagNamed_def)
  next
    case missing
    then show ?thesis
      using parseOne_dashed(2) [OF assms(3) flagNames_plain, of name] flagNamed_known(3) by simp
  qed
  then show ?thesis
    using flagParse_settings [OF assms(1,2)] by (simp add: parseFlags_def flagParse.simps [of fl])
qed

theorem command_line_refused_witness:
  "parseFlags [''--insecure=maybe''] = Exits 2 \<and> parseFlags [''-relay=moqt://r'', ''-h''] = Exits 0"
proof
  have a: "spelled [] []" "applyAll [] defaultFlags = Some defaultFlags" "''-'' \<in> {''-'', ''--''}" by simp_all
  have v: "''insecure'' \<in> set flagNames" "setFlag ''insecure'' ''maybe'' defaultFlags = None"
    "[''--insecure=maybe''] \<in> set (spellings ''insecure'' ''maybe'')"
    by (simp_all add: flagNames_def setFlag_def ParseBool_def spellings_def)
  have "parseFlags (concat [] @ [''--insecure=maybe'']) = Exits 2"
    by (rule command_line_refused [OF a]) (use v in blast)
  then show "parseFlags [''--insecure=maybe''] = Exits 2" by (simp only: concat.simps append_Nil)
  have b: "spelled [(''relay'', ''moqt://r'')] [[''-relay=moqt://r'']]"
    "applyAll [(''relay'', ''moqt://r'')] defaultFlags = Some (defaultFlags\<lparr>flRelay := ''moqt://r''\<rparr>)"
    by (simp_all add: spellings_def setFlag_def)
  have h: "plainName ''h''" "''h'' \<notin> set flagNames" "(0 :: nat) = (if ''h'' \<in> {''help'', ''h''} then 0 else 2)"
    by (simp_all add: flagNames_def)
  have "parseFlags (concat [[''-relay=moqt://r'']] @ [''-'' @ ''h'']) = Exits 0"
    by (rule command_line_refused [OF b a(3)]) (use h in blast)
  then show "parseFlags [''-relay=moqt://r'', ''-h''] = Exits 0" by (simp only: concat.simps append_Cons append_Nil)
qed

end
