(* ===== verification/Command.thy ===== *)
theory Command
  imports Args
begin

text \<open>
  The process around a session: \<^verbatim>\<open>main\<close> of \<^verbatim>\<open>cmd/moqsub/main.go\<close> and the logger of
  \<^verbatim>\<open>internal/debuglog/logger.go\<close>.  \<open>exitStatus\<close> is the status of a process whose \<^verbatim>\<open>Run\<close> has returned
  \<open>result\<close>; what is printed to standard error is left out.  An attribute of \<^verbatim>\<open>slog\<close> is its key with its
  value, of which the code tells only times and strings apart; \<open>zone\<close> is the local time zone.
\<close>

definition exitStatus :: "(Config \<times> string) outcome process \<Rightarrow> gerr option \<Rightarrow> nat" where
  "exitStatus parsed result =
     (case parsed of
        Goes (Ok (cfg, logFormat)) \<Rightarrow>
          (case result of
             Some err \<Rightarrow> if errorsIs err ErrCanceled then 0 else 1
           | None \<Rightarrow> 0)
      | Goes _ \<Rightarrow> 2
      | Exits n \<Rightarrow> n)"

subsection \<open>The logger\<close>

datatype 'v attrValue = AVTime int | AVString string | AVOther 'v | AVNil

datatype handlerKind = JSONHandler | TextHandler

text \<open>\<^verbatim>\<open>opts.ReplaceAttr\<close>; an empty attribute is dropped by the handler, and \<^verbatim>\<open>Value.Time\<close> panics on
  a value that is not a time.\<close>

definition replaceAttr ::
    "(int \<Rightarrow> int) \<Rightarrow> string list \<Rightarrow> string \<times> 'v attrValue \<Rightarrow> (string \<times> 'v attrValue) outcome" where
  "replaceAttr zone groups a =
     (if 0 < length groups then Ok a
      else if fst a = ''time'' then
        (case snd a of AVTime t \<Rightarrow> Ok (''time'', AVString (clockText zone t)) | _ \<Rightarrow> Panic)
      else if fst a = ''level'' then Ok ([], AVNil)
      else Ok a)"

text \<open>A logger: its handler, the lowest level it logs, and the rewriting of the attributes.\<close>

definition levelDebug :: int where "levelDebug = - 4"

record 'v Logger =
  lgHandler :: handlerKind
  lgLevel :: int
  lgReplace :: "string list \<Rightarrow> string \<times> 'v attrValue \<Rightarrow> (string \<times> 'v attrValue) outcome"

definition newLogger :: "(int \<Rightarrow> int) \<Rightarrow> string \<Rightarrow> 'v Logger" where
  "newLogger zone format =
     \<lparr>lgHandler = (if format = ''json'' then JSONHandler else TextHandler), lgLevel = levelDebug,
      lgReplace = replaceAttr zone\<rparr>"

text \<open>What a handler of \<^verbatim>\<open>slog\<close> does with a record: the time, the level, the message and the attributes, each rewritten.\<close>

fun replaceAll ::
    "(string \<times> 'v attrValue \<Rightarrow> (string \<times> 'v attrValue) outcome) \<Rightarrow> (string \<times> 'v attrValue) list
      \<Rightarrow> (string \<times> 'v attrValue) list outcome" where
  "replaceAll f [] = Ok []"
| "replaceAll f (a # as) =
     obind (f a) (\<lambda>b. obind (replaceAll f as) (\<lambda>bs. Ok (if b = ([], AVNil) then bs else b # bs)))"

definition logRecord ::
    "'v Logger \<Rightarrow> int \<Rightarrow> int \<Rightarrow> string \<Rightarrow> string \<Rightarrow> (string \<times> 'v attrValue) list
      \<Rightarrow> (string \<times> 'v attrValue) list outcome" where
  "logRecord lg t level levelText msg attrs =
     (if level < lgLevel lg then Ok []
      else replaceAll (lgReplace lg [])
        ((''time'', AVTime t) # (''level'', AVString levelText) # (''msg'', AVString msg) # attrs))"

lemma replaceAll_kept:
  "list_all (\<lambda>a. fst a \<noteq> ''time'' \<and> fst a \<noteq> ''level'' \<and> fst a \<noteq> []) attrs \<Longrightarrow>
     replaceAll (replaceAttr zone []) attrs = Ok attrs"
  by (induction attrs) (auto simp: replaceAttr_def)

text \<open>
  A line of the log: the time of day, the message, and the attributes as the program gave them; no attribute of the
  program is named time or level, so none is lost and none makes the logger panic.
\<close>

lemma logRecord_line:
  assumes "levelDebug \<le> level" and "list_all (\<lambda>a. fst a \<noteq> ''time'' \<and> fst a \<noteq> ''level'' \<and> fst a \<noteq> []) attrs"
  shows "logRecord (newLogger zone format) t level levelText msg attrs
    = Ok ((''time'', AVString (clockText zone t)) # (''msg'', AVString msg) # attrs)"
  using assms(1) replaceAll_kept [OF assms(2), of zone]
  by (simp add: logRecord_def newLogger_def replaceAttr_def)

end
