(* ===== verification/SessionTheorems.thy ===== *)
theory SessionTheorems
  imports Scenario Progress Command
begin

text \<open>
  The theorems about reachable sessions: what any interleaving of the goroutines, with any bytes from
  the relay, can and cannot do.  Each rests on the invariant \<open>sessionOK\<close>; the last ones add what is
  known about the closing of a session and about panics.  The witnesses are places of the computed
  run \<open>demo\<close>.
\<close>

subsection \<open>Writes of a step\<close>

lemma mainStep_writes:
  assumes "mainStep w k pc r = Some (pc', r', q)"
  shows "rnWrites r' = rnWrites r
    \<or> (\<exists>p i m. pc = MWriteInit p i m \<and> rnWrites r' = rnWrites r @ [(p, wWerr w)])"
proof (cases pc)
  case (MNew ph)
  with assms show ?thesis
    by (auto simp: mainStep_defs newTrackSubscription_def Let_def split: prod.splits)
next
  case (MWaitOK ph s)
  with assms show ?thesis
    by (auto simp: mainStep_defs split: option.splits dest: waitSubscribeOK_quiet(2))
next
  case (MWaitObj ph s)
  with assms show ?thesis
    using waitFirstObject_quiet(2) afterObject_quiet(3)
    by (auto simp: mainStep_defs split: option.splits sum.splits prod.splits)
next
  case MLoop
  with assms show ?thesis
    by (auto simp: mainStep_defs Let_def split: wake.splits prod.splits dest: loopError_quiet(3))
next
  case (MSetup u)
  with assms show ?thesis
    by (auto simp: mainStep_defs split: prod.splits option.splits dest: sendClientSetup_quiet(3))
next
  case (MSend ph s)
  with assms show ?thesis
    by (auto simp: mainStep_defs split: prod.splits sum.splits dest: sendSubscribe_quiet(2))
qed (use assms in \<open>auto simp: mainStep_defs writePayload_def countBytes_def
       split: outcome.splits prod.splits option.splits wake.splits if_splits\<close>)

lemma step_writes:
  assumes "step s s'"
  shows "rnWrites (ssRunner s') = rnWrites (ssRunner s)
    \<or> (\<exists>p i m e. ssMain s = MWriteInit p i m \<and> rnWrites (ssRunner s') = rnWrites (ssRunner s) @ [(p, e)])
    \<or> (\<exists>t\<in>set (ssUni s). \<exists>h m sr ob e. usPC t = UWrite h m sr ob
         \<and> rnWrites (ssRunner s') = rnWrites (ssRunner s) @ [(Payload ob, e)])"
  using assms
proof cases
  case (step_main k w pc r q)
  with mainStep_writes [OF step_main(5)] show ?thesis by auto
next
  case (step_receive e es w pc r q)
  with mainStep_writes [OF step_receive(5)] show ?thesis by auto
next
  case (step_uni i now werr t r)
  then have "ssUni s ! i \<in> set (ssUni s)" by simp
  with uniStep_writes [OF step_uni(5)] step_uni(1) show ?thesis
    by (elim disjE exE conjE) (simp, intro disjI2 bexI [of _ "ssUni s ! i"], auto)
next
  case (step_req i now t r)
  have "rnWrites r = rnWrites (ssRunner s)"
    using step_req(4)
    by (auto simp: reqStep_def stepRequest_def sendOk_def logSubscribeRejected_def Let_def
        split: reqPC.splits prod.splits outcome.splits if_splits)
  with step_req(1) show ?thesis by simp
qed simp_all

text \<open>Media is only written to an output that has its init segment.\<close>

lemma media_writes_late:
  assumes "sessionOK s" and "t \<in> set (ssUni s)" and "usPC t = UWrite h m sr ob"
  shows "initFirst (rnWrites (ssRunner s))" "m < length (rnStore (ssRunner s))"
    "subRole (rnStore (ssRunner s) ! m) = roleMedia" "\<not> IsStatusObject ob"
proof -
  from sessionOK_D(3) [OF assms(1,2)] assms(3)
  have pc: "m < length (rnStore (ssRunner s)) \<and> roles (ssRunner s) ! m = roleMedia \<and> \<not> IsStatusObject ob" by simp
  then show "m < length (rnStore (ssRunner s))" "subRole (rnStore (ssRunner s) ! m) = roleMedia"
    "\<not> IsStatusObject ob" by auto
  from pc show "initFirst (rnWrites (ssRunner s))"
    using mainOK_media [OF sessionOK_D(2) [OF assms(1)], of m] by simp
qed

subsection \<open>The connection and the closing\<close>

lemma uniStep_conn:
  "uniStep now werr t r = (t', r') \<Longrightarrow> rnControlStream r' = rnControlStream r \<and> rnCfg r' = rnCfg r"
  by (cases "usPC t")
    (auto simp: uniStep_def stepStart_def stepCtlFirst_def stepCtlLoop_def stepControl_def stepHeader_def
      stepNext_def stepDeliver_def stepDelivered_def writePayload_def sendFirst_def dispatchControlMessage_def
      beginSubgroup_def richAdd_def updStats_def updSub_def countObject_def logObject_def richAddObject_def
      recordFirstObject_def countBytes_def Let_def
      split: prod.splits outcome.splits option.splits if_splits trackRole.splits)

lemma reqStep_conn:
  "reqStep now t r = (t', r') \<Longrightarrow> rnControlStream r' = rnControlStream r \<and> rnCfg r' = rnCfg r"
  by (auto simp: reqStep_def stepRequest_def sendOk_def logSubscribeRejected_def richAdd_def updSub_def Let_def
      split: reqPC.splits prod.splits outcome.splits if_splits)

lemma sendSubscribe_conn:
  "sendSubscribeMessage opened werr now s r = (x, r') \<Longrightarrow> rnControlStream r' = rnControlStream r \<and> rnCfg r' = rnCfg r"
  by (auto simp: sendSubscribeMessage_def Let_def richAdd_def updSub_def
      split: sum.splits outcome.splits prod.splits option.splits)

lemma sendClientSetup_cfg:
  "sendClientSetup opened werr now u r = (e, r') \<Longrightarrow> rnCfg r' = rnCfg r"
  by (auto simp: sendClientSetup_def Let_def richAdd_def split: sum.splits outcome.splits prod.splits option.splits)

lemma waits_conn:
  "waitSubscribeOK k s r = Some (x, r') \<Longrightarrow> rnControlStream r' = rnControlStream r \<and> rnCfg r' = rnCfg r"
  "waitFirstObject k s r = Some (y, r') \<Longrightarrow> rnControlStream r' = rnControlStream r \<and> rnCfg r' = rnCfg r"
  by (auto simp: waitSubscribeOK_def waitFirstObject_def updSub_def
      split: wake.splits list.splits option.splits)

lemma after_conn:
  "afterObject w ph p r = Some (pc, r') \<Longrightarrow> rnControlStream r' = rnControlStream r \<and> rnCfg r' = rnCfg r"
  "loopError e r = (pc, r') \<Longrightarrow> rnControlStream r' = rnControlStream r \<and> rnCfg r' = rnCfg r"
  by (auto simp: afterObject_def loopError_def richAdd_def updStats_def Let_def
      split: phase.splits outcome.splits if_splits)

text \<open>Nothing subscribed to, nothing written.\<close>

definition untouched :: "Runner \<Rightarrow> bool" where
  "untouched r \<longleftrightarrow> rnStore r = [] \<and> rnWrites r = []"

text \<open>The places before there is a connection with an output.\<close>

fun offline :: "mainPC \<Rightarrow> bool" where
  "offline MDial = True"
| "offline (MSink u) = True"
| "offline _ = False"

lemma mainStep_conn:
  assumes "mainStep w k pc r = Some (pc', r', q)"
  shows "rnCfg r' = rnCfg r \<and> (offline pc \<longrightarrow> rnControlStream r' = rnControlStream r \<and> (untouched r \<longrightarrow> untouched r'))
    \<and> (offline pc' \<longrightarrow> offline pc)"
  using assms
  by (cases pc)
    (auto simp: mainStep_defs Let_def newTrackSubscription_def writePayload_def countBytes_def waitOKPC_def
      loopError_def afterObject_def richAdd_def updStats_def untouched_def
      split: outcome.splits prod.splits option.splits sum.splits wake.splits if_splits phase.splits
      dest: sendClientSetup_cfg sendSubscribe_conn waits_conn)

lemma mainStep_returns:
  assumes "mainStep w k pc r = Some (MReturn None, r', q)"
  shows "pc = MLoop"
  using assms
  by (cases pc)
    (auto simp: mainStep_defs Let_def waitOKPC_def afterObject_def
      split: outcome.splits prod.splits option.splits sum.splits wake.splits if_splits phase.splits)

definition controlClosing :: "Runner \<Rightarrow> closing list" where
  "controlClosing r = (case rnControlStream r of None \<Rightarrow> [] | Some sid \<Rightarrow> [CloseControl sid])"

definition closedOK :: "Config \<Rightarrow> gerr option \<Rightarrow> closing list \<Rightarrow> Runner \<Rightarrow> bool" where
  "closedOK cfg e cl r \<longleftrightarrow> (\<exists>summary sink conn.
     cl = summary @ sink @ conn @ [WriteRichLog (cfgRichLogPath cfg)]
     \<and> (summary = [] \<and> e \<noteq> None \<or> (\<exists>x. summary = [LogSummary x]))
     \<and> (sink = [CloseSink] \<or> sink = [] \<and> untouched r)
     \<and> (conn = controlClosing r @ [CloseConn] \<or> conn = [] \<and> sink = [] \<and> rnControlStream r = None))"

lemma closedOK_I:
  "summary = [] \<and> e \<noteq> None \<or> (\<exists>x. summary = [LogSummary x]) \<Longrightarrow>
   sink = [CloseSink] \<or> sink = [] \<and> untouched r \<Longrightarrow>
   conn = controlClosing r @ [CloseConn] \<or> conn = [] \<and> sink = [] \<and> rnControlStream r = None \<Longrightarrow>
   closedOK cfg e (summary @ sink @ conn @ [WriteRichLog (cfgRichLogPath cfg)]) r"
  unfolding closedOK_def by blast

lemma closings_closedOK:
  assumes "mainStep w k pc r = Some (MReturn e, r', q)" and "rnCfg r = cfg"
    and "offline pc \<longrightarrow> rnControlStream r = None \<and> untouched r"
  shows "closedOK cfg e (closings now pc r') r'"
proof -
  have c: "rnCfg r' = cfg" "offline pc \<Longrightarrow> rnControlStream r' = None \<and> untouched r'"
    using mainStep_conn [OF assms(1)] assms(2,3) by auto
  have e: "pc \<noteq> MLoop \<Longrightarrow> e \<noteq> None" using mainStep_returns assms(1) by (cases e) auto
  note I = closedOK_I [of _ e _ r' _ cfg]
  have all: "closedOK cfg e (CloseSink # controlClosing r' @ CloseConn # [WriteRichLog (cfgRichLogPath cfg)]) r'"
    if "pc \<noteq> MLoop" using I [of "[]" "[CloseSink]"] e [OF that] by simp
  show ?thesis
  proof (cases pc)
    case MDial
    with I [of "[]" "[]" "[]"] c e show ?thesis by (simp add: closings_def)
  next
    case (MSink u)
    with I [of "[]" "[]" "[CloseConn]"] c e show ?thesis by (simp add: closings_def controlClosing_def)
  next
    case MLoop
    with I [of "[LogSummary (printSummary now r')]" "[CloseSink]"] c show ?thesis
      by (simp add: closings_def controlClosing_def Let_def)
  qed (use all c in \<open>simp_all add: closings_def controlClosing_def Let_def\<close>)
qed

lemma closedOK_same:
  "closedOK cfg e cl r \<Longrightarrow> rnControlStream r' = rnControlStream r \<Longrightarrow> untouched r' = untouched r \<Longrightarrow>
   closedOK cfg e cl r'"
  by (simp only: closedOK_def controlClosing_def)

definition shutdownOK :: "Config \<Rightarrow> session \<Rightarrow> bool" where
  "shutdownOK cfg s \<longleftrightarrow> rnCfg (ssRunner s) = cfg
     \<and> (offline (ssMain s) \<longrightarrow> rnControlStream (ssRunner s) = None \<and> untouched (ssRunner s))
     \<and> (\<forall>e. ssMain s = MReturn e \<longrightarrow> closedOK cfg e (ssClosing s) (ssRunner s))"

lemma shutdownOK_main:
  assumes "shutdownOK cfg s" and "mainStep w k (ssMain s) (ssRunner s) = Some (pc, r, q)"
    and "ssMain s' = pc" "ssRunner s' = r" "ssClosing s' = closingsAt now (ssMain s) pc r"
  shows "shutdownOK cfg s'"
  using assms mainStep_conn [OF assms(2)]
    closings_closedOK [of w k "ssMain s" "ssRunner s" _ r q cfg now]
  by (auto simp: shutdownOK_def closingsAt_def split: mainPC.splits)

lemma shutdownOK_other:
  assumes "shutdownOK cfg s" and "ssMain s' = ssMain s" "ssClosing s' = ssClosing s"
    and "rnControlStream (ssRunner s') = rnControlStream (ssRunner s) \<and> rnCfg (ssRunner s') = rnCfg (ssRunner s)"
    and "untouched (ssRunner s') = untouched (ssRunner s)"
  shows "shutdownOK cfg s'"
  using assms by (auto simp: shutdownOK_def intro: closedOK_same)

lemma reachable_shutdownOK: "reachable cfg s \<Longrightarrow> shutdownOK cfg s"
proof (induction rule: reachable.induct)
  case (reachable_start created now)
  then show ?case
    by (simp add: shutdownOK_def startSession_def newRunner_def Let_def updStats_def untouched_def)
next
  case (reachable_step s s')
  note ok = reachable_OK [OF reachable_step(1)]
  from reachable_step(2) show ?case
  proof cases
    case (step_main k w pc r q)
    then show ?thesis by (intro shutdownOK_main [OF reachable_step(3) step_main(5)]) simp_all
  next
    case (step_receive e es w pc r q)
    then show ?thesis by (intro shutdownOK_main [OF reachable_step(3) step_receive(5)]) simp_all
  next
    case (step_uni i now werr t r)
    have "handlerOK (ssRunner s) (usPC (ssUni s ! i)) r (usPC t)"
      by (rule uniStep_OK [OF step_uni(5)])
        (use sessionOK_D [OF ok] step_uni(3,4) in \<open>simp_all add: storeOK_def\<close>)
    then have len: "length (rnStore r) = length (rnStore (ssRunner s))" by (simp add: handlerOK_def keeps_length)
    have same: "untouched r = untouched (ssRunner s)"
    proof (cases "rnStore (ssRunner s) = []")
      case True
      then have "\<not> (\<exists>h m sr ob. usPC (ssUni s ! i) = UWrite h m sr ob)"
        using sessionOK_D(3) [OF ok, of "ssUni s ! i"] step_uni(3) by auto
      with uniStep_writes [OF step_uni(5)] have "rnWrites r = rnWrites (ssRunner s)" by auto
      with True len show ?thesis by (simp add: untouched_def)
    next
      case False
      with len have "rnStore r \<noteq> []" by (metis length_0_conv)
      with False show ?thesis by (simp add: untouched_def)
    qed
    show ?thesis
      by (intro shutdownOK_other [OF reachable_step(3)])
        (use step_uni(1) uniStep_conn [OF step_uni(5)] same in \<open>auto simp: handlerOK_def\<close>)
  next
    case (step_req i now t r)
    have "keeps (ssRunner s) r \<and> rnWrites r = rnWrites (ssRunner s)"
      using reqStep_OK [OF step_req(4)] sessionOK_D(4) [OF ok] step_req(3) by simp
    then have "untouched r = untouched (ssRunner s)" by (metis keeps_length length_0_conv untouched_def)
    then show ?thesis
      by (intro shutdownOK_other [OF reachable_step(3)])
        (use step_req(1) reqStep_conn [OF step_req(4)] in simp_all)
  qed (rule shutdownOK_other [OF reachable_step(3)], simp_all)+
qed

subsection \<open>Panics\<close>

lemma uniStep_panics:
  assumes "uniStep now werr t r = (t', r')" and "uniActive (usPC t)" and "usPC t' = UPanic"
  shows "\<exists>h sub sr rd. usPC t = UNext h sub sr \<and> Next sr (usReader t) = (Panic, rd)"
proof -
  have none: "ReadVarint rd \<noteq> (Panic, rd')" "ReadFrame rd \<noteq> (Panic, rd')" "ReadFrameBody rd \<noteq> (Panic, rd')"
    "ParseSubgroupHeader ty rd \<noteq> (Panic, rd')" for rd rd' ty
    by (intro nopanicD safe_intros)+
  show ?thesis
    using assms none
    by (cases "usPC t")
      (auto simp: uniStep_def stepStart_def stepCtlFirst_def stepCtlLoop_def stepControl_def stepHeader_def
        stepNext_def stepDeliver_def stepDelivered_def uniActive_def Let_def
        split: prod.splits outcome.splits option.splits if_splits trackRole.splits)
qed

lemma reqStep_no_panic:
  assumes "reqStep now t r = (t', r')" and "rqPC t \<noteq> RPanic"
  shows "rqPC t' \<noteq> RPanic"
proof -
  have none: "ReadFrame rd \<noteq> (Panic, rd')" for rd rd' by (intro nopanicD safe_intros)
  show ?thesis
    using assms none DecodeSubscribeOK_no_panic DecodeRequestError_result(1)
    by (auto simp: reqStep_def stepRequest_def Let_def
        split: reqPC.splits prod.splits outcome.splits if_splits)
qed

lemma reachable_no_RPanic: "reachable cfg s \<Longrightarrow> q \<in> set (ssReq s) \<Longrightarrow> rqPC q \<noteq> RPanic"
proof (induction arbitrary: q rule: reachable.induct)
  case (reachable_start created now)
  then show ?case by (simp add: startSession_def Let_def)
next
  case (reachable_step s s')
  from reachable_step(2) show ?case
  proof cases
    case (step_main k w pc r p)
    have "rqPC x = RLoop" if "p = Some x" for x
      using step_main(5) that
      by (cases "ssMain s") (auto simp: mainStep_defs Let_def split: outcome.splits prod.splits option.splits
          sum.splits wake.splits if_splits)
    with reachable_step(3,4) step_main(1) show ?thesis by (auto split: option.splits)
  next
    case (step_req i now t r)
    have "rqPC t \<noteq> RPanic" using reqStep_no_panic [OF step_req(4)] reachable_step(3) step_req(3) by simp
    with reachable_step(3,4) step_req(1) show ?thesis by (auto dest: in_update)
  qed (use reachable_step(3,4) in auto)
qed

subsection \<open>Properties\<close>

text \<open>C1: The init segment comes first.  In every session, whatever the relay sends and however the
  goroutines interleave, a step either leaves the output alone, or it is the bootstrap's write of the
  init segment, which is the very first write, or it is the write of an object of the media track, and
  then the output already begins with the init segment, written without an error.\<close>

theorem init_before_media:
  assumes "reachable cfg s" and "step s s'"
  shows "rnWrites (ssRunner s') = rnWrites (ssRunner s)
    \<or> (\<exists>p i m e. ssMain s = MWriteInit p i m \<and> rnWrites (ssRunner s) = [] \<and> rnWrites (ssRunner s') = [(p, e)])
    \<or> (\<exists>t\<in>set (ssUni s). \<exists>h m sr ob e. usPC t = UWrite h m sr ob \<and> \<not> IsStatusObject ob
         \<and> subRole (rnStore (ssRunner s) ! m) = roleMedia \<and> (\<exists>p ps. rnWrites (ssRunner s) = (p, None) # ps)
         \<and> rnWrites (ssRunner s') = rnWrites (ssRunner s) @ [(Payload ob, e)])"
proof -
  note ok = reachable_OK [OF assms(1)]
  have early: "rnWrites (ssRunner s) = []" if "ssMain s = MWriteInit p i m" for p i m
    using sessionOK_D(2) [OF ok] that by (auto simp: mainOK_def)
  from step_writes [OF assms(2)] show ?thesis
  proof (elim disjE exE conjE bexE)
    fix p i m e assume "ssMain s = MWriteInit p i m" "rnWrites (ssRunner s') = rnWrites (ssRunner s) @ [(p, e)]"
    with early show ?thesis by auto
  next
    fix t h m sr ob e assume t: "t \<in> set (ssUni s)" "usPC t = UWrite h m sr ob"
      and w: "rnWrites (ssRunner s') = rnWrites (ssRunner s) @ [(Payload ob, e)]"
    show ?thesis
      by (rule disjI2, rule disjI2, rule bexI [OF _ t(1)])
        (use t(2) w media_writes_late [OF ok t] in \<open>auto simp: initFirst_def\<close>)
  qed simp
qed

theorem init_before_media_witness:
  "\<exists>s s'. reachable demoConfig s \<and> step s s' \<and> (\<exists>t\<in>set (ssUni s). \<exists>h m sr ob. usPC t = UWrite h m sr ob
     \<and> rnWrites (ssRunner s') = [([1, 2, 3], None), (Payload ob, None)])"
proof -
  obtain s s' where s: "reachable demoConfig s" "step s s'" "rnWrites (ssRunner s) = [([1, 2, 3], None)]"
      "rnWrites (ssRunner s') = [([1, 2, 3], None), ([9], None)]"
    by (rule demo_states) blast
  with init_before_media [OF s(1,2)] show ?thesis by auto metis
qed

text \<open>C9: Bytes are accounted for.  At every moment of every session, \<^verbatim>\<open>bytesWritten\<close> plus the lengths of
  the payloads that have been written but not yet counted is the number of bytes of the successful
  writes, modulo \<open>2 ^ 64\<close>; failed writes are never counted.\<close>

theorem bytes_accounted:
  assumes "reachable cfg s"
  shows "bytesWritten (rnStats (ssRunner s))
      + (case ssMain s of MCountInit p i m \<Rightarrow> word_of_nat (length p) | _ \<Rightarrow> 0)
      + (\<Sum>t\<leftarrow>ssUni s. case usPC t of UCount h m sr ob \<Rightarrow> word_of_nat (length (Payload ob)) | _ \<Rightarrow> 0)
    = (\<Sum>(p, e)\<leftarrow>rnWrites (ssRunner s). if e = None then word_of_nat (length p) else 0)"
proof -
  have main: "(case pc of MCountInit p i m \<Rightarrow> word_of_nat (length p) | _ \<Rightarrow> 0) = uncountedMain pc" for pc
    by (cases pc) auto
  have uni: "(case pc of UCount h m sr ob \<Rightarrow> word_of_nat (length (Payload ob)) | _ \<Rightarrow> 0) = uncounted pc" for pc
    by (cases pc) auto
  from sessionOK_D(6) [OF reachable_OK [OF assms]] show ?thesis
    unfolding main uni by (simp add: balance_def okBytes_def pendingBytes_def algebra_simps)
qed

theorem bytes_accounted_witness:
  "\<exists>s. reachable demoConfig s \<and> bytesWritten (rnStats (ssRunner s)) = 3
     \<and> (\<Sum>t\<leftarrow>ssUni s. case usPC t of UCount h m sr ob \<Rightarrow> word_of_nat (length (Payload ob)) | _ \<Rightarrow> 0)
        + (case ssMain s of MCountInit p i m \<Rightarrow> word_of_nat (length p) | _ \<Rightarrow> 0) = (1 :: u64)"
proof -
  obtain s where s: "reachable demoConfig s" "rnWrites (ssRunner s) = [([1, 2, 3], None), ([9], None)]"
      "bytesWritten (rnStats (ssRunner s)) = 3"
    by (rule demo_states) blast
  from bytes_accounted [OF s(1)] s(2,3) have "3 + (case ssMain s of MCountInit p i m \<Rightarrow> word_of_nat (length p) | _ \<Rightarrow> 0)
      + (\<Sum>t\<leftarrow>ssUni s. case usPC t of UCount h m sr ob \<Rightarrow> word_of_nat (length (Payload ob)) | _ \<Rightarrow> 0) = (4 :: u64)"
    by simp
  then have "(\<Sum>t\<leftarrow>ssUni s. case usPC t of UCount h m sr ob \<Rightarrow> word_of_nat (length (Payload ob)) | _ \<Rightarrow> 0)
        + (case ssMain s of MCountInit p i m \<Rightarrow> word_of_nat (length p) | _ \<Rightarrow> 0) = (4 - 3 :: u64)"
    by (simp only: eq_diff_eq ac_simps)
  with s show ?thesis by auto
qed

text \<open>C4: The order of the bootstrap.  In every reachable session the subscriptions made are, in this order,
  the first few of catalog, init and media, with the request IDs 0, 2 and 4; while the session runs,
  how many there are is determined by the place of the bootstrap; and the receive loop, or a return of
  nil, is reached only with all three subscriptions and the init segment at the head of the output.\<close>

theorem bootstrap_order:
  assumes "reachable cfg s"
  shows "\<exists>n\<le>3. map subRole (rnStore (ssRunner s)) = take n [roleCatalog, roleInit, roleMedia]
    \<and> map subRequestID (rnStore (ssRunner s)) = take n [0, 2, 4]
    \<and> nextID (rnSubs (ssRunner s)) = word_of_nat (2 * n)
    \<and> (case ssMain s of MNew ph \<Rightarrow> n = phaseIndex ph | MSend ph m \<Rightarrow> m = phaseIndex ph \<and> n = Suc m
        | MWaitOK ph m \<Rightarrow> m = phaseIndex ph \<and> n = Suc m | MWaitObj ph m \<Rightarrow> m = phaseIndex ph \<and> n = Suc m
        | MWriteInit p i v \<Rightarrow> n = 2 | MCountInit p i v \<Rightarrow> n = 2 | MLoop \<Rightarrow> n = 3
        | MReturn e \<Rightarrow> e = None \<longrightarrow> n = 3 | _ \<Rightarrow> n = 0)
    \<and> (n = 3 \<longrightarrow> (\<exists>p ps. rnWrites (ssRunner s) = (p, None) # ps))"
proof -
  note ok = reachable_OK [OF assms]
  have main: "mainOK (ssMain s) (ssRunner s)" and ids: "idsOK (ssRunner s)"
    using sessionOK_D(1,2) [OF ok] by (simp_all add: storeOK_def)
  obtain n where n: "n \<le> 3" "roles (ssRunner s) = take n allRoles" "isReturn (ssMain s) \<or> n = subsAt (ssMain s)"
      "n = 3 \<Longrightarrow> initFirst (rnWrites (ssRunner s))" "n \<noteq> 3 \<Longrightarrow> earlyWrites (ssMain s) (rnWrites (ssRunner s))"
    and ref: "refAt (ssMain s)"
    using main unfolding mainOK_def by auto
  have len: "length (rnStore (ssRunner s)) = n"
    using arg_cong [OF n(2), of length] n(1) by (simp add: allRoles_def)
  have "n = 0 \<or> n = 1 \<or> n = 2 \<or> n = 3" using n(1) by linarith
  then have three: "map (\<lambda>k. word_of_nat (2 * k)) [0..<n] = take n [0, 2, 4 :: u64]"
    by (elim disjE) (simp_all add: upt_rec)
  have pl: "case ssMain s of MNew ph \<Rightarrow> n = phaseIndex ph | MSend ph m \<Rightarrow> m = phaseIndex ph \<and> n = Suc m
        | MWaitOK ph m \<Rightarrow> m = phaseIndex ph \<and> n = Suc m | MWaitObj ph m \<Rightarrow> m = phaseIndex ph \<and> n = Suc m
        | MWriteInit p i v \<Rightarrow> n = 2 | MCountInit p i v \<Rightarrow> n = 2 | MLoop \<Rightarrow> n = 3
        | MReturn e \<Rightarrow> e = None \<longrightarrow> n = 3 | _ \<Rightarrow> n = 0"
    using n(3,5) ref by (cases "ssMain s") auto
  show ?thesis
    using n(1,2,4) ids len three pl by (intro exI [of _ n]) (simp add: idsOK_def allRoles_def initFirst_def)
qed

theorem bootstrap_order_witness:
  "\<exists>s. reachable demoConfig s \<and> ssMain s = MReturn None
     \<and> map subRole (rnStore (ssRunner s)) = [roleCatalog, roleInit, roleMedia]"
proof -
  obtain s where s: "reachable demoConfig s" "ssMain s = MReturn None" by (rule demo_states) blast
  from bootstrap_order [OF s(1)] s show ?thesis by auto
qed

text \<open>What a stream handler refers to, by its place.\<close>

definition handlerRefs :: "trackSubscription list \<Rightarrow> uniPC \<Rightarrow> bool" where
  "handlerRefs store pc \<longleftrightarrow> (case pc of
       UNext h (Some m) sr \<Rightarrow> m < length store
     | UDeliver h m sr ob \<Rightarrow> m < length store \<and> \<not> IsStatusObject ob
     | UWrite h m sr ob \<Rightarrow> m < length store \<and> subRole (store ! m) = roleMedia
     | UCount h m sr ob \<Rightarrow> m < length store \<and> subRole (store ! m) = roleMedia
     | USetFirst h m sr ob \<Rightarrow> m < length store \<and> subRole (store ! m) \<in> {roleCatalog, roleInit}
     | USendFirst h m sr ob \<Rightarrow> m < length store \<and> subRole (store ! m) \<in> {roleCatalog, roleInit}
     | _ \<Rightarrow> True)"

text \<open>C12: The shared state is well formed.  In every reachable session no channel holds more than its
  capacity (one response and one first object per subscription, eight errors), a response or object
  can therefore always be sent without blocking; both maps of the registry, every request stream and
  every stream handler that delivers refer to a subscription that exists; and what is delivered to the
  sink belongs to the media track, what is kept as a first object to the catalog or the init track.\<close>

theorem session_well_formed:
  assumes "reachable cfg s"
  shows "(\<forall>x\<in>set (rnStore (ssRunner s)). length (okCh x) \<le> 1 \<and> (\<forall>b. firstObjCh x = Some b \<longrightarrow> length b \<le> 1))
    \<and> length (ssErrCh s) \<le> 8
    \<and> (\<forall>a m. fst (lookupDelivery (rnSubs (ssRunner s)) a) = Some m \<longrightarrow> m < length (rnStore (ssRunner s)))
    \<and> (\<forall>q\<in>set (ssReq s). rqSub q < length (rnStore (ssRunner s)))
    \<and> (\<forall>t\<in>set (ssUni s). handlerRefs (rnStore (ssRunner s)) (usPC t))"
proof -
  note ok = sessionOK_D [OF reachable_OK [OF assms]]
  have chans: "\<forall>x\<in>set (rnStore (ssRunner s)). length (okCh x) \<le> 1 \<and> (\<forall>b. firstObjCh x = Some b \<longrightarrow> length b \<le> 1)"
    and refs: "refsOK (ssRunner s)" using ok(1) by (auto simp: storeOK_def chanOK_def)
  have look: "\<forall>a m. fst (lookupDelivery (rnSubs (ssRunner s)) a) = Some m \<longrightarrow> m < length (rnStore (ssRunner s))"
    using refs by (auto simp: lookupDelivery_def refsOK_def split: option.splits)
  have "handlerRefs (rnStore (ssRunner s)) (usPC t)" if "t \<in> set (ssUni s)" for t
    using ok(3) [OF that] by (cases "usPC t") (auto simp: handlerRefs_def split: option.splits)
  with chans look ok(4,5) show ?thesis by blast
qed

theorem session_well_formed_witness:
  "\<exists>s. reachable demoConfig s \<and> rnWrites (ssRunner s) = [([1, 2, 3], None), ([9], None)]
     \<and> (\<forall>x\<in>set (rnStore (ssRunner s)). length (okCh x) \<le> 1)"
proof -
  obtain s where s: "reachable demoConfig s" "rnWrites (ssRunner s) = [([1, 2, 3], None), ([9], None)]"
    by (rule demo_states) blast
  with session_well_formed [OF s(1)] show ?thesis by blast
qed





text \<open>C23: What success means.  When the process of a command line ends with status 0, and not because it
  was cancelled on the way, \<^verbatim>\<open>Run\<close> has returned nil: the catalog, the init and the media track were
  all subscribed to, the init segment was written first, the summary is logged, and the output mode is
  one of the four known ones.\<close>

theorem success_means_streaming:
  assumes "parseFlags args = Goes (Ok (cfg, fmt))" and "reachable cfg s" and "ssMain s = MReturn e"
    and "exitStatus (parseFlags args) e = 0" and "\<forall>err. e = Some err \<longrightarrow> \<not> errorsIs err ErrCanceled"
  shows "e = None \<and> map subRole (rnStore (ssRunner s)) = [roleCatalog, roleInit, roleMedia]
    \<and> (\<exists>p ps. rnWrites (ssRunner s) = (p, None) # ps)
    \<and> (\<exists>x rest. ssClosing s = LogSummary x # CloseSink # rest)
    \<and> mcMode (cfgOutput cfg) \<in> {''stdout'', ''ffmpeg'', ''ffplay'', ''command''}"
proof -
  have e: "e = None" using assms(1,4,5) by (auto simp: exitStatus_def split: option.splits if_splits)
  have mode: "mcMode (cfgOutput cfg) \<in> {''stdout'', ''ffmpeg'', ''ffplay'', ''command''}"
    using assms(1) by (auto simp: parseFlags_def configOf_def mode_names split: if_splits process.splits)
  obtain n where n: "n \<le> 3" "roles (ssRunner s) = take n allRoles"
      "if n = 3 then initFirst (rnWrites (ssRunner s)) else earlyWrites (MReturn e) (rnWrites (ssRunner s))"
    using sessionOK_D(2) [OF reachable_OK [OF assms(2)]] assms(3) by (auto simp: mainOK_def)
  with e have three: "n = 3" "initFirst (rnWrites (ssRunner s))" by (auto split: if_splits)
  then have "\<not> untouched (ssRunner s)" by (auto simp: untouched_def initFirst_def)
  moreover have "closedOK cfg e (ssClosing s) (ssRunner s)"
    using reachable_shutdownOK [OF assms(2)] assms(3) by (simp add: shutdownOK_def)
  ultimately have "\<exists>x rest. ssClosing s = LogSummary x # CloseSink # rest" using e by (auto simp: closedOK_def)
  with e mode n(2) three show ?thesis by (simp add: allRoles_def initFirst_def)
qed

definition demoArgs :: "string list" where
  "demoArgs = [''--relay'', ''moqt://h'', ''--namespace'', ''a/b'', ''--alpn='', ''--handshake-timeout=0'']"

theorem success_means_streaming_witness:
  "\<exists>s x rest. reachable demoConfig s \<and> ssMain s = MReturn None \<and> ssClosing s = LogSummary x # CloseSink # rest"
proof -
  obtain s where s: "reachable demoConfig s" "ssMain s = MReturn None" by (rule demo_states) blast
  have p: "parseFlags demoArgs = Goes (Ok (demoConfig, ''text''))" by code_simp
  then have x: "exitStatus (parseFlags demoArgs) None = 0" by (simp add: exitStatus_def)
  from success_means_streaming [OF p s x] s show ?thesis by auto
qed

end
