(* ===== verification/SessionWire.thy ===== *)
theory SessionWire
  imports SessionTheorems
begin

text \<open>
  What a session has sent at every moment: one SETUP on the control stream, then one SUBSCRIBE for
  each subscription on a stream of its own, as the relay reads them.  \<open>wireView\<close> is the part of the
  shared state this depends on; only the main goroutine changes it.
\<close>

subsection \<open>The part of the state the wire depends on\<close>

type_synonym subView = "u64 \<times> string \<times> u64 option"

definition subView :: "trackSubscription \<Rightarrow> subView" where
  "subView x = (subRequestID x, subTrackName x, subStream x)"

definition wireView :: "Runner \<Rightarrow> Config \<times> u64 option \<times> (u64 \<times> bytes) list \<times> subView list" where
  "wireView r = (rnCfg r, rnControlStream r, rnSent r, map subView (rnStore r))"

lemma wireView_update [simp]:
  "wireView (r\<lparr>rnRich := x1\<rparr>) = wireView r" "wireView (r\<lparr>rnStats := x2\<rparr>) = wireView r"
  "wireView (r\<lparr>rnWrites := x3\<rparr>) = wireView r" "wireView (r\<lparr>rnSubs := x4\<rparr>) = wireView r"
  "wireView (r\<lparr>rnPeerSetupSeen := x5\<rparr>) = wireView r" "wireView (richAdd now ev r) = wireView r"
  "wireView (updStats f r) = wireView r" "wireView (richAddObject now sid tr al gid oid n r) = wireView r"
  by (simp_all add: wireView_def richAdd_def updStats_def richAddObject_def)

lemma wireView_updSub:
  assumes "\<And>x. subView (f x) = subView x"
  shows "wireView (updSub m f r) = wireView r"
proof -
  have "map subView ((rnStore r)[m := f (rnStore r ! m)]) = map subView (rnStore r)"
  proof (cases "m < length (rnStore r)")
    case True
    then show ?thesis using list_update_id [of "map subView (rnStore r)" m] by (simp add: map_update assms)
  qed (simp add: list_update_beyond)
  then show ?thesis by (simp add: wireView_def updSub_def)
qed

lemma wireView_channels [simp]:
  "wireView (sendFirst m p r) = wireView r" "wireView (sendOk m res r) = wireView r"
  "wireView (updSub m (\<lambda>x. x\<lparr>gotFirst := b\<rparr>) r) = wireView r"
  "wireView (updSub m (\<lambda>x. x\<lparr>okCh := buf\<rparr>) r) = wireView r"
  "wireView (updSub m (\<lambda>x. x\<lparr>firstObjCh := fbuf\<rparr>) r) = wireView r"
  by (simp_all add: sendFirst_def sendOk_def wireView_updSub subView_def)

lemma uniStep_view:
  "uniStep now werr t r = (t', r') \<Longrightarrow> wireView r' = wireView r"
  by (cases "usPC t")
    (auto simp: uniStep_def stepStart_def stepCtlFirst_def stepCtlLoop_def stepControl_def stepHeader_def
      stepNext_def stepDeliver_def stepDelivered_def writePayload_def dispatchControlMessage_def
      beginSubgroup_def countObject_def logObject_def recordFirstObject_def countBytes_def Let_def
      split: prod.splits outcome.splits option.splits if_splits trackRole.splits)

lemma reqStep_view:
  "reqStep now t r = (t', r') \<Longrightarrow> wireView r' = wireView r \<and> rqSub t' = rqSub t \<and> rqID t' = rqID t"
  by (auto simp: reqStep_def stepRequest_def logSubscribeRejected_def rgoto_def Let_def
      split: reqPC.splits prod.splits outcome.splits if_splits)

lemma waits_view:
  "waitSubscribeOK k s r = Some (x, r') \<Longrightarrow> wireView r' = wireView r"
  "waitFirstObject k s r = Some (y, r') \<Longrightarrow> wireView r' = wireView r"
  "afterObject w ph p r = Some (pc, r') \<Longrightarrow> wireView r' = wireView r"
  "loopError e r = (pc, r') \<Longrightarrow> wireView r' = wireView r"
  by (auto simp: waitSubscribeOK_def waitFirstObject_def afterObject_def loopError_def Let_def
      split: wake.splits list.splits option.splits phase.splits outcome.splits if_splits)

subsection \<open>What the relay reads\<close>

text \<open>A message that is the SETUP on the control stream, and one that asks for a subscription.\<close>

definition setsUp :: "u64 option \<Rightarrow> u64 \<times> bytes \<Rightarrow> bool" where
  "setsUp control m \<longleftrightarrow> control = Some (fst m)
     \<and> (\<exists>u body. snd m = frameBytes MsgSetup body \<and> length body \<le> 65535
         \<and> EncodeSetup \<lparr>Options = setupOptions u\<rparr> = Ok body)"

definition asksFor :: "string \<Rightarrow> subView \<Rightarrow> u64 \<times> bytes \<Rightarrow> bool" where
  "asksFor ns v m \<longleftrightarrow> (case v of (rid, track, stream) \<Rightarrow> stream = Some (fst m)
     \<and> (\<exists>body. snd m = frameBytes MsgSubscribe body \<and> length body \<le> 65535
         \<and> readSubscribe (mkr body ErrEOF)
           = (Ok (rid, map bytes_of (splitNamespace ns), bytes_of track, 0, []), mkr [] ErrEOF)))"

definition spoken :: "Runner \<Rightarrow> nat \<Rightarrow> (u64 \<times> bytes) list \<Rightarrow> bool" where
  "spoken r n ms \<longleftrightarrow> (\<exists>m ns. ms = m # ns \<and> setsUp (rnControlStream r) m
     \<and> list_all2 (asksFor (cfgNamespace (rnCfg r))) (take n (map subView (rnStore r))) ns)"

definition wireOK :: "mainPC \<Rightarrow> Runner \<Rightarrow> bool" where
  "wireOK pc r \<longleftrightarrow> (case pc of
       MDial \<Rightarrow> rnSent r = [] | MSink u \<Rightarrow> rnSent r = [] | MSetup u \<Rightarrow> rnSent r = []
     | MSend ph m \<Rightarrow> spoken r m (rnSent r) \<and> snd (snd (map subView (rnStore r) ! m)) = None
     | MReturn (Some e) \<Rightarrow> (\<exists>said more. rnSent r = said @ more \<and> length more \<le> 1
         \<and> (said = [] \<or> (\<exists>n. spoken r n said)))
     | _ \<Rightarrow> spoken r (length (rnStore r)) (rnSent r))"

lemma wireView_D:
  assumes "wireView r' = wireView r"
  shows "rnCfg r' = rnCfg r" "rnControlStream r' = rnControlStream r" "rnSent r' = rnSent r"
    "map subView (rnStore r') = map subView (rnStore r)" "length (rnStore r') = length (rnStore r)"
  using assms map_eq_imp_length_eq by (auto simp: wireView_def)

lemma wireOK_view: "wireView r' = wireView r \<Longrightarrow> wireOK pc r' \<longleftrightarrow> wireOK pc r"
  using wireView_D [of r' r] by (simp add: wireOK_def spoken_def cong: mainPC.case_cong option.case_cong)

lemma wireOK_fails: "wireOK pc r \<Longrightarrow> wireView r' = wireView r \<Longrightarrow> wireOK (MReturn (Some e)) r'"
proof -
  assume w: "wireOK pc r" and v: "wireView r' = wireView r"
  from w have "rnSent r = [] \<or> (\<exists>n. spoken r n (rnSent r)) \<or> (\<exists>e. wireOK (MReturn (Some e)) r)"
    by (auto simp: wireOK_def split: mainPC.splits option.splits)
  moreover have "\<exists>said more. rnSent r = said @ more \<and> length more \<le> 1 \<and> (said = [] \<or> (\<exists>n. spoken r n said))"
    if "rnSent r = [] \<or> (\<exists>n. spoken r n (rnSent r))"
    using that by (intro exI [of _ "rnSent r"] exI [of _ "[]"]) simp
  ultimately have "wireOK (MReturn (Some e)) r" by (auto simp: wireOK_def)
  then show ?thesis using wireOK_view [OF v] by simp
qed

subsection \<open>The messages of the main goroutine\<close>

lemma setup_says:
  assumes "sendClientSetup opened werr now u r = (e, r')" and "rnSent r = []"
  shows "rnStore r' = rnStore r \<and> rnCfg r' = rnCfg r
    \<and> (if e = None then \<exists>m. rnSent r' = [m] \<and> setsUp (rnControlStream r') m else length (rnSent r') \<le> 1)"
proof (cases opened)
  case (Inr sid)
  show ?thesis
  proof (cases "EncodeSetup \<lparr>Options = setupOptions u\<rparr>")
    case (Ok body)
    show ?thesis
    proof (cases "length body \<le> maxFrameLen")
      case True
      with assms Inr Ok show ?thesis
        by (cases werr) (auto simp: sendClientSetup_def WriteFrame_ok streamWrite_def setsUp_def
            richAdd_def maxFrameLen_def intro!: exI [of _ u])
    next
      case False
      with assms Inr Ok show ?thesis by (auto simp: sendClientSetup_def WriteFrame_def maxFrameLen_def)
    qed
  qed (use assms Inr in \<open>auto simp: sendClientSetup_def\<close>)
qed (use assms in \<open>auto simp: sendClientSetup_def\<close>)

lemma subscribe_says:
  assumes "sendSubscribeMessage opened werr now m r = (x, r')" and "m < length (rnStore r)"
  shows "rnCfg r' = rnCfg r \<and> rnControlStream r' = rnControlStream r \<and> length (rnStore r') = length (rnStore r)
    \<and> (\<forall>i. i \<noteq> m \<longrightarrow> map subView (rnStore r') ! i = map subView (rnStore r) ! i)
    \<and> (case x of
         Inl e \<Rightarrow> \<exists>more. length more \<le> 1 \<and> rnSent r' = rnSent r @ more
       | Inr sid \<Rightarrow> \<exists>msg. fst msg = sid \<and> rnSent r' = rnSent r @ [msg]
           \<and> asksFor (cfgNamespace (rnCfg r)) (subView (rnStore r' ! m)) msg)"
proof -
  let ?sub = "rnStore r ! m" and ?ns = "map bytes_of (splitNamespace (cfgNamespace (rnCfg r)))"
  let ?msg = "\<lparr>RequestID = subRequestID ?sub, TrackNamespace = ?ns, TrackName = bytes_of (subTrackName ?sub),
    ParametersRaw = []\<rparr>"
  let ?open = "\<lambda>sid. updSub m (\<lambda>x. x\<lparr>subStream := Some sid\<rparr>) r"
  have other: "map subView (rnStore (?open sid)) ! i = map subView (rnStore r) ! i"
    if "i \<noteq> m" for i sid
    using that by (simp add: updSub_def map_update)
  show ?thesis
  proof (cases "EncodeSubscribe ?msg")
    case (Ok body)
    show ?thesis
    proof (cases opened)
      case (Inr sid)
      show ?thesis
      proof (cases "length body \<le> maxFrameLen")
        case True
        with Ok have "length (bytes_of (subTrackName ?sub)) \<le> maxAlloc"
          by (auto simp: EncodeSubscribe_Ok fieldBytes_def maxFrameLen_def maxAlloc_def)
        with Ok have "readSubscribe (mkr body ErrEOF)
            = (Ok (subRequestID ?sub, ?ns, bytes_of (subTrackName ?sub), 0, []), mkr [] ErrEOF)"
          using readSubscribe_wire [of ?ns "bytes_of (subTrackName ?sub)" "subRequestID ?sub" 0 "[]"]
          by (auto simp: EncodeSubscribe_Ok)
        with assms Ok Inr True other [of _ sid] show ?thesis
          by (cases werr) (auto simp: sendSubscribeMessage_def WriteFrame_ok streamWrite_def asksFor_def subView_def
              richAdd_def updSub_def maxFrameLen_def Let_def)
      next
        case False
        with assms Ok Inr other [of _ sid] show ?thesis
          by (auto simp: sendSubscribeMessage_def WriteFrame_def updSub_def maxFrameLen_def Let_def)
      qed
    qed (use assms Ok in \<open>auto simp: sendSubscribeMessage_def Let_def\<close>)
  qed (use assms in \<open>auto simp: sendSubscribeMessage_def Let_def\<close>)
qed

lemma spoken_more:
  assumes "spoken r m (rnSent r)" and "rnCfg r' = rnCfg r" and "rnControlStream r' = rnControlStream r"
    and "length (rnStore r) = Suc m" and "length (rnStore r') = Suc m"
    and "\<forall>i. i \<noteq> m \<longrightarrow> map subView (rnStore r') ! i = map subView (rnStore r) ! i"
    and "rnSent r' = rnSent r @ ms"
  shows "spoken r' m (rnSent r)"
    and "ms = [msg] \<Longrightarrow> asksFor (cfgNamespace (rnCfg r)) (subView (rnStore r' ! m)) msg \<Longrightarrow> spoken r' (Suc m) (rnSent r')"
proof -
  have front: "take m (map subView (rnStore r')) = take m (map subView (rnStore r))"
    using assms(4-6) by (intro nth_take_lemma) auto
  with assms(1-3) show "spoken r' m (rnSent r)" by (simp add: spoken_def)
  assume "ms = [msg]" and a: "asksFor (cfgNamespace (rnCfg r)) (subView (rnStore r' ! m)) msg"
  moreover have "take (Suc m) (map subView (rnStore r')) = take m (map subView (rnStore r)) @ [subView (rnStore r' ! m)]"
    by (subst take_Suc_conv_app_nth) (simp_all add: assms(5) front)
  ultimately show "spoken r' (Suc m) (rnSent r')"
    using assms(1-3,7) by (auto simp: spoken_def intro!: list_all2_appendI)
qed

definition answersOK :: "Runner \<Rightarrow> reqStream list \<Rightarrow> bool" where
  "answersOK r qs \<longleftrightarrow> (\<forall>q\<in>set qs. rqSub q < length (rnStore r)
     \<and> snd (snd (map subView (rnStore r) ! rqSub q)) = Some (rqID q))"

lemma answersOK_view: "wireView r' = wireView r \<Longrightarrow> answersOK r' qs \<longleftrightarrow> answersOK r qs"
  using wireView_D [of r' r] by (simp add: answersOK_def)

lemma answersOK_append: "answersOK r (xs @ ys) \<longleftrightarrow> answersOK r xs \<and> answersOK r ys"
  by (auto simp: answersOK_def)

lemma mainStep_says:
  assumes "mainStep w k pc r = Some (pc', r', q)" and "wireOK pc r" and "mainOK pc r" and "answersOK r qs"
  shows "wireOK pc' r' \<and> answersOK r' (qs @ (case q of None \<Rightarrow> [] | Some x \<Rightarrow> [x]))"
proof (cases pc)
  case (MSetup u)
  then obtain e where e: "sendClientSetup (wOpened w) (wWerr w) (wNow w) u r = (e, r')" "q = None"
      "pc' = (case e of None \<Rightarrow> MWaitPeer | Some e \<Rightarrow> MReturn (Some e))" "rnSent r = []"
    using assms(1,2) by (auto simp: mainStep_def wireOK_def split: prod.splits option.splits)
  from assms(3) MSetup have "rnStore r = []" by (auto simp: mainOK_def)
  with setup_says [OF e(1,4)] e show ?thesis
    using assms(4) by (auto simp: wireOK_def spoken_def answersOK_def split: option.splits intro: exI [of _ "[]"])
next
  case (MNew ph)
  then show ?thesis
    using assms by (auto simp: mainStep_defs newTrackSubscription_def wireOK_def spoken_def answersOK_def subView_def
        nth_append Let_def split: prod.splits)
next
  case (MSend ph m)
  have m: "length (rnStore r) = Suc m" using assms(3) MSend
    by (auto simp: mainOK_def allRoles_def dest!: arg_cong [of _ _ length])
  have sp: "spoken r m (rnSent r)" "snd (snd (map subView (rnStore r) ! m)) = None"
    using assms(2) MSend by (simp_all add: wireOK_def)
  obtain x where x: "sendSubscribeMessage (wOpened w) (wWerr w) (wNow w) m r = (x, r')"
    and pc': "case x of Inl e \<Rightarrow> pc' = MReturn (Some e) \<and> q = None
      | Inr sid \<Rightarrow> pc' = MWaitOK ph m \<and> q = Some \<lparr>rqSub = m, rqID = sid, rqReader = wReader w, rqPC = RLoop\<rparr>"
    using assms(1) MSend by (auto simp: mainStep_defs split: prod.splits sum.splits)
  from subscribe_says [OF x] m have s: "rnCfg r' = rnCfg r" "rnControlStream r' = rnControlStream r"
    "length (rnStore r') = Suc m" "\<forall>i. i \<noteq> m \<longrightarrow> map subView (rnStore r') ! i = map subView (rnStore r) ! i" by auto
  note more = spoken_more [OF sp(1) s(1,2) m s(3,4)]
  have "rqSub a \<noteq> m \<and> rqSub a < Suc m \<and> snd (snd (map subView (rnStore r) ! rqSub a)) = Some (rqID a)"
    if "a \<in> set qs" for a
    using assms(4) sp(2) m that unfolding answersOK_def by (metis option.distinct(1))
  then have old: "answersOK r' qs" using s(3,4) unfolding answersOK_def by metis
  show ?thesis
  proof (cases x)
    case (Inl e)
    with subscribe_says [OF x] m obtain ms where ms: "length ms \<le> 1" "rnSent r' = rnSent r @ ms" by auto
    with more(1) [OF ms(2)] Inl pc' old show ?thesis by (auto simp: wireOK_def)
  next
    case (Inr sid)
    with subscribe_says [OF x] m obtain msg where ms: "fst msg = sid" "rnSent r' = rnSent r @ [msg]"
        "asksFor (cfgNamespace (rnCfg r)) (subView (rnStore r' ! m)) msg" by auto
    then have "answersOK r' [\<lparr>rqSub = m, rqID = sid, rqReader = wReader w, rqPC = RLoop\<rparr>]"
      using s(3) by (auto simp: answersOK_def asksFor_def subView_def)
    with more(2) [OF ms(2) refl ms(3)] Inr pc' old s(3) show ?thesis by (simp add: wireOK_def answersOK_append)
  qed
next
  case (MWaitOK ph s)
  then obtain res where res: "waitSubscribeOK k s r = Some (res, r')" "pc' = waitOKPC ph s res" "q = None"
    using assms(1) by (auto simp: mainStep_defs split: option.splits)
  note v = waits_view(1) [OF res(1)]
  show ?thesis
  proof (cases res)
    case None
    then show ?thesis using res v assms(2,4) MWaitOK wireOK_view [OF v, of pc'] answersOK_view [OF v]
      by (cases ph) (simp_all add: waitOKPC_def wireOK_def)
  next
    case (Some e)
    then show ?thesis using res v assms(2,4) answersOK_view [OF v]
      by (simp add: waitOKPC_def wireOK_fails)
  qed
next
  case (MWaitObj ph s)
  then obtain y r1 where y: "waitFirstObject k s r = Some (y, r1)" and q: "q = None"
    using assms(1) by (auto simp: mainStep_defs split: option.splits sum.splits)
  note v = waits_view(2) [OF y]
  show ?thesis
  proof (cases y)
    case (Inl e)
    then show ?thesis using assms y MWaitObj v answersOK_view [OF v] by (auto simp: mainStep_defs wireOK_fails)
  next
    case (Inr payload)
    then have after: "afterObject w ph payload r1 = Some (pc', r')"
      using assms(1) y MWaitObj by (auto simp: mainStep_defs split: option.splits)
    from waits_view(3) [OF this] v have v': "wireView r' = wireView r" by simp
    have "(\<exists>ph'. pc' = MNew ph') \<or> (\<exists>p i m. pc' = MWriteInit p i m) \<or> pc' = MLoop \<or> (\<exists>e. pc' = MReturn (Some e))"
      using after by (auto simp: afterObject_def Let_def split: phase.splits outcome.splits)
    moreover have "wireOK (MNew ph') r" "wireOK (MWriteInit p i m) r" "wireOK MLoop r" for ph' p i m
      using assms(2) MWaitObj by (simp_all add: wireOK_def)
    ultimately have "wireOK pc' r" using wireOK_fails [OF assms(2) refl] by blast
    then show ?thesis using q assms(4) wireOK_view [OF v'] answersOK_view [OF v'] by simp
  qed
next
  case MLoop
  then have v: "wireView r' = wireView r" and "pc' = MLoop \<or> (\<exists>e. pc' = MReturn e)" "q = None"
    using assms(1) waits_view(4) by (auto simp: mainStep_defs loopError_def split: wake.splits prod.splits if_splits)
  moreover have "wireOK (MReturn e) r" for e
    using assms(2) MLoop wireOK_fails [OF assms(2) refl] by (cases e) (simp_all add: wireOK_def)
  ultimately show ?thesis using assms(2,4) MLoop wireOK_view [OF v] answersOK_view [OF v] by auto
next
  case (MWriteInit p i v)
  then have "wireView r' = wireView r" "q = None" "(\<exists>e. pc' = MReturn (Some e)) \<or> pc' = MCountInit p i v"
    using assms(1) by (auto simp: mainStep_defs writePayload_def split: option.splits)
  then show ?thesis
    using assms(2,4) MWriteInit wireOK_view [of r' r] answersOK_view [of r' r] wireOK_fails [OF assms(2)]
    by (auto simp: wireOK_def)
next
  case (MCountInit p i v)
  then have "wireView r' = wireView r" "q = None" "pc' = MNew (PhMedia v)"
    using assms(1) by (auto simp: mainStep_defs countBytes_def)
  then show ?thesis
    using assms(2,4) MCountInit wireOK_view [of r' r pc'] answersOK_view [of r' r] by (simp add: wireOK_def)
next
  case MDial
  then have "wireView r' = wireView r" "q = None" "(\<exists>e. pc' = MReturn (Some e)) \<or> (\<exists>u. pc' = MSink u)"
    using assms(1) by (auto simp: mainStep_defs split: outcome.splits)
  then show ?thesis
    using assms(2,4) MDial wireOK_view [of r' r] answersOK_view [of r' r] wireOK_fails [OF assms(2)]
    by (auto simp: wireOK_def)
next
  case (MSink u)
  then have "r' = r" "q = None" "(\<exists>e. pc' = MReturn (Some e)) \<or> (\<exists>u. pc' = MSetup u)"
    using assms(1) by (auto simp: mainStep_defs split: outcome.splits)
  then show ?thesis using assms(2,4) MSink wireOK_fails [OF assms(2)] by (auto simp: wireOK_def)
next
  case MWaitPeer
  then have "r' = r" "q = None" "(\<exists>e. pc' = MReturn (Some e)) \<or> pc' = MNew PhCatalog"
    using assms(1) by (auto simp: mainStep_defs split: wake.splits if_splits)
  then show ?thesis using assms(2,4) MWaitPeer wireOK_fails [OF assms(2)] by (auto simp: wireOK_def)
qed (use assms(1) in \<open>simp add: mainStep_defs\<close>)

subsection \<open>Every session\<close>

definition wireInv :: "session \<Rightarrow> bool" where
  "wireInv s \<longleftrightarrow> wireOK (ssMain s) (ssRunner s) \<and> answersOK (ssRunner s) (ssReq s)"

lemma wireInv_view:
  assumes "wireInv s" and "wireView (ssRunner s') = wireView (ssRunner s)" and "ssMain s' = ssMain s"
    and "\<And>q'. q' \<in> set (ssReq s') \<Longrightarrow> \<exists>q\<in>set (ssReq s). rqSub q' = rqSub q \<and> rqID q' = rqID q"
  shows "wireInv s'"
proof -
  have "answersOK (ssRunner s) (ssReq s')"
    using assms(1,4) unfolding wireInv_def answersOK_def by metis
  with assms(1-3) show ?thesis
    using wireOK_view [OF assms(2)] answersOK_view [OF assms(2)] by (simp add: wireInv_def)
qed

lemma wireInv_main:
  assumes "wireInv s" and "sessionOK s" and "mainStep w k (ssMain s) (ssRunner s) = Some (pc, r, q)"
  shows "wireOK pc r \<and> answersOK r (ssReq s @ (case q of None \<Rightarrow> [] | Some x \<Rightarrow> [x]))"
  using mainStep_says [OF assms(3), of "ssReq s"] assms(1) sessionOK_D(2) [OF assms(2)] by (simp add: wireInv_def)

lemma wireInv_step:
  assumes "wireInv s" and "sessionOK s" and "step s s'"
  shows "wireInv s'"
  using assms(3)
proof cases
  case (step_main k w pc r q)
  from wireInv_main [OF assms(1,2) step_main(5)] step_main(1) show ?thesis by (simp add: wireInv_def)
next
  case (step_receive e es w pc r q)
  from wireInv_main [OF assms(1,2) step_receive(5)] step_receive(1) show ?thesis
    by (simp add: wireInv_def answersOK_append)
next
  case (step_uni i now werr t r)
  show ?thesis
    by (rule wireInv_view [OF assms(1)]) (use step_uni(1) uniStep_view [OF step_uni(5)] in auto)
next
  case (step_req i now t r)
  have same: "\<exists>q\<in>set (ssReq s). rqSub q' = rqSub q \<and> rqID q' = rqID q" if "q' \<in> set ((ssReq s)[i := t])" for q'
    using in_update [OF that] reqStep_view [OF step_req(4)] nth_mem [OF step_req(3)] by auto
  show ?thesis
    by (rule wireInv_view [OF assms(1)]) (use step_req(1) reqStep_view [OF step_req(4)] same in auto)
qed (use assms(1) in \<open>simp_all add: wireInv_def\<close>)

lemma wireInv_start: "wireInv (startSession cfg created now)"
  by (simp add: wireInv_def startSession_def newRunner_def wireOK_def answersOK_def Let_def updStats_def)

lemma reachable_wire: "reachable cfg s \<Longrightarrow> wireInv s"
  by (induction rule: reachable.induct) (auto simp: wireInv_start intro: wireInv_step reachable_OK)

subsection \<open>Properties\<close>

text \<open>C5: What goes over the wire.  Whatever the relay sends and however the goroutines interleave, the
  session has sent nothing until it sets up, and from then on, unless it has returned with an error,
  exactly one SETUP on the control stream, followed by one SUBSCRIBE for each subscription it has made,
  in the order it made them, each as one frame on a stream of its own that reads back as the
  subscription's request ID, the namespace of the configuration, the track name and no parameters; a
  subscription about to be sent has no stream yet.  After an error it has sent such messages and at most
  one more.  The answer to a subscription is read from the stream its SUBSCRIBE went to.\<close>

theorem wire_history:
  assumes "reachable cfg s"
  defines "r \<equiv> ssRunner s"
  shows "(case ssMain s of
       MDial \<Rightarrow> rnSent r = [] | MSink u \<Rightarrow> rnSent r = [] | MSetup u \<Rightarrow> rnSent r = []
     | MSend ph m \<Rightarrow> spoken r m (rnSent r) \<and> length (rnStore r) = Suc m \<and> subStream (rnStore r ! m) = None
     | MReturn (Some e) \<Rightarrow> (\<exists>said more. rnSent r = said @ more \<and> length more \<le> 1
         \<and> (said = [] \<or> (\<exists>n. spoken r n said)))
     | _ \<Rightarrow> spoken r (length (rnStore r)) (rnSent r))
    \<and> cfgNamespace (rnCfg r) = cfgNamespace cfg
    \<and> (\<forall>q\<in>set (ssReq s). rqSub q < length (rnStore r) \<and> subStream (rnStore r ! rqSub q) = Some (rqID q))"
proof -
  have w: "wireOK (ssMain s) r" "answersOK r (ssReq s)"
    using reachable_wire [OF assms(1)] by (simp_all add: wireInv_def r_def)
  have "mainOK (ssMain s) r" using sessionOK_D(2) [OF reachable_OK [OF assms(1)]] by (simp add: r_def)
  then have "length (rnStore r) = Suc m" if "ssMain s = MSend ph m" for ph m
    using that by (auto simp: mainOK_def allRoles_def dest!: arg_cong [of _ _ length])
  with w(1) have "case ssMain s of
       MDial \<Rightarrow> rnSent r = [] | MSink u \<Rightarrow> rnSent r = [] | MSetup u \<Rightarrow> rnSent r = []
     | MSend ph m \<Rightarrow> spoken r m (rnSent r) \<and> length (rnStore r) = Suc m \<and> subStream (rnStore r ! m) = None
     | MReturn (Some e) \<Rightarrow> (\<exists>said more. rnSent r = said @ more \<and> length more \<le> 1
         \<and> (said = [] \<or> (\<exists>n. spoken r n said)))
     | _ \<Rightarrow> spoken r (length (rnStore r)) (rnSent r)"
    by (simp add: wireOK_def subView_def split: mainPC.splits)
  moreover have "rnCfg r = cfg" using reachable_shutdownOK [OF assms(1)] by (simp add: shutdownOK_def r_def)
  moreover have "rqSub q < length (rnStore r) \<and> subStream (rnStore r ! rqSub q) = Some (rqID q)"
    if "q \<in> set (ssReq s)" for q
    using w(2) that by (auto simp: answersOK_def subView_def)
  ultimately show ?thesis by simp
qed

theorem wire_history_witness:
  "\<exists>s m ns. reachable demoConfig s \<and> ssMain s = MReturn None \<and> rnSent (ssRunner s) = m # ns
     \<and> setsUp (rnControlStream (ssRunner s)) m \<and> fst m = 2
     \<and> list_all2 (asksFor ''a/b'') (map subView (rnStore (ssRunner s))) ns"
proof -
  obtain s where s: "reachable demoConfig s" "ssMain s = MReturn None" "rnControlStream (ssRunner s) = Some 2"
    by (rule demo_states) blast
  from wire_history [OF s(1)] s(2) obtain m ns where "rnSent (ssRunner s) = m # ns"
      "setsUp (rnControlStream (ssRunner s)) m" "list_all2 (asksFor ''a/b'') (map subView (rnStore (ssRunner s))) ns"
    by (auto simp: spoken_def demoConfig_def)
  moreover from this s(3) have "fst m = 2" by (simp add: setsUp_def)
  ultimately show ?thesis using s(1,2) by blast
qed

end
