(* ===== verification/Page.thy ===== *)
theory Page
  imports RichLog "HOL-Library.Sublist"
begin

text \<open>
  \<^verbatim>\<open>internal/richlog/html.go\<close>: the HTML page of a session.

  The template is executed into pieces: text of the template (\<open>Raw\<close>), a value in the text of an
  element or in a quoted attribute (\<open>Esc\<close>), and a value that is a link (\<open>Link\<close>).  \<open>showPiece\<close> writes a piece as
  \<^verbatim>\<open>html/template\<close> does, which escapes by the context of the value.  To see what this gives a reader,
  \<open>browse\<close> reads a page like a browser, as far as tags, quoted values and character references go.
\<close>

subsection \<open>Escaping\<close>

definition escapeChar :: "char \<Rightarrow> string" where
  "escapeChar c =
     (if c = CHR 0x00 then replacement else if c = quote then ''&#34;'' else if c = CHR ''&'' then ''&amp;''
      else if c = CHR 0x27 then ''&#39;'' else if c = CHR ''+'' then ''&#43;'' else if c = CHR ''<'' then ''&lt;''
      else if c = CHR ''>'' then ''&gt;'' else [c])"

definition htmlEscape :: "string \<Rightarrow> string" where
  "htmlEscape s = concat (map escapeChar s)"

text \<open>A link: other schemes than these three are replaced, and what a URL cannot hold is written in hexadecimal.\<close>

definition filterURL :: "string \<Rightarrow> string" where
  "filterURL s =
     (let (protocol, rest) = cutAt (CHR '':'') s
      in if rest \<noteq> None \<and> CHR ''/'' \<notin> set protocol \<and> foldName protocol \<notin> {''HTTP'', ''HTTPS'', ''MAILTO''}
         then ''#ZgotmplZ'' else s)"

fun normalizeURL :: "string \<Rightarrow> string" where
  "normalizeURL [] = []"
| "normalizeURL (c # s) =
     (if isAlnum c \<or> c \<in> set ''!#$&*+,/:;=?@[]-._~''
        \<or> (c = CHR ''%'' \<and> 2 \<le> length s \<and> isHex (s ! 0) \<and> isHex (s ! 1))
      then c # normalizeURL s else CHR ''%'' # hexPad 2 (of_char c) @ normalizeURL s)"

datatype piece = Raw string | Esc string | Link string

fun showPiece :: "piece \<Rightarrow> string" where
  "showPiece (Raw s) = s"
| "showPiece (Esc s) = htmlEscape s"
| "showPiece (Link s) = htmlEscape (normalizeURL (filterURL s))"

definition showPieces :: "piece list \<Rightarrow> string" where
  "showPieces ps = concat (map showPiece ps)"

subsection \<open>The template\<close>

definition sectionSign :: string where "sectionSign = [CHR 0xC2, CHR 0xA7]"
definition triangle :: string where "triangle = [CHR 0xE2, CHR 0x96, CHR 0xB8]"

abbreviation nl :: string where "nl \<equiv> [CHR 0x0A]"

definition textLines :: "string list \<Rightarrow> string" where
  "textLines ls = concat (map (\<lambda>l. l @ nl) ls)"

definition pageHead :: string where
  \<open>pageHead = textLines
 [''<!DOCTYPE html>'',
  ''<html lang="en">'',
  ''<head>'',
  ''<meta charset="utf-8">'',
  ''<meta name="viewport" content="width=device-width, initial-scale=1">'',
  ''<title>moqsub session log</title>'']\<close>

definition pageStyle :: string where
  \<open>pageStyle = textLines
 [''<style>'',
  '':root {'',
  ''  --bg: #0c0f14; --card: #141a24; --card2: #101620; --border: #243044;'',
  ''  --text: #e8edf5; --muted: #8b9bb4; --dim: #5c6b82;'',
  ''  --accent: #5eead4; --accent-soft: rgba(94,234,212,.12);'',
  ''  --sent: #60a5fa; --recv: #34d399; --local: #a78bfa; --err: #f87171;'',
  ''  --mono: "SF Mono", "JetBrains Mono", ui-monospace, Menlo, monospace;'',
  ''  --sans: system-ui, -apple-system, "Segoe UI", sans-serif;'',
  ''}'',
  ''* { box-sizing: border-box; }'',
  ''body { margin: 0; background: var(--bg); color: var(--text); font-family: var(--sans); line-height: 1.55; }'',
  ''header { padding: 2.2rem 1.5rem 1.6rem; border-bottom: 1px solid var(--border);'',
  ''  background: radial-gradient(ellipse 70% 90% at 50% -30%, var(--accent-soft), transparent); }'',
  ''header h1 { margin: 0 0 .3rem; font-size: 1.35rem; letter-spacing: -.01em; }'',
  ''header .sub { color: var(--muted); font-size: .85rem; margin: 0; }'',
  ''.chips { display: flex; flex-wrap: wrap; gap: .4rem .6rem; margin-top: 1rem; }'',
  ''.chip { font-family: var(--mono); font-size: .68rem; color: var(--muted);'',
  ''  background: var(--card); border: 1px solid var(--border); border-radius: 999px; padding: .18rem .6rem; }'',
  ''.chip b { color: var(--accent); font-weight: 500; }'',
  ''main { max-width: 60rem; margin: 0 auto; padding: 1.5rem 1rem 4rem; }'',
  ''.controls { display: flex; gap: .5rem; margin-bottom: 1rem; }'',
  ''.controls button { font: inherit; font-size: .75rem; color: var(--muted); background: var(--card);'',
  ''  border: 1px solid var(--border); border-radius: 6px; padding: .3rem .7rem; cursor: pointer; }'',
  ''.controls button:hover { color: var(--text); border-color: var(--dim); }'',
  ''.event { border: 1px solid var(--border); border-radius: 10px; background: var(--card);'',
  ''  margin-bottom: .5rem; overflow: hidden; }'',
  ''.event summary { display: flex; align-items: center; gap: .6rem; flex-wrap: wrap;'',
  ''  padding: .5rem .8rem; cursor: pointer; list-style: none; }'',
  ''.event summary::-webkit-details-marker { display: none; }'',
  ''.event summary::before { content: "'' @ triangle @ ''"; color: var(--dim); font-size: .7rem; transition: transform .12s; }'',
  ''.event[open] summary::before { transform: rotate(90deg); }'',
  ''.event .time { font-family: var(--mono); font-size: .68rem; color: var(--dim); min-width: 6.2rem; }'',
  ''.badge { font-family: var(--mono); font-size: .62rem; padding: .1rem .45rem; border-radius: 4px;'',
  ''  border: 1px solid; white-space: nowrap; }'',
  ''.dir-sent .badge.dir { color: var(--sent); border-color: var(--sent); background: rgba(96,165,250,.08); }'',
  ''.dir-received .badge.dir { color: var(--recv); border-color: var(--recv); background: rgba(52,211,153,.08); }'',
  ''.dir-local .badge.dir { color: var(--local); border-color: var(--local); background: rgba(167,139,250,.08); }'',
  ''.name { font-family: var(--mono); font-size: .78rem; font-weight: 600; }'',
  ''.err .name { color: var(--err); }'',
  ''.chan { font-family: var(--mono); font-size: .64rem; color: var(--muted);'',
  ''  background: var(--card2); border: 1px solid var(--border); border-radius: 4px; padding: .08rem .4rem; }'',
  ''.oneline { color: var(--muted); font-size: .76rem; flex: 1; min-width: 12rem;'',
  ''  overflow: hidden; text-overflow: ellipsis; white-space: nowrap; }'',
  ''.detail { border-top: 1px solid var(--border); background: var(--card2); padding: .8rem 1rem 1rem; }'',
  ''.explain { font-size: .82rem; color: var(--text); max-width: 46rem; margin: 0 0 .7rem; }'',
  ''.speclink { font-size: .74rem; }'',
  ''.speclink a { color: var(--accent); }'',
  ''table.fields { border-collapse: collapse; font-family: var(--mono); font-size: .72rem; margin: .5rem 0; }'',
  ''table.fields td { border: 1px solid var(--border); padding: .25rem .6rem; }'',
  ''table.fields td.k { color: var(--muted); }'',
  ''table.fields td.v { color: var(--accent); }'',
  ''pre.body { font-family: var(--mono); font-size: .7rem; background: #0a0d12; border: 1px solid var(--border);'',
  ''  border-radius: 8px; padding: .7rem .9rem; overflow-x: auto; color: #a8b8d0; }'',
  ''table.objects { border-collapse: collapse; font-family: var(--mono); font-size: .7rem; margin-top: .5rem; }'',
  ''table.objects th, table.objects td { border: 1px solid var(--border); padding: .2rem .6rem; text-align: right; }'',
  ''table.objects th { color: var(--muted); font-weight: 500; background: var(--card); }'',
  ''table.objects td:first-child { color: var(--dim); }'',
  ''footer { text-align: center; color: var(--dim); font-size: .72rem; padding: 1.5rem; }'',
  ''</style>'']\<close>

definition pageTitle :: string where
  \<open>pageTitle = textLines
 [''</head>'',
  ''<body>'',
  ''<header>'',
  ''  <h1>moqsub session log</h1>'',
  ''  <p class="sub">Media over QUIC Transport (draft-18) '' @ emDash @ '' every message exchanged, in order. Click a row to expand.</p>'',
  ''  <div class="chips">'']\<close>

definition pageControls :: string where
  \<open>pageControls = textLines
 [''  </div>'',
  ''</header>'',
  ''<main>'',
  ''  <div class="controls">'',
  ''    <button onclick="document.querySelectorAll('details.event').forEach(d=>d.open=true)">Expand all</button>'',
  ''    <button onclick="document.querySelectorAll('details.event').forEach(d=>d.open=false)">Collapse all</button>'',
  ''  </div>'']\<close>

definition pageFoot :: string where
  \<open>pageFoot = textLines
 [''</main>'',
  ''<footer>Generated by moqsub '' @ middot @ '' spec links point to draft-ietf-moq-transport-18 on datatracker.ietf.org</footer>'',
  ''</body>'',
  ''</html>'']\<close>

text \<open>The parts of an event; \<open>quoted\<close> is \<^verbatim>\<open>strconv.Quote\<close> and \<open>zone\<close> the local time zone.\<close>

definition metaPieces :: "string \<times> string \<Rightarrow> piece list" where
  \<open>metaPieces m = [Raw ''<span class="chip">'', Esc (fst m), Raw '' <b>'', Esc (snd m), Raw ''</b></span>'']\<close>

definition titlePieces :: "Direction \<Rightarrow> string \<Rightarrow> string \<Rightarrow> piece list" where
  \<open>titlePieces d name ts =
     [Raw (nl @ ''  <details class="event ''), Esc (dirClass d)]
     @ (if name = ''REQUEST_ERROR'' then [Raw '' err''] else [])
     @ [Raw (''">'' @ nl @ ''    <summary>'' @ nl @ ''      <span class="time">''), Esc ts,
        Raw (''</span>'' @ nl @ ''      <span class="badge dir">''), Esc (dirLabel d),
        Raw (''</span>'' @ nl @ ''      <span class="name">''), Esc name, Raw (''</span>'' @ nl @ ''      '')]\<close>

definition channelPieces :: "string \<Rightarrow> piece list" where
  \<open>channelPieces channel =
     (if channel \<noteq> [] then [Raw ''<span class="chan">'', Esc channel, Raw ''</span>''] else [])\<close>

definition oneLinePieces :: "string \<Rightarrow> piece list" where
  \<open>oneLinePieces summary =
     [Raw (nl @ ''      <span class="oneline">''), Esc summary,
      Raw (''</span>'' @ nl @ ''    </summary>'' @ nl @ ''    <div class="detail">'' @ nl @ ''      '')]\<close>

definition explainPieces :: "string \<Rightarrow> piece list" where
  \<open>explainPieces explain = (if explain \<noteq> [] then [Raw ''<p class="explain">'', Esc explain, Raw ''</p>''] else [])\<close>

definition specPieces :: "SpecRef \<Rightarrow> piece list" where
  \<open>specPieces sp =
     (if specSection sp \<noteq> [] then
        [Raw ''<p class="speclink">Spec: <a href="'', Link (specURL sp),
         Raw (''" target="_blank" rel="noopener">draft-ietf-moq-transport-18 '' @ sectionSign), Esc (specSection sp)]
        @ (if specLabel sp \<noteq> [] then [Raw ('' '' @ emDash @ '' ''), Esc (specLabel sp)] else [])
        @ [Raw ''</a></p>'']
      else [])\<close>

definition fieldPieces :: "(string \<times> string) list \<Rightarrow> piece list" where
  \<open>fieldPieces fs =
     (if fs \<noteq> [] then
        [Raw (nl @ ''      <table class="fields">'' @ nl @ ''        '')]
        @ concat (map (\<lambda>(k, v). [Raw ''<tr><td class="k">'', Esc k, Raw ''</td><td class="v">'', Esc v,
                                 Raw ''</td></tr>'']) fs)
        @ [Raw (nl @ ''      </table>'' @ nl @ ''      '')]
      else [])\<close>

definition bodyPieces :: "string \<Rightarrow> piece list" where
  \<open>bodyPieces body = (if body \<noteq> [] then [Raw ''<pre class="body">'', Esc body, Raw ''</pre>''] else [])\<close>

definition objectPieces :: "(int \<Rightarrow> int) \<Rightarrow> objectGroup option \<Rightarrow> piece list" where
  \<open>objectPieces zone grp =
     (case grp of
        None \<Rightarrow> []
      | Some g \<Rightarrow>
          [Raw (nl @ ''      <table class="objects">'' @ nl
                @ ''        <tr><th>time</th><th>object_id</th><th>payload</th></tr>'' @ nl @ ''        '')]
          @ concat (map (\<lambda>row. [Raw ''<tr><td>'', Esc (clockMillis zone (rowTime row)), Raw ''</td><td>'',
                                 Esc (showBase 10 (unat (rowObjectID row))), Raw ''</td><td>'',
                                 Esc (humanBytes (rowBytes row)), Raw ''</td></tr>'']) (grpRows g))
          @ [Raw (nl @ ''      </table>'' @ nl @ ''      '')])\<close>

abbreviation between :: piece where "between \<equiv> Raw (nl @ ''      '')"

definition eventPieces :: "(string \<Rightarrow> string) \<Rightarrow> (int \<Rightarrow> int) \<Rightarrow> objectGroup list \<Rightarrow> Event \<Rightarrow> piece list" where
  \<open>eventPieces quoted zone store ev =
     titlePieces (evDir ev) (evName ev) (clockMillis zone (evTime ev))
     @ channelPieces (render quoted (evChannel ev))
     @ oneLinePieces (render quoted (summaryLine store ev))
     @ explainPieces (evExplain ev) @ [between]
     @ specPieces (evSpec ev) @ [between]
     @ fieldPieces (map (\<lambda>f. (render quoted (fieldKey f), render quoted (fieldValue f))) (evFields ev)) @ [between]
     @ bodyPieces (evBody ev) @ [between]
     @ objectPieces zone (map_option (\<lambda>i. store ! i) (evObjects ev))
     @ [Raw (nl @ ''    </div>'' @ nl @ ''  </details>'' @ nl @ ''  '')]\<close>

text \<open>
  The data handed to the template.  The iteration order of the map does not matter: the keys are
  distinct and are sorted.  \<open>pgGroups\<close> are the object groups the events point to.
\<close>

record PageData =
  pgGenerated :: string
  pgDuration :: string
  pgMetas :: "(string \<times> string) list"
  pgEvents :: "Event list"
  pgNumEvents :: nat
  pgGroups :: "objectGroup list"

definition pageData :: "(int \<Rightarrow> int) \<Rightarrow> int \<Rightarrow> Recorder \<Rightarrow> PageData" where
  "pageData zone now r =
     \<lparr>pgGenerated = dateText zone now, pgDuration = durationText (durationRound (now - recStart r) (10 ^ 6)),
      pgMetas = sort_key fst (recMeta r), pgEvents = recEvents r, pgNumEvents = length (recEvents r),
      pgGroups = recStore r\<rparr>"

definition pagePieces :: "(string \<Rightarrow> string) \<Rightarrow> (int \<Rightarrow> int) \<Rightarrow> PageData \<Rightarrow> piece list" where
  \<open>pagePieces quoted zone d =
     [Raw pageHead, Raw pageStyle, Raw pageTitle, Raw ''    '']
     @ concat (map metaPieces (pgMetas d))
     @ [Raw (nl @ ''    <span class="chip">events <b>''), Esc (showBase 10 (pgNumEvents d)),
        Raw (''</b></span>'' @ nl @ ''    <span class="chip">duration <b>''), Esc (pgDuration d),
        Raw (''</b></span>'' @ nl @ ''    <span class="chip">generated <b>''), Esc (pgGenerated d),
        Raw (''</b></span>'' @ nl), Raw pageControls, Raw ''  '']
     @ concat (map (eventPieces quoted zone (pgGroups d)) (pgEvents d))
     @ [Raw (nl @ pageFoot)]\<close>

definition pageText :: "(string \<Rightarrow> string) \<Rightarrow> (int \<Rightarrow> int) \<Rightarrow> PageData \<Rightarrow> string" where
  "pageText quoted zone d = showPieces (pagePieces quoted zone d)"

text \<open>\<open>create\<close> stands for \<^verbatim>\<open>os.Create\<close> and \<open>write\<close> for the writing of the page to the file.\<close>

definition WriteHTML ::
    "(string \<Rightarrow> gerr option) \<Rightarrow> (string \<Rightarrow> string \<Rightarrow> gerr option) \<Rightarrow> (string \<Rightarrow> string) \<Rightarrow> (int \<Rightarrow> int) \<Rightarrow> int
      \<Rightarrow> Recorder option \<Rightarrow> string \<Rightarrow> gerr option" where
  "WriteHTML create write quoted zone now r path =
     (case r of
        None \<Rightarrow> None
      | Some rc \<Rightarrow>
          if path = [] then None
          else (case create path of
                  Some e \<Rightarrow> Some (Wrapf ''create rich log: %w'' [] e)
                | None \<Rightarrow>
                    (case write path (pageText quoted zone (pageData zone now rc)) of
                       Some e \<Rightarrow> Some (Wrapf ''render rich log: %w'' [] e)
                     | None \<Rightarrow> None)))"

subsection \<open>Reading a page\<close>

text \<open>Where a character of a page stands: in the text, in a tag, or in a quoted value of a tag.\<close>

datatype place = InText | InTag | InValue

fun moves :: "place \<Rightarrow> char \<Rightarrow> place" where
  "moves InText c = (if c = CHR ''<'' then InTag else InText)"
| "moves InTag c = (if c = CHR ''>'' then InText else if c = quote then InValue else InTag)"
| "moves InValue c = (if c = quote then InTag else InValue)"

fun walk :: "place \<Rightarrow> string \<Rightarrow> place" where
  "walk p [] = p"
| "walk p (c # s) = walk (moves p c) s"

text \<open>The character reference at the front, with the number of characters after its ampersand.\<close>

definition charRef :: "string \<Rightarrow> (char \<times> nat) option" where
  "charRef s =
     (if prefix ''&lt;'' s then Some (CHR ''<'', 3) else if prefix ''&gt;'' s then Some (CHR ''>'', 3)
      else if prefix ''&amp;'' s then Some (CHR ''&'', 4) else if prefix ''&#34;'' s then Some (quote, 4)
      else if prefix ''&#39;'' s then Some (CHR 0x27, 4) else if prefix ''&#43;'' s then Some (CHR ''+'', 4)
      else None)"

fun browse :: "place \<Rightarrow> string \<Rightarrow> (place \<times> char) list" where
  "browse p [] = []"
| "browse p (c # s) =
     (case (if p = InTag then None else charRef (c # s)) of
        Some (d, n) \<Rightarrow> (p, d) # browse p (drop n s)
      | None \<Rightarrow> (p, c) # browse (moves p c) s)"

text \<open>What a reader is meant to see: every value as it is, at the place where the template has it.\<close>

definition cleaned :: "string \<Rightarrow> string" where
  "cleaned s = concat (map (\<lambda>c. if c = CHR 0x00 then replacement else [c]) s)"

fun along :: "place \<Rightarrow> string \<Rightarrow> (place \<times> char) list" where
  "along p [] = []"
| "along p (c # s) = (p, c) # along (moves p c) s"

fun seen :: "place \<Rightarrow> piece list \<Rightarrow> (place \<times> char) list" where
  "seen p [] = []"
| "seen p (Raw r # ps) = along p r @ seen (walk p r) ps"
| "seen p (Esc v # ps) = map (Pair p) (cleaned v) @ seen p ps"
| "seen p (Link v # ps) = map (Pair p) (cleaned (normalizeURL (filterURL v))) @ seen p ps"

text \<open>Values stand in the text or in a quoted value, links in a quoted value; \<open>q\<close> is where the pieces end.\<close>

fun placed :: "place \<Rightarrow> piece list \<Rightarrow> place \<Rightarrow> bool" where
  "placed p [] q = (p = q)"
| "placed p (Raw r # ps) q = (CHR ''&'' \<notin> set r \<and> placed (walk p r) ps q)"
| "placed p (Esc v # ps) q = (p \<noteq> InTag \<and> placed p ps q)"
| "placed p (Link v # ps) q = (p = InValue \<and> placed p ps q)"

text \<open>The pieces with all values left out.\<close>

fun blank :: "piece \<Rightarrow> piece" where
  "blank (Raw s) = Raw s"
| "blank (Esc s) = Esc []"
| "blank (Link s) = Esc []"

subsection \<open>Lemmas\<close>

lemma browse_plain:
  "p \<noteq> InTag \<Longrightarrow> c \<notin> {CHR ''&'', CHR ''<'', CHR ''>'', quote} \<Longrightarrow> browse p (c # t) = (p, c) # browse p t"
  by (cases p) (auto simp: charRef_def)

lemma browse_escapeChar:
  assumes "p \<noteq> InTag"
  shows "browse p (escapeChar c @ t) = map (Pair p) (if c = CHR 0x00 then replacement else [c]) @ browse p t"
proof -
  have r: "replacement = [CHR 0xEF, CHR 0xBF, CHR 0xBD]"
    unfolding replacement_def encodeRune_def by (simp add: char_eq_code)
  consider "c = CHR 0x00" | "c \<in> {quote, CHR ''&'', CHR 0x27, CHR ''+'', CHR ''<'', CHR ''>''}"
    | "c \<notin> {CHR 0x00, quote, CHR ''&'', CHR 0x27, CHR ''+'', CHR ''<'', CHR ''>''}" by blast
  then show ?thesis
  proof cases
    case 1
    then show ?thesis using assms by (simp add: escapeChar_def r browse_plain del: browse.simps)
  next
    case 2
    then show ?thesis using assms by (auto simp: escapeChar_def charRef_def)
  next
    case 3
    then show ?thesis using assms by (simp add: escapeChar_def browse_plain del: browse.simps)
  qed
qed

lemma browse_escape:
  "p \<noteq> InTag \<Longrightarrow> browse p (htmlEscape s @ t) = map (Pair p) (cleaned s) @ browse p t"
  by (induction s) (simp_all add: htmlEscape_def cleaned_def browse_escapeChar del: browse.simps(2))

lemma browse_raw: "CHR ''&'' \<notin> set r \<Longrightarrow> browse p (r @ t) = along p r @ browse (walk p r) t"
  by (induction r arbitrary: p) (auto simp: charRef_def)

lemma browse_pieces: "placed p ps q \<Longrightarrow> browse p (showPieces ps) = seen p ps"
proof (induction ps arbitrary: p)
  case (Cons x ps)
  then show ?case by (cases x) (auto simp: showPieces_def browse_raw browse_escape)
qed (simp add: showPieces_def)

lemma placed_append: "placed p ps m \<Longrightarrow> placed m qs q \<Longrightarrow> placed p (ps @ qs) q"
proof (induction ps arbitrary: p)
  case (Cons x ps)
  then show ?case by (cases x) auto
qed simp

lemma placed_concat: "(\<And>ps. ps \<in> set pss \<Longrightarrow> placed p ps p) \<Longrightarrow> placed p (concat pss) p"
  by (induction pss) (auto intro: placed_append)

lemma markup_seen:
  "placed p ps q \<Longrightarrow> filter (\<lambda>x. fst x = InTag) (seen p ps) = filter (\<lambda>x. fst x = InTag) (seen p (map blank ps))"
proof (induction ps arbitrary: p)
  case (Cons x ps)
  then show ?case by (cases x) (auto simp: cleaned_def filter_empty_conv)
qed simp

lemma placed_blank: "placed p ps q \<Longrightarrow> placed p (map blank ps) q"
proof (induction ps arbitrary: p)
  case (Cons x ps)
  then show ?case by (cases x) auto
qed simp

subsection \<open>The pieces of the page\<close>

lemma walk_append [simp]: "walk p (s @ t) = walk (walk p s) t"
  by (induction s arbitrary: p) simp_all

named_theorems piece_defs \<open>the pieces of an event\<close>

lemmas [piece_defs] = metaPieces_def titlePieces_def channelPieces_def oneLinePieces_def explainPieces_def
  specPieces_def bodyPieces_def

lemma page_walks:
  "walk InText pageHead = InText" "walk InText pageStyle = InText" "walk InText pageTitle = InText"
  "walk InText pageControls = InText" "walk InText pageFoot = InText"
  by code_simp+

fun keepsPlain :: "bool \<Rightarrow> char \<Rightarrow> bool" where
  "keepsPlain b c = (if c = CHR ''&'' then False else b)"

fun plainFrom :: "bool \<Rightarrow> string \<Rightarrow> bool" where
  "plainFrom b [] = b"
| "plainFrom b (c # s) = plainFrom (keepsPlain b c) s"

lemma plainFrom_False [simp]: "\<not> plainFrom False s"
  by (induction s) simp_all

lemma plainFrom_iff: "plainFrom True s \<longleftrightarrow> CHR ''&'' \<notin> set s"
  by (induction s) auto

lemma page_plain:
  "plainFrom True pageHead" "plainFrom True pageStyle" "plainFrom True pageTitle" "plainFrom True pageControls"
  "plainFrom True pageFoot"
  by code_simp+

lemma placed_parts:
  "placed InText (metaPieces m) InText" "placed InText (titlePieces d name ts) InText"
  "placed InText (channelPieces c) InText" "placed InText (oneLinePieces x) InText"
  "placed InText (explainPieces e) InText" "placed InText (specPieces sp) InText"
  "placed InText (bodyPieces b) InText"
  by (simp_all add: piece_defs sectionSign_def emDash_def)

lemma placed_fields: "placed InText (fieldPieces fs) InText"
proof -
  have "placed InText (concat (map (\<lambda>(k, v). [Raw ''<tr><td class=\"k\">'', Esc k,
          Raw ''</td><td class=\"v\">'', Esc v, Raw ''</td></tr>'']) fs)) InText"
    by (rule placed_concat) auto
  then show ?thesis
    unfolding fieldPieces_def by (auto intro!: placed_append [where m = InText])
qed

lemma placed_objects: "placed InText (objectPieces zone grp) InText"
proof (cases grp)
  case (Some g)
  have "placed InText (concat (map (\<lambda>row. [Raw ''<tr><td>'', Esc (clockMillis zone (rowTime row)),
          Raw ''</td><td>'', Esc (showBase 10 (unat (rowObjectID row))), Raw ''</td><td>'',
          Esc (humanBytes (rowBytes row)), Raw ''</td></tr>'']) (grpRows g))) InText"
    by (rule placed_concat) auto
  then show ?thesis
    unfolding objectPieces_def Some option.case by (intro placed_append [where m = InText]) auto
qed (simp add: objectPieces_def)

lemma placed_event: "placed InText (eventPieces quoted zone store ev) InText"
  unfolding eventPieces_def
  by (intro placed_append [where m = InText] placed_parts placed_fields placed_objects) simp_all

lemma placed_page: "placed InText (pagePieces quoted zone d) InText"
  unfolding pagePieces_def
  by (intro placed_append [where m = InText] placed_concat)
     (auto simp: page_walks page_plain plainFrom_iff [symmetric] placed_parts placed_event)


end
