(* ===== verification/SessionLog.thy ===== *)
theory SessionLog
  imports SessionWire Page
begin

text \<open>
  The rich log of a session against what the session has sent: the page shows the messages of the
  client, each with the stream it went to, in the order they were sent.  \<open>sentLog\<close> is the part of
  the recorder this is about; only the main goroutine adds to it.
\<close>

definition sentEvents :: "Recorder \<Rightarrow> Event list" where
  "sentEvents rc = filter (\<lambda>e. evDir e = DirSent) (recEvents rc)"

definition sentLog :: "Runner \<Rightarrow> Event list option" where
  "sentLog r = map_option sentEvents (rnRich r)"

subsection \<open>Who adds to the log\<close>

lemma sentLog_update [simp]:
  "sentLog (r\<lparr>rnSent := x1\<rparr>) = sentLog r" "sentLog (r\<lparr>rnStats := x2\<rparr>) = sentLog r"
  "sentLog (r\<lparr>rnWrites := x3\<rparr>) = sentLog r" "sentLog (r\<lparr>rnSubs := x4\<rparr>) = sentLog r"
  "sentLog (r\<lparr>rnPeerSetupSeen := x5\<rparr>) = sentLog r" "sentLog (r\<lparr>rnStore := x6\<rparr>) = sentLog r"
  "sentLog (r\<lparr>rnControlStream := x7\<rparr>) = sentLog r" "sentLog (updStats f r) = sentLog r"
  "sentLog (updSub m g r) = sentLog r" "sentLog (sendFirst m p r) = sentLog r" "sentLog (sendOk m res r) = sentLog r"
  by (simp_all add: sentLog_def updStats_def updSub_def sendFirst_def sendOk_def)

lemma sentLog_richAdd:
  "sentLog (richAdd now ev r)
    = map_option (\<lambda>es. es @ (if evDir ev = DirSent then [if evTime ev = 0 then ev\<lparr>evTime := now\<rparr> else ev] else []))
        (sentLog r)"
  by (cases "rnRich r") (auto simp: sentLog_def richAdd_def sentEvents_def)

lemma sentLog_received [simp]: "evDir ev \<noteq> DirSent \<Longrightarrow> sentLog (richAdd now ev r) = sentLog r"
  by (simp add: sentLog_richAdd option.map_ident)

lemma sentLog_object [simp]: "sentLog (richAddObject now sid tr al gid oid n r) = sentLog r"
  by (cases "rnRich r") (auto simp: sentLog_def richAddObject_def sentEvents_def objectGroupFor_def Let_def
      split: option.splits prod.splits)

lemma event_directions [simp]:
  "evDir (connectedEvent remote r) = DirLocal" "evDir (catalogEvent p c i m) = DirLocal"
  "evDir (initWrittenEvent i p) = DirLocal" "evDir (setupReceivedEvent su) = DirRecv"
  "evDir (goAwayEvent p) = DirRecv" "evDir (subscribeOKEvent sid x ok) = DirRecv"
  "evDir (subgroupHeaderEvent sid tn h) = DirRecv"
  by (simp_all add: connectedEvent_def catalogEvent_def initWrittenEvent_def setupReceivedEvent_def
      goAwayEvent_def subscribeOKEvent_def subgroupHeaderEvent_def event_def)

lemma sentLog_rejected [simp]: "sentLog (logSubscribeRejected now e x r) = sentLog r"
  by (cases x) (simp_all add: logSubscribeRejected_def event_def Let_def)

lemma uniStep_log: "uniStep now werr t r = (t', r') \<Longrightarrow> sentLog r' = sentLog r"
  by (cases "usPC t")
    (auto simp: uniStep_def stepStart_def stepCtlFirst_def stepCtlLoop_def stepControl_def stepHeader_def
      stepNext_def stepDeliver_def stepDelivered_def writePayload_def dispatchControlMessage_def
      beginSubgroup_def countObject_def logObject_def recordFirstObject_def countBytes_def Let_def
      split: prod.splits outcome.splits option.splits if_splits trackRole.splits)

lemma reqStep_log: "reqStep now t r = (t', r') \<Longrightarrow> sentLog r' = sentLog r"
  by (auto simp: reqStep_def stepRequest_def rgoto_def Let_def
      split: reqPC.splits prod.splits outcome.splits if_splits)

lemma waits_log:
  "waitSubscribeOK k s r = Some (x, r') \<Longrightarrow> sentLog r' = sentLog r"
  "waitFirstObject k s r = Some (y, r') \<Longrightarrow> sentLog r' = sentLog r"
  "afterObject w ph p r = Some (pc, r') \<Longrightarrow> sentLog r' = sentLog r"
  "loopError e r = (pc, r') \<Longrightarrow> sentLog r' = sentLog r"
  by (auto simp: waitSubscribeOK_def waitFirstObject_def afterObject_def loopError_def Let_def
      split: wake.splits list.splits option.splits phase.splits outcome.splits if_splits)

lemma mainStep_log:
  assumes "mainStep w k pc r = Some (pc', r', q)" and "\<forall>u. pc \<noteq> MSetup u" and "\<forall>ph m. pc \<noteq> MSend ph m"
  shows "sentLog r' = sentLog r \<and> rnSent r' = rnSent r"
proof (cases pc)
  case (MWaitOK ph m)
  with assms(1) show ?thesis
    using waits_log(1) wireView_D(3) [OF waits_view(1)] by (auto simp: mainStep_defs split: option.splits)
next
  case (MWaitObj ph m)
  with assms(1) show ?thesis
    using waits_log(2,3) wireView_D(3) [OF waits_view(2)] wireView_D(3) [OF waits_view(3)]
    by (auto simp: mainStep_defs split: option.splits sum.splits)
next
  case MLoop
  with assms(1) show ?thesis
    using waits_log(4) wireView_D(3) [OF waits_view(4)] by (auto simp: mainStep_defs split: wake.splits prod.splits)
qed (use assms in \<open>auto simp: mainStep_defs newTrackSubscription_def writePayload_def countBytes_def
      updStats_def Let_def split: outcome.splits option.splits wake.splits if_splits prod.splits\<close>)

subsection \<open>Messages and their events\<close>

text \<open>An event reports a message: the stream it was sent on, and what the relay reads in it.\<close>

definition reportsSetup :: "Event \<Rightarrow> u64 \<times> bytes \<Rightarrow> bool" where
  "reportsSetup ev m \<longleftrightarrow> (\<exists>u body. snd m = frameBytes MsgSetup body \<and> EncodeSetup \<lparr>Options = setupOptions u\<rparr> = Ok body
     \<and> evName ev = ''SETUP'' \<and> evFields ev = evFields (setupSentEvent (fst m) u))"

definition reportsSubscribe :: "string \<Rightarrow> Event \<Rightarrow> u64 \<times> bytes \<Rightarrow> bool" where
  "reportsSubscribe ns ev m \<longleftrightarrow> (\<exists>rid track role. asksFor ns (rid, track, Some (fst m)) m
     \<and> evName ev = ''SUBSCRIBE''
     \<and> evFields ev = [fldNum ''request_id'' rid, fld ''track_namespace'' (showStrings (splitNamespace ns)),
         fld ''track_name'' track, fld ''role (local)'' (roleString role), fldNum ''stream_id'' (fst m)])"

definition reports :: "string \<Rightarrow> Event \<Rightarrow> u64 \<times> bytes \<Rightarrow> bool" where
  "reports ns ev m \<longleftrightarrow> evDir ev = DirSent \<and> (reportsSetup ev m \<or> reportsSubscribe ns ev m)"

lemma WriteFrame_written: "WriteFrame (streamWrite werr) [] t p = (None, sent) \<Longrightarrow> sent = frameBytes t p"
  by (cases "length p \<le> maxFrameLen"; cases werr)
    (auto simp: WriteFrame_ok streamWrite_def, simp_all add: WriteFrame_def maxFrameLen_def)

lemma setup_logs:
  assumes "sendClientSetup opened werr now u r = (e, r')"
  obtains "e \<noteq> None" "sentLog r' = sentLog r" "\<exists>more. length more \<le> 1 \<and> rnSent r' = rnSent r @ more"
  | ev m where "e = None" "rnSent r' = rnSent r @ [m]" "\<And>ns. reports ns ev m" "sentLog r' = map_option (\<lambda>es. es @ [ev]) (sentLog r)"
proof (cases e)
  case None
  then obtain sid body where b: "opened = Inr sid" "EncodeSetup \<lparr>Options = setupOptions u\<rparr> = Ok body"
      "WriteFrame (streamWrite werr) [] MsgSetup body = (None, frameBytes MsgSetup body)"
      "r' = richAdd now (setupSentEvent sid u)
        (r\<lparr>rnControlStream := Some sid, rnSent := rnSent r @ [(sid, frameBytes MsgSetup body)]\<rparr>)"
    using assms by (auto simp: sendClientSetup_def Let_def dest: WriteFrame_written
        split: sum.splits outcome.splits prod.splits option.splits)
  let ?ev = "(setupSentEvent sid u)\<lparr>evTime := now\<rparr>"
  have "reports ns ?ev (sid, frameBytes MsgSetup body)" for ns
    using b(2) by (auto simp: reports_def reportsSetup_def setupSentEvent_def event_def)
  moreover have "sentLog r' = map_option (\<lambda>es. es @ [?ev]) (sentLog r)"
    by (simp add: b(4) sentLog_richAdd) (simp add: setupSentEvent_def event_def)
  moreover have "rnSent r' = rnSent r @ [(sid, frameBytes MsgSetup body)]" by (simp add: b(4) richAdd_def)
  ultimately show thesis using None that(2) by blast
next
  case (Some x)
  then have "sentLog r' = sentLog r \<and> (\<exists>more. length more \<le> 1 \<and> rnSent r' = rnSent r @ more)"
    using assms by (auto simp: sendClientSetup_def Let_def split: sum.splits outcome.splits prod.splits option.splits)
  then show thesis using Some that(1) by blast
qed

lemma subscribe_logs:
  assumes "sendSubscribeMessage opened werr now m r = (x, r')" and "m < length (rnStore r)"
  obtains e where "x = Inl e" "sentLog r' = sentLog r" "\<exists>more. length more \<le> 1 \<and> rnSent r' = rnSent r @ more"
  | sid ev msg where "x = Inr sid" "rnSent r' = rnSent r @ [msg]" "reports (cfgNamespace (rnCfg r)) ev msg"
      "sentLog r' = map_option (\<lambda>es. es @ [ev]) (sentLog r)"
proof (cases x)
  case (Inl e)
  then have "sentLog r' = sentLog r"
    using assms(1) by (auto simp: sendSubscribeMessage_def Let_def split: sum.splits outcome.splits prod.splits option.splits)
  with Inl subscribe_says [OF assms] show thesis using that(1) by auto
next
  case (Inr sid)
  let ?sub = "rnStore r ! m" and ?ns = "cfgNamespace (rnCfg r)"
  let ?r = "updSub m (\<lambda>x. x\<lparr>subStream := Some sid\<rparr>) r"
  let ?ev = "(subscribeSentEvent sid ?sub ?r)\<lparr>evTime := now\<rparr>"
  obtain sent where r': "r' = richAdd now (subscribeSentEvent sid ?sub ?r) (?r\<lparr>rnSent := sent\<rparr>)"
    using assms(1) Inr by (auto simp: sendSubscribeMessage_def Let_def
        split: sum.splits outcome.splits prod.splits option.splits)
  from subscribe_says [OF assms] Inr obtain msg where msg: "fst msg = sid" "rnSent r' = rnSent r @ [msg]"
      "asksFor ?ns (subView (rnStore r' ! m)) msg" by auto
  moreover have "subView (rnStore r' ! m) = (subRequestID ?sub, subTrackName ?sub, Some sid)"
    using assms(2) by (simp add: r' richAdd_def updSub_def subView_def)
  ultimately have "reports ?ns ?ev msg"
    by (auto simp: reports_def reportsSubscribe_def subscribeSentEvent_def event_def updSub_def)
  moreover have "sentLog r' = map_option (\<lambda>es. es @ [?ev]) (sentLog r)"
    by (simp add: r' sentLog_richAdd) (simp add: subscribeSentEvent_def event_def)
  ultimately show thesis using Inr msg(2) that(2) by blast
qed

subsection \<open>Every session\<close>

text \<open>The messages sent so far have their events; after an error one message may be without.\<close>

definition logOK :: "string \<Rightarrow> mainPC \<Rightarrow> (u64 \<times> bytes) list \<Rightarrow> Event list option \<Rightarrow> bool" where
  "logOK ns pc sent shown \<longleftrightarrow> (case shown of
       None \<Rightarrow> True
     | Some es \<Rightarrow> \<exists>said more. sent = said @ more \<and> list_all2 (reports ns) es said \<and> length more \<le> 1
         \<and> (more \<noteq> [] \<longrightarrow> (\<exists>e. pc = MReturn (Some e))))"

lemma logOK_all: "list_all2 (reports ns) es sent \<Longrightarrow> logOK ns pc sent (Some es)"
  unfolding logOK_def option.case by (intro exI [of _ sent] exI [of _ "[]"]) simp

lemma logOK_D:
  "logOK ns pc sent (Some es) \<Longrightarrow> \<forall>e. pc \<noteq> MReturn (Some e) \<Longrightarrow> list_all2 (reports ns) es sent"
  by (auto simp: logOK_def)

lemma logOK_same: "logOK ns pc sent shown \<Longrightarrow> \<forall>e. pc \<noteq> MReturn (Some e) \<Longrightarrow> logOK ns pc' sent shown"
  by (cases shown) (use logOK_all logOK_D in \<open>auto simp: logOK_def [of _ _ _ None]\<close>)

lemma logOK_fails:
  assumes "logOK ns pc sent shown" and "\<forall>e. pc \<noteq> MReturn (Some e)" and "length rest \<le> 1"
  shows "logOK ns (MReturn (Some e)) (sent @ rest) shown"
proof (cases shown)
  case (Some es)
  with logOK_D [of ns pc sent es] assms have "list_all2 (reports ns) es sent" by simp
  with Some assms(3) show ?thesis by (auto simp: logOK_def)
qed (simp add: logOK_def)

lemma logOK_more:
  assumes "logOK ns pc sent shown" and "\<forall>e. pc \<noteq> MReturn (Some e)" and "reports ns ev m"
  shows "logOK ns pc' (sent @ [m]) (map_option (\<lambda>es. es @ [ev]) shown)"
proof (cases shown)
  case (Some es)
  with logOK_D [of ns pc sent es] assms have "list_all2 (reports ns) (es @ [ev]) (sent @ [m])"
    by (auto intro: list_all2_appendI)
  with Some show ?thesis by (simp add: logOK_all)
qed (simp add: logOK_def)

lemma mainStep_logs:
  assumes "mainStep w k pc r = Some (pc', r', q)" and "logOK (cfgNamespace (rnCfg r)) pc (rnSent r) (sentLog r)"
    and "mainOK pc r"
  shows "logOK (cfgNamespace (rnCfg r)) pc' (rnSent r') (sentLog r') \<and> (sentLog r' = None \<longleftrightarrow> sentLog r = None)"
proof -
  have go: "\<forall>e. pc \<noteq> MReturn (Some e)" using assms(1) by (auto simp: mainStep_defs)
  consider (begin_session) u where "pc = MSetup u" | (ask) ph m where "pc = MSend ph m"
    | (other) "\<forall>u. pc \<noteq> MSetup u" "\<forall>ph m. pc \<noteq> MSend ph m" by blast
  then show ?thesis
  proof cases
    case begin_session
    then obtain e where e: "sendClientSetup (wOpened w) (wWerr w) (wNow w) u r = (e, r')"
        "e \<noteq> None \<Longrightarrow> \<exists>x. pc' = MReturn (Some x)"
      using assms(1) by (auto simp: mainStep_def split: prod.splits option.splits)
    show ?thesis
    proof (rule setup_logs [OF e(1)])
      assume "e \<noteq> None" "sentLog r' = sentLog r" "\<exists>more. length more \<le> 1 \<and> rnSent r' = rnSent r @ more"
      with e(2) logOK_fails [OF assms(2) go] show ?thesis by auto
    next
      fix ev m
      assume "rnSent r' = rnSent r @ [m]" "\<And>ns. reports ns ev m" "sentLog r' = map_option (\<lambda>es. es @ [ev]) (sentLog r)"
      with logOK_more [OF assms(2) go] show ?thesis by simp
    qed
  next
    case ask
    then obtain x where x: "sendSubscribeMessage (wOpened w) (wWerr w) (wNow w) m r = (x, r')"
        "\<And>e. x = Inl e \<Longrightarrow> pc' = MReturn (Some e)"
      using assms(1) by (auto simp: mainStep_defs split: prod.splits sum.splits)
    from assms(3) ask have "m < length (rnStore r)"
      by (auto simp: mainOK_def allRoles_def dest!: arg_cong [of _ _ length])
    show ?thesis
    proof (rule subscribe_logs [OF x(1) \<open>m < length (rnStore r)\<close>])
      fix e
      assume "x = Inl e" "sentLog r' = sentLog r" "\<exists>more. length more \<le> 1 \<and> rnSent r' = rnSent r @ more"
      with x(2) logOK_fails [OF assms(2) go] show ?thesis by auto
    next
      fix ev msg
      assume "rnSent r' = rnSent r @ [msg]" "reports (cfgNamespace (rnCfg r)) ev msg"
        "sentLog r' = map_option (\<lambda>es. es @ [ev]) (sentLog r)"
      with logOK_more [OF assms(2) go] show ?thesis by simp
    qed
  next
    case other
    with mainStep_log [OF assms(1)] logOK_same [OF assms(2) go] show ?thesis by simp
  qed
qed

definition logInv :: "Config \<Rightarrow> session \<Rightarrow> bool" where
  "logInv cfg s \<longleftrightarrow> logOK (cfgNamespace cfg) (ssMain s) (rnSent (ssRunner s)) (sentLog (ssRunner s))
     \<and> (sentLog (ssRunner s) = None \<longleftrightarrow> cfgRichLogPath cfg = [])"

lemma logInv_start: "logInv cfg (startSession cfg created now)"
proof -
  have "rnSent (ssRunner (startSession cfg created now)) = []"
    by (simp add: startSession_def newRunner_def updStats_def Let_def)
  moreover have "sentLog (ssRunner (startSession cfg created now)) = (if cfgRichLogPath cfg = [] then None else Some [])"
    by (simp add: startSession_def newRunner_def updStats_def sentLog_def sentEvents_def newRecorder_def Let_def)
  ultimately show ?thesis by (simp add: logInv_def logOK_def)
qed

lemma logInv_step:
  assumes "logInv cfg s" and "rnCfg (ssRunner s) = cfg" and "mainOK (ssMain s) (ssRunner s)" and "step s s'"
  shows "logInv cfg s'"
proof -
  have main: "logOK (cfgNamespace cfg) pc (rnSent r) (sentLog r) \<and> (sentLog r = None \<longleftrightarrow> sentLog (ssRunner s) = None)"
    if "mainStep w k (ssMain s) (ssRunner s) = Some (pc, r, q)" for w k pc r q
    using mainStep_logs [OF that] assms(1-3) by (simp add: logInv_def)
  show ?thesis
    using assms(4)
  proof cases
    case (step_main k w pc r q)
    from main [OF step_main(5)] assms(1) step_main(1) show ?thesis by (simp add: logInv_def)
  next
    case (step_receive e es w pc r q)
    from main [OF step_receive(5)] assms(1) step_receive(1) show ?thesis by (simp add: logInv_def)
  next
    case (step_uni i now werr t r)
    with assms(1) uniStep_log [OF step_uni(5)] wireView_D(3) [OF uniStep_view [OF step_uni(5)]] show ?thesis
      by (simp add: logInv_def)
  next
    case (step_req i now t r)
    with assms(1) reqStep_log [OF step_req(4)] wireView_D(3) [of r "ssRunner s"] reqStep_view [OF step_req(4)]
    show ?thesis by (simp add: logInv_def)
  qed (use assms(1) in \<open>simp_all add: logInv_def\<close>)
qed

lemma reachable_log: "reachable cfg s \<Longrightarrow> logInv cfg s"
proof (induction rule: reachable.induct)
  case (reachable_step s s')
  then show ?case
    using logInv_step [of cfg s s'] reachable_shutdownOK sessionOK_D(2) [OF reachable_OK]
    by (simp add: shutdownOK_def)
qed (rule logInv_start)

subsection \<open>Properties\<close>


definition loggedConfig :: Config where
  "loggedConfig = demoConfig\<lparr>cfgRichLogPath := ''log.html''\<rparr>"

lemma logged_run:
  "case performs (take 3 demoSetup) (startSession loggedConfig 0 0) of None \<Rightarrow> False
   | Some s \<Rightarrow> ssMain s = MWaitPeer \<and> length (rnSent (ssRunner s)) = 1"
  by code_simp


end
