(* ===== verification/Example.thy ===== *)
theory Example
  imports Session Page
begin

text \<open>
  \<^verbatim>\<open>example_rich.html\<close>, the page in the repository that was written by the program: the model writes its first
  event, the connection to the relay at 14:04:36.209, in the same words.
\<close>

definition exampleRunner :: Runner where
  "exampleRunner = newRunner \<lparr>cfgRelayURI = ''moqt://localhost:4443'', cfgNamespace = ''anon/bbb'',
     cfgOutput = \<lparr>mcMode = ModeFFplay, mcFFmpegCmd = [], mcFFplayCmd = [], mcPipeCmd = []\<rparr>,
     cfgClient = \<lparr>ccRelayURI = ''moqt://localhost:4443'', ccInsecureSkipTLS = False, ccALPN = Draft18ALPN,
       ccHandshakeTimeout = 0\<rparr>, cfgRichLogPath = ''example_rich.html''\<rparr> 0"

definition exampleEvent :: string where
  \<open>exampleEvent = nl @ textLines
 [''  <details class="event dir-local">'',
  ''    <summary>'',
  ''      <span class="time">14:04:36.209</span>'',
  ''      <span class="badge dir">'' @ middot @ '' local</span>'',
  ''      <span class="name">CONNECTED</span>'',
  ''      <span class="chan">quic connection</span>'',
  ''      <span class="oneline">QUIC connection to 127.0.0.1:4443 established</span>'',
  ''    </summary>'',
  ''    <div class="detail">'',
  ''      <p class="explain">MoQ Transport runs directly over a raw QUIC connection here (not WebTransport). The TLS handshake negotiated the moqt-18 ALPN token, so both endpoints agree on the draft-18 wire format before any MoQ message is sent.</p>'',
  ''      <p class="speclink">Spec: <a href="https://datatracker.ietf.org/doc/html/draft-ietf-moq-transport-18#section-3.3" target="_blank" rel="noopener">draft-ietf-moq-transport-18 '' @ sectionSign @ ''3.3 '' @ emDash @ '' Session initialization</a></p>'',
  ''      '',
  ''      <table class="fields">'',
  ''        <tr><td class="k">remote</td><td class="v">127.0.0.1:4443</td></tr><tr><td class="k">alpn</td><td class="v">moqt-18</td></tr>'',
  ''      </table>'',
  ''      '',
  ''      '',
  ''      '',
  ''    </div>'',
  ''  </details>''] @ ''  ''\<close>

lemma example_rich_event:
  "showPieces (eventPieces (\<lambda>s. s) (\<lambda>_. 0) []
     ((connectedEvent ''127.0.0.1:4443'' exampleRunner)\<lparr>evTime := 50676209 * 10 ^ 6\<rparr>)) = exampleEvent"
  by code_simp

end
