(* ===== verification/Spec2Isabelle.thy ===== *)
theory Spec2Isabelle
  imports SessionLog Example
begin

text \<open>
  Verification of moqsub, a command line subscriber for Media over QUIC Transport (draft 18), written in
  Go.  The program dials a relay, sends a SETUP, subscribes to a broadcast's catalog, learns from it
  the init track and a media track, subscribes to these, writes the init segment to its output and then
  the media objects as they arrive.

  \<^bold>\<open>The program's parts and the theories that model them\<close>

  \<^item> \<^verbatim>\<open>internal/moqt/draft18\<close>, the wire format.  \<open>Varint\<close> is \<^verbatim>\<open>varint.go\<close>; \<open>WireTypes\<close> is \<^verbatim>\<open>types.go\<close>;
    \<open>ErrorNames\<close> is \<^verbatim>\<open>errors.go\<close>; \<open>Codec\<close> is \<^verbatim>\<open>codec.go\<close>, frames and the bodies of control messages;
    \<open>Subgroup\<close> is \<^verbatim>\<open>stream.go\<close>, the headers and the objects of subgroup streams.
  \<^item> \<^verbatim>\<open>internal/app\<close>, the session.  \<open>Namespace\<close> is \<^verbatim>\<open>splitNamespace\<close> (\<^verbatim>\<open>run.go\<close>) and \<^verbatim>\<open>trackNamespace\<close>
    (\<^verbatim>\<open>subscriptions.go\<close>); \<open>Catalog\<close> is \<^verbatim>\<open>catalog.go\<close>; \<open>Registry\<close> is the subscription registry of
    \<^verbatim>\<open>subscriptions.go\<close>; \<open>Runner\<close> is the shared state, \<^verbatim>\<open>Runner\<close> and \<^verbatim>\<open>Stats\<close>, with the operations on it;
    \<open>Texts\<close> holds the paragraphs these add to the rich log; \<open>Streams\<close> is the goroutines that read
    streams, \<^verbatim>\<open>handleUniStream\<close> and all it calls and \<^verbatim>\<open>readRequestStream\<close>; \<open>Session\<close> is \<^verbatim>\<open>Run\<close> and
    \<^verbatim>\<open>bootstrapFromCatalog\<close> and the interleaving of all goroutines.
  \<^item> \<^verbatim>\<open>internal/richlog\<close>, the HTML log of a session: \<open>RichLog\<close> is the recorder (\<^verbatim>\<open>richlog.go\<close>) and the functions
    of the template, \<open>Page\<close> the template itself and \<^verbatim>\<open>WriteHTML\<close> (\<^verbatim>\<open>html.go\<close>).
  \<^item> \<^verbatim>\<open>internal/media\<close>, the output sink: \<open>MediaOutput\<close>.
  \<^item> \<^verbatim>\<open>internal/quicclient\<close>: \<open>Client\<close>.  \<^verbatim>\<open>cmd/moqsub\<close>: \<open>Args\<close> is \<^verbatim>\<open>parseFlags\<close>, from the arguments of the process
    to its configuration; \<open>Command\<close> is \<^verbatim>\<open>main\<close> and \<^verbatim>\<open>internal/debuglog\<close>.

  Below them are the parts of Go's library the program's values depend on: \<open>Prelude\<close> has bytes, errors and the
  outcome of a call that may panic, \<open>Chars\<close> characters and UTF-8, \<open>Format\<close> the verbs of \<^verbatim>\<open>fmt\<close> the program uses and
  \<^verbatim>\<open>strconv.Quote\<close>, \<open>GoTime\<close> the printing of times and durations and \<open>Duration\<close> \<^verbatim>\<open>time.ParseDuration\<close>, \<open>Url\<close>
  \<^verbatim>\<open>url.Parse\<close> and hosts and ports, \<open>Json\<close> the part of \<^verbatim>\<open>encoding/json\<close> it uses (\<open>Unmarshal\<close> into structs and
  \<open>Indent\<close>), with \<open>JsonFacts\<close> on well-formed documents, and \<open>GoIO\<close> the \<^verbatim>\<open>io.Reader\<close>: a stream in chunks with a final error,
  and three judgements on readers, \<open>insens\<close> (the chunks do not matter), \<open>advances\<close> (bytes are
  taken off the front) and \<open>nopanic\<close>, each with an introduction rule per combinator, so that a reader is
  shown to have them by its shape.

  \<^bold>\<open>How state and operations correspond to the code\<close>

  Structs are records with the code's fields, enumerations and tagged values are datatypes, \<^verbatim>\<open>uint64\<close>
  is \<open>64 word\<close>, a function that may fail or panic returns an \<open>outcome\<close>.  Pointers to subscriptions
  are indices into a store; a channel is the list of what its buffer holds; maps are maps.  A goroutine
  is its place in the code with its local variables (\<open>uniPC\<close>, \<open>reqPC\<close>, \<open>mainPC\<close>) and the rest of its
  stream; one step does at most one access to state that another goroutine reads back, so every
  interleaving that can make a difference is an interleaving of steps.  The relation \<open>step\<close> of
  \<open>Session\<close> has a rule for each kind of goroutine, for the accept loops, the error channel of capacity
  8 and the cancellation; \<open>reachable\<close> is what it can get to.  The world (clock, results of opening,
  writing and dialing, what the relay sends) is an argument of every step and arbitrary.

  \<^bold>\<open>What the groups of lemmas show\<close>

  \<^item> Wire format: encoders and decoders are inverse to each other for any chunking; what the encoders
    accept; which errors a truncated stream gives; that decoding control messages never panics and that
    object headers can.  The locales \<open>wire_format\<close>, \<open>wire_message\<close> and \<open>message_source\<close> of \<open>GoIO\<close> state what a wire
    format and a reader of messages promise, with interpretations for varints, frames, headers and
    objects; \<open>byte_sink\<close> is the writer \<open>WriteFrame\<close> is given, \<open>delivery_table\<close> the registry.
  \<^item> \<open>StreamFacts\<close> and \<open>ControlFacts\<close>: a handler that runs by itself, from the bytes of a whole stream
    to its effect; for subgroup streams this is a refinement of the abstract \<open>deliver\<close>.
  \<^item> \<open>Progress\<close>: the same handlers against the other goroutines, which may change the shared state
    between any two steps: they stop (the \<open>size\<close> of a goroutine gets smaller with every step, locale
    \<open>worker\<close>), and media is written in order, each object once.
  \<^item> \<open>SessionFacts\<close> and \<open>SessionInv\<close>: the invariant \<open>sessionOK\<close> of a session and that every step keeps
    it; \<open>SessionTheorems\<close>: what follows for every reachable session.
  \<^item> \<open>SessionWire\<close>: what every reachable session has sent, as the relay reads it; \<open>SessionLog\<close>: that its rich log
    shows these messages, all and in order.
  \<^item> \<open>Page\<close>: \<open>browse\<close> reads a page like a browser, as far as tags, quoted values and character references go; it
    finds every recorded value as it was and no markup but the template's.  \<open>Example\<close> computes an event of the page
    that is in the repository, \<^verbatim>\<open>example_rich.html\<close>.
  \<^item> \<open>Args\<close>, \<open>Duration\<close>, \<open>Url\<close>, \<open>Client\<close>: how a command line is written and what it sets, that a printed duration is read
    back, and where a relay URL leads, which \<open>ControlFacts\<close> follows into the SETUP.
  \<^item> \<open>Scenario\<close>: \<open>perform\<close> computes a step, so a list of actions is a run; a session with a relay
    is computed from the dial to the first media object and to its end, for the witnesses.

  \<^bold>\<open>Bounds and fuel\<close>

  No definition of the program is cut off by fuel: loops over a stream recurse on its remaining bytes.
  \<open>uniRun\<close> and \<open>reqRun\<close> run a handler for a number of steps; every theorem about them states that there
  is a number after which the handler has finished, and \<open>handlers_terminate\<close> bounds it by four steps for each byte
  and four more.  \<open>maxAlloc\<close> is the longest slice the runtime can make, \<open>maxDepth\<close> the
  nesting \<^verbatim>\<open>encoding/json\<close> allows.  The loops of the flag and duration parsers end because each
  turn takes something off their input.  Fractions of a duration are computed with 128 binary places, of which
  \<^verbatim>\<open>float64\<close> uses 53.

  \<^bold>\<open>Parameters and what is not modelled\<close>

  Third-party code and the system are arguments: quic-go (dialing, opening and accepting streams), processes,
  files, the local time zone (\<open>zone\<close>) and the table of printable code points (\<open>printable\<close>).  Of \<^verbatim>\<open>net/url\<close> and
  \<^verbatim>\<open>encoding/json\<close> the texts of the errors are not modelled, and a slice is decoded as the documentation of
  \<^verbatim>\<open>encoding/json\<close> says.  Not modelled: which lines are logged through \<^verbatim>\<open>slog\<close> and what is printed to standard error
  (output only, nothing reads it; what the logger makes of a line is in \<open>Command\<close>), signal handling (a cancellation
  can happen at any step), and the mutexes: what they protect is one step.
  The deferred calls of \<^verbatim>\<open>Run\<close> are recorded in order (\<open>closings\<close>); a goroutine may still run while they do.
\<close>

end
